(* ===== verification/Prelude.thy ===== *)
theory Prelude
  imports Main "HOL-Library.Word"
begin

text \<open>
  Shared vocabulary of the development: bytes and the little-endian object representation of
  fixed-width integers, IEEE-754 single precision bit patterns, the outcome type of C++ code
  (exceptions, self-deadlock, undefined behaviour), the state monad with a mutex, the interface
  of fixed-width field codecs, and reachability with its invariant rule.
\<close>

named_theorems codec_simps \<open>reading back encoded fields\<close>
named_theorems cxx_simps \<open>unfolding of the outcome monad\<close>

section \<open>Machine types\<close>

type_synonym byte = "8 word"
type_synonym u16 = "16 word"
type_synonym u32 = "32 word"
type_synonym u64 = "64 word"

text \<open>
  A C++ \<^verbatim>\<open>float\<close> is its IEEE-754 binary32 bit pattern; copying it with
  \<^verbatim>\<open>memcpy\<close> into a \<^verbatim>\<open>uint32_t\<close> is then the identity on the pattern.
  A 32-bit \<^verbatim>\<open>int\<close> is a word read with \<open>sint\<close>.
\<close>

type_synonym float32 = "32 word"
type_synonym i32 = "32 word"

text \<open>\<^verbatim>\<open>std::string\<close> and \<^verbatim>\<open>std::vector<uint8_t>\<close> are converted byte for byte.\<close>

definition byte_of_char :: "char \<Rightarrow> byte" where
  "byte_of_char c = word_of_nat (of_char c)"

definition char_of_byte :: "byte \<Rightarrow> char" where
  "char_of_byte b = char_of (unat b)"

definition bytes_of_string :: "string \<Rightarrow> byte list" where
  "bytes_of_string s = map byte_of_char s"

definition string_of_bytes :: "byte list \<Rightarrow> string" where
  "string_of_bytes bs = map char_of_byte bs"

lemma char_of_byte_of_char [simp]: "char_of_byte (byte_of_char c) = c"
proof -
  have "(of_char c :: nat) < 256" by (rule nat_of_char_less_256)
  then have "unat (word_of_nat (of_char c) :: byte) = of_char c"
    by (simp add: unat_of_nat)
  then show ?thesis by (simp add: char_of_byte_def byte_of_char_def)
qed

lemma byte_of_char_of_byte [simp]: "byte_of_char (char_of_byte b) = b"
proof -
  have "unat b < 256" using unsigned_less [of b] by simp
  then show ?thesis by (simp add: char_of_byte_def byte_of_char_def of_char_of)
qed

lemma bytes_of_string_of_bytes [simp]: "bytes_of_string (string_of_bytes bs) = bs"
  by (simp add: bytes_of_string_def string_of_bytes_def comp_def)

lemma string_of_bytes_of_string [simp]: "string_of_bytes (bytes_of_string s) = s"
  by (simp add: bytes_of_string_def string_of_bytes_def comp_def)

lemma length_bytes_of_string [simp]: "length (bytes_of_string s) = length s"
  by (simp add: bytes_of_string_def)

lemma length_string_of_bytes [simp]: "length (string_of_bytes s) = length s"
  by (simp add: string_of_bytes_def)

section \<open>Truncating conversion of a float to an integer\<close>

text \<open>
  The value of a finite binary32 is \<open>\<plusminus> sig * 2 ^ (e - 150)\<close> with the (hidden-bit) significand
  \<open>sig\<close> and the biased exponent \<open>e\<close> (1 for subnormals). \<open>f32_trunc\<close> drops the fraction, as a C++
  conversion to an integer type does; \<open>None\<close> stands for an infinity or a NaN.
\<close>

definition f32_exp :: "float32 \<Rightarrow> nat" where
  "f32_exp f = unat (drop_bit 23 f) mod 256"

definition f32_sig :: "float32 \<Rightarrow> nat" where
  "f32_sig f = (if f32_exp f = 0 then unat f mod 2 ^ 23 else unat f mod 2 ^ 23 + 2 ^ 23)"

definition f32_negative :: "float32 \<Rightarrow> bool" where
  "f32_negative f \<longleftrightarrow> 2 ^ 31 \<le> unat f"

definition f32_magnitude :: "float32 \<Rightarrow> nat" where
  "f32_magnitude f =
     (let e = max 1 (f32_exp f)
      in if 150 \<le> e then f32_sig f * 2 ^ (e - 150) else f32_sig f div 2 ^ (150 - e))"

definition f32_trunc :: "float32 \<Rightarrow> int option" where
  "f32_trunc f =
     (if f32_exp f = 255 then None
      else Some (if f32_negative f then - int (f32_magnitude f) else int (f32_magnitude f)))"


lemma f32_magnitude_zero: "f32_trunc 0 = Some 0"
  by (simp add: f32_trunc_def f32_exp_def f32_magnitude_def f32_sig_def f32_negative_def)

section \<open>Little-endian object representation\<close>

definition le8 :: "byte \<Rightarrow> byte list" where
  "le8 w = [w]"

definition le16 :: "u16 \<Rightarrow> byte list" where
  "le16 w = [ucast w, ucast (drop_bit 8 w)]"

definition le32 :: "u32 \<Rightarrow> byte list" where
  "le32 w = [ucast w, ucast (drop_bit 8 w), ucast (drop_bit 16 w), ucast (drop_bit 24 w)]"

text \<open>A read of \<open>n\<close> bytes at an offset; \<open>None\<close> when it would leave the buffer.\<close>

definition read_bytes :: "nat \<Rightarrow> byte list \<Rightarrow> nat \<Rightarrow> byte list option" where
  "read_bytes n buf off = (if off + n \<le> length buf then Some (take n (drop off buf)) else None)"

fun join16 :: "byte list \<Rightarrow> u16" where
  "join16 [a, b] = or (ucast a) (push_bit 8 (ucast b))"
| "join16 _ = 0"

fun join32 :: "byte list \<Rightarrow> u32" where
  "join32 [a, b, c, d] =
     or (or (ucast a) (push_bit 8 (ucast b))) (or (push_bit 16 (ucast c)) (push_bit 24 (ucast d)))"
| "join32 _ = 0"

definition read8 :: "byte list \<Rightarrow> nat \<Rightarrow> byte option" where
  "read8 buf off = map_option hd (read_bytes 1 buf off)"

definition read16 :: "byte list \<Rightarrow> nat \<Rightarrow> u16 option" where
  "read16 buf off = map_option join16 (read_bytes 2 buf off)"

definition read32 :: "byte list \<Rightarrow> nat \<Rightarrow> u32 option" where
  "read32 buf off = map_option join32 (read_bytes 4 buf off)"

lemma length_le8 [simp]: "length (le8 w) = 1"
  by (simp add: le8_def)

lemma length_le16 [simp]: "length (le16 w) = 2"
  by (simp add: le16_def)

lemma length_le32 [simp]: "length (le32 w) = 4"
  by (simp add: le32_def)

lemma join16_le16 [simp]: "join16 (le16 w) = w"
  by (rule bit_word_eqI)
    (auto simp: le16_def bit_or_iff bit_push_bit_iff bit_ucast_iff bit_drop_bit_eq)

lemma join32_le32 [simp]: "join32 (le32 w) = w"
proof (rule bit_word_eqI)
  fix n assume "n < LENGTH(32)"
  then consider "n < 8" | "8 \<le> n" "n < 16" | "16 \<le> n" "n < 24" | "24 \<le> n" "n < 32"
    by fastforce
  then show "bit (join32 (le32 w)) n = bit w n"
    by cases (auto simp: le32_def bit_or_iff bit_push_bit_iff bit_ucast_iff bit_drop_bit_eq)
qed

lemma byte_bit_beyond: "8 \<le> n \<Longrightarrow> \<not> bit (b :: byte) n"
  by (auto dest: bit_imp_le_length)

lemma le16_join16_pair: "le16 (join16 [a, b]) = [a, b]"
  by (auto simp: le16_def bit_or_iff bit_push_bit_iff bit_ucast_iff bit_drop_bit_eq
      byte_bit_beyond intro!: bit_word_eqI)

lemma le32_join32_quad: "le32 (join32 [a, b, c, d]) = [a, b, c, d]"
  by (auto simp: le32_def bit_or_iff bit_push_bit_iff bit_ucast_iff bit_drop_bit_eq
      byte_bit_beyond intro!: bit_word_eqI)

lemma le16_join16: "length bs = 2 \<Longrightarrow> le16 (join16 bs) = bs"
  by (cases bs rule: join16.cases) (simp_all add: le16_join16_pair del: join16.simps)

lemma le32_join32: "length bs = 4 \<Longrightarrow> le32 (join32 bs) = bs"
  by (cases bs rule: join32.cases) (simp_all add: le32_join32_quad del: join32.simps)

section \<open>Fixed-width field codecs\<close>

text \<open>
  The contract between a writer of packed fields and a reader at an offset: every value takes
  \<open>width\<close> bytes, reading is in bounds exactly when the whole field is, and what is read is the
  value whose encoding stands there.
\<close>

locale field_codec =
  fixes enc :: "'a \<Rightarrow> byte list"
    and dec :: "byte list \<Rightarrow> nat \<Rightarrow> 'a option"
    and width :: nat
  assumes length_enc: "length (enc a) = width"
    and dec_None: "dec bs off = None \<longleftrightarrow> length bs < off + width"
    and dec_drop: "drop off bs = enc a @ post \<Longrightarrow> off \<le> length bs \<Longrightarrow> dec bs off = Some a"
    and dec_canonical: "dec bs off = Some a \<Longrightarrow> take width (drop off bs) = enc a"
begin

lemma read_back: "dec (pre @ enc a @ post) (length pre) = Some a"
  by (rule dec_drop) simp_all

lemma enc_inject: "enc a = enc b \<longleftrightarrow> a = b"
proof
  assume "enc a = enc b"
  then have "Some a = Some b"
    using read_back [of "[]" a "[]"] read_back [of "[]" b "[]"] by simp
  then show "a = b" by simp
qed simp

lemma read_iff: "dec bs off = Some a \<longleftrightarrow> off + width \<le> length bs \<and> take width (drop off bs) = enc a"
proof
  assume r: "dec bs off = Some a"
  then have "off + width \<le> length bs"
    using dec_None [of bs off] by (simp add: not_less)
  with r show "off + width \<le> length bs \<and> take width (drop off bs) = enc a"
    by (simp add: dec_canonical)
next
  assume a: "off + width \<le> length bs \<and> take width (drop off bs) = enc a"
  then have "drop off bs = enc a @ drop width (drop off bs)"
    by (metis append_take_drop_id)
  with a show "dec bs off = Some a"
    by (auto intro: dec_drop)
qed

lemma field_in_bounds: "(\<exists>a. dec bs off = Some a) \<longleftrightarrow> off + width \<le> length bs"
  using dec_None [of bs off] by (auto simp: not_less)

end

lemma take_append_drop_eq: "drop off bs = xs @ post \<Longrightarrow> take (length xs) (drop off bs) = xs"
  by simp

lemma read_bytes_drop:
  assumes "drop off bs = xs @ post" and "off \<le> length bs"
  shows "read_bytes (length xs) bs off = Some xs"
proof -
  from assms(1) have "length (drop off bs) = length (xs @ post)" by (rule arg_cong)
  with assms(2) have "off + length xs \<le> length bs" by simp
  with assms(1) show ?thesis by (simp add: read_bytes_def)
qed

lemma read_bytes_None: "read_bytes n bs off = None \<longleftrightarrow> length bs < off + n"
  by (auto simp: read_bytes_def)

lemma read_bytes_SomeD: "read_bytes n bs off = Some xs \<Longrightarrow> take n (drop off bs) = xs \<and> length xs = n"
  by (auto simp: read_bytes_def split: if_splits)

interpretation c8: field_codec le8 read8 1
proof unfold_locales
  fix a :: byte and bs post :: "byte list" and off :: nat
  show "length (le8 a) = 1" by simp
  show "read8 bs off = None \<longleftrightarrow> length bs < off + 1"
    by (simp add: read8_def read_bytes_None)
  show "read8 bs off = Some a" if "drop off bs = le8 a @ post" "off \<le> length bs"
    using read_bytes_drop [OF that] by (simp add: read8_def le8_def)
  show "take 1 (drop off bs) = le8 a" if "read8 bs off = Some a"
  proof -
    from that obtain xs where "read_bytes 1 bs off = Some xs" and a: "a = hd xs"
      by (auto simp: read8_def)
    then have "take 1 (drop off bs) = xs" and "length xs = 1"
      using read_bytes_SomeD by blast+
    with a show ?thesis by (cases xs) (simp_all add: le8_def)
  qed
qed

interpretation c16: field_codec le16 read16 2
proof unfold_locales
  fix a :: u16 and bs post :: "byte list" and off :: nat
  show "length (le16 a) = 2" by simp
  show "read16 bs off = None \<longleftrightarrow> length bs < off + 2"
    by (simp add: read16_def read_bytes_None)
  show "read16 bs off = Some a" if "drop off bs = le16 a @ post" "off \<le> length bs"
    using read_bytes_drop [OF that] by (simp add: read16_def)
  show "take 2 (drop off bs) = le16 a" if "read16 bs off = Some a"
  proof -
    from that obtain xs where "read_bytes 2 bs off = Some xs" and a: "a = join16 xs"
      by (auto simp: read16_def)
    then have "take 2 (drop off bs) = xs" and "length xs = 2"
      using read_bytes_SomeD by blast+
    with a show ?thesis by (simp add: le16_join16)
  qed
qed

interpretation c32: field_codec le32 read32 4
proof unfold_locales
  fix a :: u32 and bs post :: "byte list" and off :: nat
  show "length (le32 a) = 4" by simp
  show "read32 bs off = None \<longleftrightarrow> length bs < off + 4"
    by (simp add: read32_def read_bytes_None)
  show "read32 bs off = Some a" if "drop off bs = le32 a @ post" "off \<le> length bs"
    using read_bytes_drop [OF that] by (simp add: read32_def)
  show "take 4 (drop off bs) = le32 a" if "read32 bs off = Some a"
  proof -
    from that obtain xs where "read_bytes 4 bs off = Some xs" and a: "a = join32 xs"
      by (auto simp: read32_def)
    then have "take 4 (drop off bs) = xs" and "length xs = 4"
      using read_bytes_SomeD by blast+
    with a show ?thesis by (simp add: le32_join32)
  qed
qed


lemmas read_drops = c8.dec_drop c16.dec_drop c32.dec_drop

section \<open>Outcomes of C++ code\<close>

text \<open>
  A call ends normally, with an exception (its \<^verbatim>\<open>what()\<close>), blocked for ever on a mutex,
  or in undefined behaviour. The state after it is always given: what a call changed before it
  threw stays changed, and a mutex it blocked on stays locked.
\<close>

datatype cxx_error = Exn string | Deadlock | UB

type_synonym ('s, 'a) cxx = "'s \<Rightarrow> (cxx_error + 'a) \<times> 's"

definition cxx_return :: "'a \<Rightarrow> ('s, 'a) cxx" where
  "cxx_return a s = (Inr a, s)"

definition cxx_throw :: "cxx_error \<Rightarrow> ('s, 'a) cxx" where
  "cxx_throw e s = (Inl e, s)"

definition cxx_read :: "('s \<Rightarrow> 'a) \<Rightarrow> ('s, 'a) cxx" where
  "cxx_read f s = (Inr (f s), s)"

definition cxx_modify :: "('s \<Rightarrow> 's) \<Rightarrow> ('s, unit) cxx" where
  "cxx_modify f s = (Inr (), f s)"

definition cxx_bind :: "('s, 'a) cxx \<Rightarrow> ('a \<Rightarrow> ('s, 'b) cxx) \<Rightarrow> ('s, 'b) cxx" where
  "cxx_bind m f s = (case m s of (Inl e, s') \<Rightarrow> (Inl e, s') | (Inr a, s') \<Rightarrow> f a s')"

definition cxx_then :: "('s, 'a) cxx \<Rightarrow> ('s, 'b) cxx \<Rightarrow> ('s, 'b) cxx" where
  "cxx_then m n = cxx_bind m (\<lambda>_. n)"

text \<open>Run an operation of a part of the state, such as a member object.\<close>

definition cxx_part :: "('s \<Rightarrow> 'p) \<Rightarrow> ('p \<Rightarrow> 's \<Rightarrow> 's) \<Rightarrow> ('p, 'a) cxx \<Rightarrow> ('s, 'a) cxx" where
  "cxx_part get put m s = (case m (get s) of (r, p) \<Rightarrow> (r, put p s))"

lemmas cxx_defs = cxx_return_def cxx_throw_def cxx_read_def cxx_modify_def cxx_bind_def
  cxx_then_def cxx_part_def

declare cxx_defs [cxx_simps]

text \<open>Sequencing of computations without state.\<close>

fun sum_bind :: "cxx_error + 'a \<Rightarrow> ('a \<Rightarrow> cxx_error + 'b) \<Rightarrow> cxx_error + 'b" where
  "sum_bind (Inl e) f = Inl e"
| "sum_bind (Inr a) f = f a"

lemma sum_bind_Inr_iff: "sum_bind m f = Inr b \<longleftrightarrow> (\<exists>a. m = Inr a \<and> f a = Inr b)"
  by (cases m) simp_all

lemma sum_bind_Inl_iff: "sum_bind m f = Inl e \<longleftrightarrow> m = Inl e \<or> (\<exists>a. m = Inr a \<and> f a = Inl e)"
  by (cases m) simp_all

lemma cxx_bind_assoc: "cxx_bind (cxx_bind m f) g = cxx_bind m (\<lambda>a. cxx_bind (f a) g)"
  by (rule ext) (simp add: cxx_bind_def split: prod.split sum.split)

lemma cxx_bind_return [simp]: "cxx_bind (cxx_return a) f = f a"
  by (rule ext) (simp add: cxx_defs)

lemma cxx_return_bind [simp]: "cxx_bind m cxx_return = m"
  by (rule ext) (simp add: cxx_defs split: prod.split sum.split)

section \<open>A mutex held for the length of a scope\<close>

text \<open>
  \<^verbatim>\<open>std::lock_guard<std::mutex>\<close> locks on entry and unlocks when the scope ends, normally
  or by an exception. \<^verbatim>\<open>std::mutex\<close> is not recursive: taking it again before it is
  released blocks for ever, and the outer scope then never ends.
\<close>

definition lock_guard ::
    "('s \<Rightarrow> bool) \<Rightarrow> (bool \<Rightarrow> 's \<Rightarrow> 's) \<Rightarrow> ('s, 'a) cxx \<Rightarrow> ('s, 'a) cxx" where
  "lock_guard held upd body s =
     (if held s then (Inl Deadlock, s)
      else case body (upd True s) of
             (Inl Deadlock, s') \<Rightarrow> (Inl Deadlock, s')
           | (r, s') \<Rightarrow> (r, upd False s'))"

locale mutex_object =
  fixes held :: "'s \<Rightarrow> bool" and upd :: "bool \<Rightarrow> 's \<Rightarrow> 's"
  assumes held_upd: "held (upd b s) = b"
    and upd_upd: "upd b (upd c s) = upd b s"
    and upd_held: "upd (held s) s = s"
begin

lemma guard_blocked: "held s \<Longrightarrow> lock_guard held upd body s = (Inl Deadlock, s)"
  by (simp add: lock_guard_def)

lemma guard_returns:
  "\<not> held s \<Longrightarrow> body (upd True s) = (Inr a, s') \<Longrightarrow>
     lock_guard held upd body s = (Inr a, upd False s')"
  by (simp add: lock_guard_def)

lemma guard_throws:
  "\<not> held s \<Longrightarrow> body (upd True s) = (Inl (Exn w), s') \<Longrightarrow>
     lock_guard held upd body s = (Inl (Exn w), upd False s')"
  by (simp add: lock_guard_def)

lemma guard_stuck:
  "\<not> held s \<Longrightarrow> body (upd True s) = (Inl Deadlock, s') \<Longrightarrow>
     lock_guard held upd body s = (Inl Deadlock, s')"
  by (simp add: lock_guard_def)

lemma guard_read:
  "\<not> held s \<Longrightarrow> (\<And>b. f (upd b s) = f s) \<Longrightarrow>
     lock_guard held upd (cxx_read f) s = (Inr (f s), s)"
  using upd_held [of s] by (simp add: lock_guard_def cxx_read_def upd_upd)

lemma relock_deadlocks:
  "\<not> held s \<Longrightarrow> lock_guard held upd (lock_guard held upd body) s = (Inl Deadlock, upd True s)"
  by (simp add: lock_guard_def held_upd)

end

section \<open>Reachable states and invariants\<close>

inductive reach :: "('s \<Rightarrow> bool) \<Rightarrow> ('s \<Rightarrow> 's \<Rightarrow> bool) \<Rightarrow> 's \<Rightarrow> bool"
  for start :: "'s \<Rightarrow> bool" and step :: "'s \<Rightarrow> 's \<Rightarrow> bool" where
  reach_start: "start s \<Longrightarrow> reach start step s"
| reach_step: "reach start step s \<Longrightarrow> step s t \<Longrightarrow> reach start step t"

locale invariant_of =
  fixes start :: "'s \<Rightarrow> bool" and step :: "'s \<Rightarrow> 's \<Rightarrow> bool" and inv :: "'s \<Rightarrow> bool"
  assumes inv_start: "start s \<Longrightarrow> inv s"
    and inv_step: "step s t \<Longrightarrow> inv s \<Longrightarrow> inv t"
begin

lemma reach_inv: "reach start step s \<Longrightarrow> inv s"
  by (induction rule: reach.induct) (auto intro: inv_start inv_step)

lemma steps_inv: "step\<^sup>*\<^sup>* s t \<Longrightarrow> inv s \<Longrightarrow> inv t"
  by (induction rule: rtranclp_induct) (auto intro: inv_step)

end

section \<open>Queues\<close>

text \<open>
  A queue between threads: what goes in comes out once, in order. \<open>fifo_run\<close> runs a sequence of
  insertions and removals in the order the queue's mutex admits them and collects what went in
  and what came out.
\<close>

datatype 'r fifo_op = Put 'r | Take

fun fifo_run :: "('r \<Rightarrow> 's \<Rightarrow> 'a \<times> 's) \<Rightarrow> ('s \<Rightarrow> 'a option \<times> 's) \<Rightarrow> 'r fifo_op list \<Rightarrow> 's \<Rightarrow>
    'a list \<times> 'a list \<times> 's" where
  "fifo_run put take_next [] s = ([], [], s)"
| "fifo_run put take_next (Put r # cs) s =
     (case put r s of (a, s') \<Rightarrow>
        case fifo_run put take_next cs s' of (ins, outs, t) \<Rightarrow> (a # ins, outs, t))"
| "fifo_run put take_next (Take # cs) s =
     (case take_next s of
        (None, s') \<Rightarrow> fifo_run put take_next cs s'
      | (Some a, s') \<Rightarrow> case fifo_run put take_next cs s' of (ins, outs, t) \<Rightarrow> (ins, a # outs, t))"

locale fifo =
  fixes contents :: "'s \<Rightarrow> 'a list"
    and put :: "'r \<Rightarrow> 's \<Rightarrow> 'a \<times> 's"
    and take_next :: "'s \<Rightarrow> 'a option \<times> 's"
  assumes put_contents: "contents (snd (put r s)) = contents s @ [fst (put r s)]"
    and take_empty: "contents s = [] \<Longrightarrow> fst (take_next s) = None \<and> contents (snd (take_next s)) = []"
    and take_first:
      "contents s = x # xs \<Longrightarrow> fst (take_next s) = Some x \<and> contents (snd (take_next s)) = xs"
begin

lemma fifo_order:
  "fifo_run put take_next cs s = (ins, outs, t) \<Longrightarrow> contents s @ ins = outs @ contents t"
proof (induction cs arbitrary: s ins outs t)
  case (Cons c cs)
  note IH = Cons.IH and run = Cons.prems
  show ?case
  proof (cases c)
    case (Put r)
    with run put_contents [of r s] IH [of "snd (put r s)"] show ?thesis
      by (auto split: prod.splits)
  next
    case Take
    show ?thesis
    proof (cases "contents s")
      case Nil
      with Take run take_empty [of s] IH [of "snd (take_next s)"] show ?thesis
        by (auto split: prod.splits)
    next
      case (Cons x xs)
      with Take run take_first [of s x xs] IH [of "snd (take_next s)"] show ?thesis
        by (auto split: prod.splits)
    qed
  qed
qed simp

end

section \<open>Decimal and hexadecimal output\<close>

fun dec_nat :: "nat \<Rightarrow> string" where
  "dec_nat n = (if n < 10 then [char_of (48 + n)] else dec_nat (n div 10) @ [char_of (48 + n mod 10)])"

declare dec_nat.simps [simp del]

definition dec_int :: "int \<Rightarrow> string" where
  "dec_int z = (if z < 0 then CHR ''-'' # dec_nat (nat (- z)) else dec_nat (nat z))"

definition hex_chars :: string where
  "hex_chars = ''0123456789abcdef''"

definition hex_byte :: "byte \<Rightarrow> string" where
  "hex_byte b = [hex_chars ! (unat b div 16), hex_chars ! (unat b mod 16)]"

lemma length_hex_chars [simp]: "length hex_chars = 16"
  by (simp add: hex_chars_def)

lemma distinct_hex_chars: "distinct hex_chars"
  by (simp add: hex_chars_def)

lemma hex_byte_inject: "hex_byte a = hex_byte b \<Longrightarrow> a = b"
proof -
  assume eq: "hex_byte a = hex_byte b"
  have lt: "unat c div 16 < 16" for c :: byte
  proof -
    have "unat c < 256" using unsigned_less [of c] by simp
    then show ?thesis by simp
  qed
  from eq lt [of a] lt [of b] have "unat a div 16 = unat b div 16" "unat a mod 16 = unat b mod 16"
    by (auto simp: hex_byte_def nth_eq_iff_index_eq [OF distinct_hex_chars])
  then have "unat a = unat b" by (metis div_mult_mod_eq)
  then show "a = b" by (simp add: word_unat_eq_iff)
qed

end
