(* ===== verification/Session.thy ===== *)
theory Session
  imports Prelude "HOL-Library.AList"
begin

text \<open>
  The session manager of \<^verbatim>\<open>src/server/session.hpp\<close> and
  \<^verbatim>\<open>session.cpp\<close>: users, sessions by token, and the hardware lock, all behind one
  mutex. An \<^verbatim>\<open>unordered_map\<close> is an association list; its order is one order the
  container may iterate in. A \<^verbatim>\<open>steady_clock\<close> time point is a number of nanoseconds
  since the clock's epoch, and an operation that reads the clock takes the reading as \<open>now\<close>.
\<close>

section \<open>State\<close>

record Session =
  sess_username :: string
  last_seen :: int

record UserInfo =
  ui_username :: string
  ui_password :: string

record SessionManager =
  users_m :: "(string \<times> string) list"
  sessions_m :: "(string \<times> Session) list"
  current_lock_m :: "string option"
  mutex_m :: bool

definition SessionManager_default :: SessionManager where
  "SessionManager_default =
     \<lparr>users_m = [], sessions_m = [], current_lock_m = None, mutex_m = False\<rparr>"

definition session_guard :: "(SessionManager, 'a) cxx \<Rightarrow> (SessionManager, 'a) cxx" where
  "session_guard = lock_guard mutex_m (\<lambda>b s. s\<lparr>mutex_m := b\<rparr>)"

section \<open>Operations\<close>

definition load_users :: "UserInfo list \<Rightarrow> (SessionManager, bool) cxx" where
  "load_users users = session_guard (\<lambda>s.
     (Inr True,
      s\<lparr>users_m := fold (\<lambda>u m. AList.update (ui_username u) (ui_password u) m) users []\<rparr>))"

text \<open>
  \<open>d i\<close> is the result of the \<open>i\<close>-th call of a distribution in one \<^verbatim>\<open>generate_uuid\<close>: call
  15 draws from 8..11, the others from 0..15.
\<close>

definition uuid_draws :: "(nat \<Rightarrow> nat) \<Rightarrow> bool" where
  "uuid_draws d \<longleftrightarrow> (\<forall>i \<in> set [0..<31]. d i \<le> 15) \<and> 8 \<le> d 15 \<and> d 15 \<le> 11"

definition hex_draws :: "(nat \<Rightarrow> nat) \<Rightarrow> nat \<Rightarrow> nat \<Rightarrow> string" where
  "hex_draws d i n = map (\<lambda>k. hex_chars ! d k) [i..<i + n]"

definition generate_uuid :: "(nat \<Rightarrow> nat) \<Rightarrow> string" where
  "generate_uuid d =
     hex_draws d 0 8 @ ''-'' @ hex_draws d 8 4 @ ''-4'' @ hex_draws d 12 3 @ ''-'' @
     [hex_chars ! d 15] @ hex_draws d 16 3 @ ''-'' @ hex_draws d 19 12"

definition login ::
    "(nat \<Rightarrow> nat) \<Rightarrow> string \<Rightarrow> string \<Rightarrow> (SessionManager, string option) cxx" where
  "login d username password = session_guard (\<lambda>s.
     case find (\<lambda>(token, session). sess_username session = username) (sessions_m s) of
       Some (token, session) \<Rightarrow> (Inr (Some token), s)
     | None \<Rightarrow>
         if map_of (users_m s) username = Some password
         then let token = generate_uuid d in
           (Inr (Some token),
            s\<lparr>sessions_m :=
                AList.update token \<lparr>sess_username = username, last_seen = 0\<rparr> (sessions_m s)\<rparr>)
         else (Inr None, s))"

definition logout :: "string \<Rightarrow> (SessionManager, unit) cxx" where
  "logout token = session_guard (cxx_modify (\<lambda>s. s\<lparr>sessions_m := AList.delete token (sessions_m s)\<rparr>))"

definition is_valid_token :: "string \<Rightarrow> (SessionManager, bool) cxx" where
  "is_valid_token token = session_guard (cxx_read (\<lambda>s. map_of (sessions_m s) token \<noteq> None))"

definition touch_session :: "int \<Rightarrow> string \<Rightarrow> (SessionManager, unit) cxx" where
  "touch_session now token = session_guard (cxx_modify (\<lambda>s.
     s\<lparr>sessions_m := AList.map_entry token (\<lambda>e. e\<lparr>last_seen := now\<rparr>) (sessions_m s)\<rparr>))"

definition acquire_lock :: "string \<Rightarrow> (SessionManager, bool) cxx" where
  "acquire_lock token = session_guard (\<lambda>s.
     if current_lock_m s \<noteq> None then (Inr False, s)
     else (Inr True, s\<lparr>current_lock_m := Some token\<rparr>))"

definition release_lock :: "string \<Rightarrow> (SessionManager, bool) cxx" where
  "release_lock token = session_guard (\<lambda>s.
     if current_lock_m s \<noteq> Some token then (Inr False, s)
     else (Inr True, s\<lparr>current_lock_m := None\<rparr>))"

definition has_lock :: "string \<Rightarrow> (SessionManager, bool) cxx" where
  "has_lock token = session_guard (cxx_read (\<lambda>s. current_lock_m s = Some token))"

definition is_locked :: "(SessionManager, bool) cxx" where
  "is_locked = session_guard (cxx_read (\<lambda>s. current_lock_m s \<noteq> None))"

definition num_users :: "(SessionManager, nat) cxx" where
  "num_users = session_guard (cxx_read (\<lambda>s. length (users_m s)))"

definition token_to_username :: "string \<Rightarrow> (SessionManager, string) cxx" where
  "token_to_username token = session_guard (cxx_read (\<lambda>s.
     case find (\<lambda>(s_token, s_session). token = s_token) (sessions_m s) of
       Some (s_token, s_session) \<Rightarrow> sess_username s_session
     | None \<Rightarrow> []))"

text \<open>
  The sweep holds the mutex for the whole loop, and calls \<^verbatim>\<open>release_lock\<close>, which
  takes it again. The list argument is what the iterator has still to visit; seconds are
  converted to the clock's nanoseconds.
\<close>

definition nanoseconds :: "int \<Rightarrow> int" where
  "nanoseconds sec = sec * 1000000000"

fun sweep_sessions_loop ::
    "int \<Rightarrow> int \<Rightarrow> (string \<times> Session) list \<Rightarrow> (SessionManager, unit) cxx" where
  "sweep_sessions_loop now timeout [] = cxx_return ()"
| "sweep_sessions_loop now timeout ((token, session) # rest) =
     (if now - last_seen session > nanoseconds timeout
      then cxx_then (release_lock token)
             (cxx_then (cxx_modify (\<lambda>s. s\<lparr>sessions_m := AList.delete token (sessions_m s)\<rparr>))
               (sweep_sessions_loop now timeout rest))
      else sweep_sessions_loop now timeout rest)"

definition sweep_expired_sessions :: "int \<Rightarrow> int \<Rightarrow> (SessionManager, unit) cxx" where
  "sweep_expired_sessions now timeout =
     session_guard (\<lambda>s. sweep_sessions_loop now timeout (sessions_m s) s)"

section \<open>The mutex\<close>

interpretation sm: mutex_object mutex_m "\<lambda>b s. s\<lparr>mutex_m := b\<rparr>"
  by unfold_locales simp_all

lemma session_guard_blocked: "mutex_m s \<Longrightarrow> session_guard body s = (Inl Deadlock, s)"
  unfolding session_guard_def by (rule sm.guard_blocked)

lemma session_guard_read:
  "\<not> mutex_m s \<Longrightarrow> (\<And>b. f (s\<lparr>mutex_m := b\<rparr>) = f s) \<Longrightarrow> session_guard (cxx_read f) s = (Inr (f s), s)"
  unfolding session_guard_def by (rule sm.guard_read)

lemma session_guard_free:
  "\<not> mutex_m s \<Longrightarrow> body (s\<lparr>mutex_m := True\<rparr>) = (Inr a, s') \<Longrightarrow>
     session_guard body s = (Inr a, s'\<lparr>mutex_m := False\<rparr>)"
  unfolding session_guard_def by (rule sm.guard_returns)

lemma mutex_restore [simp]: "\<not> mutex_m s \<Longrightarrow> s\<lparr>mutex_m := False\<rparr> = s"
  using sm.upd_held [of s] by simp

lemmas session_op_defs = load_users_def login_def logout_def is_valid_token_def touch_session_def
  acquire_lock_def release_lock_def has_lock_def is_locked_def num_users_def token_to_username_def
  sweep_expired_sessions_def

text \<open>Each operation with the mutex free, as an equation.\<close>

named_theorems session_free \<open>session operations when no one holds the mutex\<close>

lemma login_free [session_free]:
  "\<not> mutex_m s \<Longrightarrow> login d u p s =
     (case find (\<lambda>(token, session). sess_username session = u) (sessions_m s) of
       Some (token, session) \<Rightarrow> (Inr (Some token), s)
     | None \<Rightarrow>
         if map_of (users_m s) u = Some p
         then (Inr (Some (generate_uuid d)),
            s\<lparr>sessions_m := AList.update (generate_uuid d)
                \<lparr>sess_username = u, last_seen = 0\<rparr> (sessions_m s)\<rparr>)
         else (Inr None, s))"
  unfolding login_def
  by (auto simp: session_guard_def lock_guard_def Let_def split: option.split)

lemma logout_free [session_free]:
  "\<not> mutex_m s \<Longrightarrow> logout t s = (Inr (), s\<lparr>sessions_m := AList.delete t (sessions_m s)\<rparr>)"
  by (simp add: logout_def session_guard_def lock_guard_def cxx_modify_def)

lemma is_valid_token_free [session_free]:
  "\<not> mutex_m s \<Longrightarrow> is_valid_token t s = (Inr (map_of (sessions_m s) t \<noteq> None), s)"
  unfolding is_valid_token_def by (rule session_guard_read) simp_all

lemma touch_session_free [session_free]:
  "\<not> mutex_m s \<Longrightarrow> touch_session now t s =
     (Inr (), s\<lparr>sessions_m := AList.map_entry t (\<lambda>e. e\<lparr>last_seen := now\<rparr>) (sessions_m s)\<rparr>)"
  by (simp add: touch_session_def session_guard_def lock_guard_def cxx_modify_def)

lemma acquire_lock_free [session_free]:
  "\<not> mutex_m s \<Longrightarrow> acquire_lock t s =
     (if current_lock_m s \<noteq> None then (Inr False, s) else (Inr True, s\<lparr>current_lock_m := Some t\<rparr>))"
  by (auto simp: acquire_lock_def session_guard_def lock_guard_def)

lemma release_lock_free [session_free]:
  "\<not> mutex_m s \<Longrightarrow> release_lock t s =
     (if current_lock_m s \<noteq> Some t then (Inr False, s) else (Inr True, s\<lparr>current_lock_m := None\<rparr>))"
  by (auto simp: release_lock_def session_guard_def lock_guard_def)

lemma has_lock_free [session_free]:
  "\<not> mutex_m s \<Longrightarrow> has_lock t s = (Inr (current_lock_m s = Some t), s)"
  unfolding has_lock_def by (rule session_guard_read) simp_all

lemma is_locked_free [session_free]:
  "\<not> mutex_m s \<Longrightarrow> is_locked s = (Inr (current_lock_m s \<noteq> None), s)"
  unfolding is_locked_def by (rule session_guard_read) simp_all

lemma num_users_free [session_free]: "\<not> mutex_m s \<Longrightarrow> num_users s = (Inr (length (users_m s)), s)"
  unfolding num_users_def by (rule session_guard_read) simp_all

lemma token_to_username_free [session_free]:
  assumes "\<not> mutex_m s"
  shows "token_to_username t s =
    (Inr (case map_of (sessions_m s) t of Some e \<Rightarrow> sess_username e | None \<Rightarrow> []), s)"
proof -
  have "(case find (\<lambda>(k, e). t = k) xs of Some (k, e) \<Rightarrow> sess_username e | None \<Rightarrow> []) =
      (case map_of xs t of Some e \<Rightarrow> sess_username e | None \<Rightarrow> [])" for xs
    by (induction xs) auto
  then show ?thesis
    unfolding token_to_username_def by (subst session_guard_read [OF assms]) simp_all
qed

text \<open>With the mutex held, none of them returns.\<close>

lemma session_ops_blocked:
  assumes "mutex_m s"
  shows "login d u p s = (Inl Deadlock, s)" "logout t s = (Inl Deadlock, s)"
    "is_valid_token t s = (Inl Deadlock, s)" "touch_session now t s = (Inl Deadlock, s)"
    "acquire_lock t s = (Inl Deadlock, s)" "release_lock t s = (Inl Deadlock, s)"
    "has_lock t s = (Inl Deadlock, s)" "is_locked s = (Inl Deadlock, s)"
    "num_users s = (Inl Deadlock, s)" "token_to_username t s = (Inl Deadlock, s)"
    "load_users us s = (Inl Deadlock, s)" "sweep_expired_sessions now n s = (Inl Deadlock, s)"
  using assms by (simp_all add: session_op_defs session_guard_blocked)

section \<open>Sweeping\<close>

definition expired :: "int \<Rightarrow> int \<Rightarrow> Session \<Rightarrow> bool" where
  "expired now timeout e \<longleftrightarrow> now - last_seen e > nanoseconds timeout"

lemma sweep_loop_quiet:
  "(\<forall>(t, e) \<in> set xs. \<not> expired now n e) \<Longrightarrow> sweep_sessions_loop now n xs s = (Inr (), s)"
  by (induction xs) (auto simp: expired_def cxx_return_def)

lemma sweep_loop_relocks:
  "mutex_m s \<Longrightarrow> (t, e) \<in> set xs \<Longrightarrow> expired now n e \<Longrightarrow>
     sweep_sessions_loop now n xs s = (Inl Deadlock, s)"
proof (induction xs)
  case (Cons x xs)
  obtain k f where x: "x = (k, f)" by (cases x)
  show ?case
  proof (cases "expired now n f")
    case True
    with x Cons.prems(1) show ?thesis
      by (simp add: expired_def cxx_then_def cxx_bind_def session_ops_blocked)
  next
    case False
    with x Cons show ?thesis by (auto simp: expired_def)
  qed
qed simp

lemma sweep_quiet:
  assumes "\<not> mutex_m s" and "\<forall>(t, e) \<in> set (sessions_m s). \<not> expired now n e"
  shows "sweep_expired_sessions now n s = (Inr (), s)"
  using assms sweep_loop_quiet [of "sessions_m s" now n "s\<lparr>mutex_m := True\<rparr>"]
  by (auto simp: sweep_expired_sessions_def session_guard_def lock_guard_def)

lemma sweep_deadlocks:
  assumes "\<not> mutex_m s" and "(t, e) \<in> set (sessions_m s)" and "expired now n e"
  shows "sweep_expired_sessions now n s = (Inl Deadlock, s\<lparr>mutex_m := True\<rparr>)"
  using assms sweep_loop_relocks [of "s\<lparr>mutex_m := True\<rparr>" t e "sessions_m s" now n]
  by (simp add: sweep_expired_sessions_def session_guard_def lock_guard_def)

section \<open>Invariant\<close>

definition tokens :: "SessionManager \<Rightarrow> string set" where
  "tokens s = fst ` set (sessions_m s)"

definition wf_sessions :: "SessionManager \<Rightarrow> bool" where
  "wf_sessions s \<longleftrightarrow>
     distinct (map fst (users_m s)) \<and> distinct (map fst (sessions_m s)) \<and>
     distinct (map (sess_username \<circ> snd) (sessions_m s)) \<and> [] \<notin> tokens s"

definition lock_live :: "SessionManager \<Rightarrow> bool" where
  "lock_live s \<longleftrightarrow> (\<forall>t. current_lock_m s = Some t \<longrightarrow> t \<in> tokens s)"

lemma tokens_iff: "t \<in> tokens s \<longleftrightarrow> map_of (sessions_m s) t \<noteq> None"
  by (simp add: tokens_def map_of_eq_None_iff)

lemma generate_uuid_nonempty [simp]: "generate_uuid d \<noteq> []"
  by (simp add: generate_uuid_def)

text \<open>
  The values of an association list other than the one under a given key stay, at most, after an
  update of that key; so distinctness of user names needs the new name to be new.
\<close>

lemma snd_update_subset: "snd ` set (AList.update k v xs) \<subseteq> insert v (snd ` set xs)"
  by (induction xs) auto

lemma distinct_update_names:
  "distinct (map (f \<circ> snd) xs) \<Longrightarrow> f v \<notin> f ` snd ` set xs \<Longrightarrow>
     distinct (map (f \<circ> snd) (AList.update k v xs))"
proof (induction xs)
  case (Cons x xs)
  have "f (snd x) \<notin> f ` snd ` set (AList.update k v xs)"
    if "fst x \<noteq> k"
    using Cons.prems snd_update_subset [of k v xs] by force
  with Cons show ?case by (cases x) (auto simp: image_image)
qed simp

lemma map_entry_keys: "map fst (AList.map_entry k f xs) = map fst xs"
  by (induction xs) auto

lemma map_entry_names:
  "(\<And>e. g (f e) = g e) \<Longrightarrow> map (g \<circ> snd) (AList.map_entry k f xs) = map (g \<circ> snd) xs"
  by (induction xs) auto

lemma distinct_delete_names:
  "distinct (map (f \<circ> snd) xs) \<Longrightarrow> distinct (map (f \<circ> snd) (AList.delete k xs))"
  by (simp add: AList.delete_eq distinct_map_filter)

lemma no_session_names:
  "find (\<lambda>(t, e). sess_username e = u) xs = None \<Longrightarrow> u \<notin> sess_username ` snd ` set xs"
  by (fastforce simp: find_None_iff)

lemma tokens_update: "fst ` set (AList.update k v xs) = insert k (fst ` set xs)"
  by (simp add: update_conv' flip: dom_map_of_conv_image_fst)

lemma login_wf:
  assumes "wf_sessions s" and "\<not> mutex_m s"
  shows "wf_sessions (snd (login d u p s))"
proof (cases "find (\<lambda>(t, e). sess_username e = u) (sessions_m s)")
  case None
  from no_session_names [OF None] have new: "u \<notin> sess_username ` snd ` set (sessions_m s)" .
  have "distinct (map (sess_username \<circ> snd)
      (AList.update k \<lparr>sess_username = u, last_seen = 0\<rparr> (sessions_m s)))" for k
    using assms(1) new by (intro distinct_update_names) (simp_all add: wf_sessions_def)
  with None assms show ?thesis
    by (simp add: login_free wf_sessions_def tokens_def tokens_update distinct_update
        generate_uuid_nonempty [symmetric])
next
  case (Some x)
  with assms show ?thesis by (simp add: login_free split: prod.split)
qed

lemma touch_wf: "wf_sessions s \<Longrightarrow> \<not> mutex_m s \<Longrightarrow> wf_sessions (snd (touch_session now t s))"
  by (simp add: touch_session_free wf_sessions_def tokens_def map_entry_keys map_entry_names
      flip: set_map)

lemma logout_wf: "wf_sessions s \<Longrightarrow> \<not> mutex_m s \<Longrightarrow> wf_sessions (snd (logout t s))"
  by (auto simp: logout_free wf_sessions_def tokens_def AList.delete_eq distinct_map_filter)

lemma acquire_wf: "wf_sessions s \<Longrightarrow> \<not> mutex_m s \<Longrightarrow> wf_sessions (snd (acquire_lock t s))"
  by (simp add: acquire_lock_free wf_sessions_def tokens_def)

lemma release_wf: "wf_sessions s \<Longrightarrow> \<not> mutex_m s \<Longrightarrow> wf_sessions (snd (release_lock t s))"
  by (simp add: release_lock_free wf_sessions_def tokens_def)

lemma load_users_keys: "distinct (map fst m) \<Longrightarrow>
    distinct (map fst (fold (\<lambda>u m. AList.update (ui_username u) (ui_password u) m) us m))"
  by (induction us arbitrary: m) (simp_all add: distinct_update)

lemma load_users_free [session_free]:
  "\<not> mutex_m s \<Longrightarrow> load_users us s =
     (Inr True,
      s\<lparr>users_m := fold (\<lambda>u m. AList.update (ui_username u) (ui_password u) m) us []\<rparr>)"
  by (simp add: load_users_def session_guard_def lock_guard_def)

lemma load_users_wf: "wf_sessions s \<Longrightarrow> \<not> mutex_m s \<Longrightarrow> wf_sessions (snd (load_users us s))"
  by (simp add: load_users_free wf_sessions_def tokens_def load_users_keys)

lemmas session_ops_wf = load_users_wf login_wf logout_wf touch_wf acquire_wf release_wf

section \<open>Interfaces\<close>

text \<open>
  An exclusive lock with named holders, as a client sees it. \<open>usable\<close> says that calls return.
\<close>

datatype 'k lock_op = Acquire 'k | Release 'k

locale exclusive_lock =
  fixes usable :: "'s \<Rightarrow> bool"
    and holder :: "'s \<Rightarrow> 'k option"
    and acquire :: "'k \<Rightarrow> ('s, bool) cxx"
    and release :: "'k \<Rightarrow> ('s, bool) cxx"
    and has :: "'k \<Rightarrow> ('s, bool) cxx"
  assumes acquire_result:
      "usable s \<Longrightarrow> fst (acquire k s) = Inr (holder s = None)"
    and acquire_holder:
      "usable s \<Longrightarrow> holder (snd (acquire k s)) = (if holder s = None then Some k else holder s)"
    and acquire_usable: "usable s \<Longrightarrow> usable (snd (acquire k s))"
    and release_result: "usable s \<Longrightarrow> fst (release k s) = Inr (holder s = Some k)"
    and release_holder:
      "usable s \<Longrightarrow> holder (snd (release k s)) = (if holder s = Some k then None else holder s)"
    and release_usable: "usable s \<Longrightarrow> usable (snd (release k s))"
    and has_result: "usable s \<Longrightarrow> has k s = (Inr (holder s = Some k), s)"
begin

fun lock_call :: "'k lock_op \<Rightarrow> 's \<Rightarrow> 's" where
  "lock_call (Acquire k) s = snd (acquire k s)"
| "lock_call (Release k) s = snd (release k s)"

lemma lock_call_usable: "usable s \<Longrightarrow> usable (lock_call c s)"
  by (cases c) (simp_all add: acquire_usable release_usable)

lemma lock_call_keeps:
  "usable s \<Longrightarrow> holder s = Some h \<Longrightarrow> c \<noteq> Release h \<Longrightarrow> holder (lock_call c s) = Some h"
  by (cases c) (auto simp: acquire_holder release_holder)

lemma held_until_released:
  "usable s \<Longrightarrow> holder s = Some h \<Longrightarrow> Release h \<notin> set cs \<Longrightarrow>
     usable (fold lock_call cs s) \<and> holder (fold lock_call cs s) = Some h"
proof (induction cs arbitrary: s)
  case (Cons c cs)
  then have "usable (lock_call c s)" and "holder (lock_call c s) = Some h"
    by (auto intro: lock_call_usable lock_call_keeps)
  with Cons show ?case by simp
qed simp

lemma others_refused:
  assumes "usable s" and "holder s = Some h" and "Release h \<notin> set cs"
  shows "fst (acquire k (fold lock_call cs s)) = Inr False"
  using held_until_released [OF assms] by (simp add: acquire_result)

end

text \<open>What the request handler asks of a store of sessions.\<close>

locale session_store =
  fixes usable :: "'s \<Rightarrow> bool"
    and live :: "'s \<Rightarrow> 'k set"
    and valid :: "'k \<Rightarrow> ('s, bool) cxx"
    and touch :: "int \<Rightarrow> 'k \<Rightarrow> ('s, unit) cxx"
  assumes valid_result: "usable s \<Longrightarrow> valid k s = (Inr (k \<in> live s), s)"
    and touch_returns: "usable s \<Longrightarrow> fst (touch now k s) = Inr ()"
    and touch_live: "usable s \<Longrightarrow> live (snd (touch now k s)) = live s"
    and touch_usable: "usable s \<Longrightarrow> usable (snd (touch now k s))"

text \<open>Sessions and a lock on one state: access is granted to a live session that holds the lock.\<close>

locale access_control =
  exclusive_lock usable holder acquire release has + session_store usable live valid touch
  for usable :: "'s \<Rightarrow> bool" and holder :: "'s \<Rightarrow> 'k option" and acquire release has
    and live :: "'s \<Rightarrow> 'k set" and valid touch +
  assumes touch_holder: "usable s \<Longrightarrow> holder (snd (touch now k s)) = holder s"
begin

text \<open>The check the handlers make: valid, refresh the session, then the lock.\<close>

definition check_access :: "int \<Rightarrow> 'k \<Rightarrow> ('s, bool) cxx" where
  "check_access now k =
     cxx_bind (valid k) (\<lambda>v. if v then cxx_then (touch now k) (has k) else cxx_return False)"

lemma check_access_result:
  assumes "usable s"
  shows "fst (check_access now k s) = Inr (k \<in> live s \<and> holder s = Some k)"
proof -
  obtain r t where touch: "touch now k s = (r, t)" by (cases "touch now k s")
  then have "r = Inr ()" and "usable t" and "holder t = holder s"
    using touch_returns [OF assms, of now k] touch_usable [OF assms, of now k]
      touch_holder [OF assms, of now k] by simp_all
  with touch show ?thesis
    by (simp add: check_access_def cxx_defs valid_result [OF assms] has_result)
qed

lemma at_most_one_granted:
  assumes "usable s" and "fst (check_access now j s) = Inr True"
    and "fst (check_access now' k s) = Inr True"
  shows "j = k"
  using assms check_access_result [of s] by auto

end

interpretation ac: access_control "\<lambda>s. \<not> mutex_m s" current_lock_m acquire_lock release_lock
  has_lock tokens is_valid_token touch_session
  by unfold_locales
    (auto simp: session_free tokens_def map_entry_keys map_of_eq_None_iff simp flip: set_map)

section \<open>Abstract specification\<close>

text \<open>
  What a session manager promises, without lists, clocks and mutex: which token belongs to which
  user, and who holds the lock. The calls of the class and their replies are data.
\<close>

datatype session_call =
    CLoad "UserInfo list" | CLogin "nat \<Rightarrow> nat" string string | CLogout string | CValid string
  | CTouch int string | CSweep int int | CAcquire string | CRelease string | CHas string | CLocked
  | CCount | CName string

datatype session_reply = RUnit | RBool bool | RToken "string option" | RCount nat | RName string

definition reply_with :: "('a \<Rightarrow> session_reply) \<Rightarrow> (SessionManager, 'a) cxx \<Rightarrow> (SessionManager, session_reply) cxx"
  where "reply_with f m = cxx_bind m (\<lambda>a. cxx_return (f a))"

fun run_call :: "session_call \<Rightarrow> (SessionManager, session_reply) cxx" where
  "run_call (CLoad us) = reply_with RBool (load_users us)"
| "run_call (CLogin d u p) = reply_with RToken (login d u p)"
| "run_call (CLogout t) = reply_with (\<lambda>_. RUnit) (logout t)"
| "run_call (CValid t) = reply_with RBool (is_valid_token t)"
| "run_call (CTouch now t) = reply_with (\<lambda>_. RUnit) (touch_session now t)"
| "run_call (CSweep now timeout) = reply_with (\<lambda>_. RUnit) (sweep_expired_sessions now timeout)"
| "run_call (CAcquire t) = reply_with RBool (acquire_lock t)"
| "run_call (CRelease t) = reply_with RBool (release_lock t)"
| "run_call (CHas t) = reply_with RBool (has_lock t)"
| "run_call CLocked = reply_with RBool is_locked"
| "run_call CCount = reply_with RCount num_users"
| "run_call (CName t) = reply_with RName (token_to_username t)"

record SessionSpec =
  spec_users :: "string \<Rightarrow> string option"
  spec_sessions :: "string \<Rightarrow> string option"
  spec_lock :: "string option"

definition abs_sessions :: "SessionManager \<Rightarrow> SessionSpec" where
  "abs_sessions s =
     \<lparr>spec_users = map_of (users_m s),
      spec_sessions = (\<lambda>t. map_option sess_username (map_of (sessions_m s) t)),
      spec_lock = current_lock_m s\<rparr>"

text \<open>The last entry of a user list counts.\<close>

definition user_table :: "UserInfo list \<Rightarrow> string \<Rightarrow> string option" where
  "user_table us = map_of (rev (map (\<lambda>u. (ui_username u, ui_password u)) us))"

inductive session_spec :: "SessionSpec \<Rightarrow> session_call \<Rightarrow> session_reply \<Rightarrow> SessionSpec \<Rightarrow> bool" where
  spec_load: "session_spec A (CLoad us) (RBool True) (A\<lparr>spec_users := user_table us\<rparr>)"
| spec_login_again: "spec_sessions A t = Some u \<Longrightarrow>
    session_spec A (CLogin d u p) (RToken (Some t)) A"
| spec_login_new: "u \<notin> ran (spec_sessions A) \<Longrightarrow> spec_users A u = Some p \<Longrightarrow>
    session_spec A (CLogin d u p) (RToken (Some (generate_uuid d)))
      (A\<lparr>spec_sessions := (spec_sessions A)(generate_uuid d \<mapsto> u)\<rparr>)"
| spec_login_refused: "u \<notin> ran (spec_sessions A) \<Longrightarrow> spec_users A u \<noteq> Some p \<Longrightarrow>
    session_spec A (CLogin d u p) (RToken None) A"
| spec_logout: "session_spec A (CLogout t) RUnit (A\<lparr>spec_sessions := (spec_sessions A)(t := None)\<rparr>)"
| spec_valid: "session_spec A (CValid t) (RBool (spec_sessions A t \<noteq> None)) A"
| spec_touch: "session_spec A (CTouch now t) RUnit A"
| spec_sweep: "session_spec A (CSweep now timeout) RUnit A"
| spec_acquire: "spec_lock A = None \<Longrightarrow>
    session_spec A (CAcquire t) (RBool True) (A\<lparr>spec_lock := Some t\<rparr>)"
| spec_acquire_busy: "spec_lock A \<noteq> None \<Longrightarrow> session_spec A (CAcquire t) (RBool False) A"
| spec_release: "spec_lock A = Some t \<Longrightarrow>
    session_spec A (CRelease t) (RBool True) (A\<lparr>spec_lock := None\<rparr>)"
| spec_release_other: "spec_lock A \<noteq> Some t \<Longrightarrow> session_spec A (CRelease t) (RBool False) A"
| spec_has: "session_spec A (CHas t) (RBool (spec_lock A = Some t)) A"
| spec_locked: "session_spec A CLocked (RBool (spec_lock A \<noteq> None)) A"
| spec_count: "session_spec A CCount (RCount (card (dom (spec_users A)))) A"
| spec_name: "session_spec A (CName t)
    (RName (case spec_sessions A t of Some u \<Rightarrow> u | None \<Rightarrow> [])) A"

inductive_cases session_spec_acquireE: "session_spec A (CAcquire t) r B"

lemma map_of_map_entry: "map_of (AList.map_entry k f xs) t =
    (if t = k then map_option f (map_of xs t) else map_of xs t)"
  by (induction xs) auto

lemma fold_update_user_table:
  "map_of (fold (\<lambda>u m. AList.update (ui_username u) (ui_password u) m) us m) =
     map_of m ++ user_table us"
proof (induction us arbitrary: m)
  case (Cons u us)
  show ?case by (simp add: Cons.IH update_conv' user_table_def map_add_def fun_eq_iff
        split: option.split)
qed (simp add: user_table_def)

lemma find_session_Some:
  assumes "find (\<lambda>(t, e). sess_username e = u) xs = Some (t, e)" and "distinct (map fst xs)"
  shows "map_of xs t = Some e \<and> sess_username e = u"
proof -
  from assms(1) have "(t, e) \<in> set xs" and "sess_username e = u"
    by (auto simp: find_Some_iff) (metis nth_mem)
  with assms(2) show ?thesis by simp
qed

lemma no_session_ran:
  "u \<notin> sess_username ` snd ` set xs \<Longrightarrow> u \<notin> ran (\<lambda>t. map_option sess_username (map_of xs t))"
  by (force simp: ran_def dest: map_of_SomeD)

lemma login_refines:
  assumes "wf_sessions s" and "\<not> mutex_m s"
  shows "\<exists>r s'. login d u p s = (Inr r, s') \<and> \<not> mutex_m s' \<and> wf_sessions s' \<and>
    session_spec (abs_sessions s) (CLogin d u p) (RToken r) (abs_sessions s')"
proof (cases "find (\<lambda>(t, e). sess_username e = u) (sessions_m s)")
  case None
  note new = no_session_ran [OF no_session_names [OF None]]
  show ?thesis
  proof (cases "map_of (users_m s) u = Some p")
    case True
    have "abs_sessions (snd (login d u p s)) = (abs_sessions s)\<lparr>spec_sessions :=
        (spec_sessions (abs_sessions s))(generate_uuid d \<mapsto> u)\<rparr>"
      using None True assms(2) by (simp add: login_free abs_sessions_def update_conv' fun_eq_iff)
    then show ?thesis
      using None True assms login_wf [OF assms, of d u p] new
        spec_login_new [of u "abs_sessions s" p d]
      by (simp add: login_free abs_sessions_def)
  next
    case False
    then show ?thesis
      using None assms new by (auto simp: login_free abs_sessions_def intro: spec_login_refused)
  qed
next
  case (Some x)
  then obtain t e where x: "x = (t, e)" by (cases x)
  with Some assms have "map_of (sessions_m s) t = Some e \<and> sess_username e = u"
    by (intro find_session_Some) (simp_all add: wf_sessions_def)
  with Some x assms show ?thesis
    by (auto simp: login_free abs_sessions_def intro!: spec_login_again)
qed

lemma logout_refines:
  "\<not> mutex_m s \<Longrightarrow> abs_sessions (snd (logout t s)) =
     (abs_sessions s)\<lparr>spec_sessions := (spec_sessions (abs_sessions s))(t := None)\<rparr>"
  by (simp add: logout_free abs_sessions_def AList.delete_conv' fun_eq_iff)

lemma touch_refines: "\<not> mutex_m s \<Longrightarrow> abs_sessions (snd (touch_session now t s)) = abs_sessions s"
  by (auto simp: touch_session_free abs_sessions_def map_of_map_entry fun_eq_iff
      option.map_comp comp_def)

lemma load_refines:
  "\<not> mutex_m s \<Longrightarrow> abs_sessions (snd (load_users us s)) = (abs_sessions s)\<lparr>spec_users := user_table us\<rparr>"
  by (simp add: load_users_free abs_sessions_def fold_update_user_table)

inductive session_step :: "SessionManager \<Rightarrow> SessionManager \<Rightarrow> bool" where
  call_returns: "run_call c s = (Inr r, s') \<Longrightarrow> session_step s s'"

text \<open>A sweep at a time when one of the sessions has expired.\<close>

fun finds_expired :: "session_call \<Rightarrow> SessionManager \<Rightarrow> bool" where
  "finds_expired (CSweep now timeout) s = (\<exists>(t, e) \<in> set (sessions_m s). expired now timeout e)"
| "finds_expired c s = False"

lemma sweep_finds:
  assumes "\<not> mutex_m s" and "finds_expired c s"
  shows "run_call c s = (Inl Deadlock, s\<lparr>mutex_m := True\<rparr>)"
proof -
  from assms(2) obtain now n t e where "c = CSweep now n" "(t, e) \<in> set (sessions_m s)" "expired now n e"
    by (cases c) auto
  with sweep_deadlocks [OF assms(1)] show ?thesis by (simp add: reply_with_def cxx_bind_def)
qed

lemma run_call_refines:
  assumes "wf_sessions s" and "\<not> mutex_m s" and "\<not> finds_expired c s"
  shows "\<exists>r s'. run_call c s = (Inr r, s') \<and> \<not> mutex_m s' \<and> wf_sessions s' \<and>
    session_spec (abs_sessions s) c r (abs_sessions s')"
proof (cases c)
  case (CLoad us)
  with assms load_users_wf [OF assms(1,2), of us] load_refines [OF assms(2), of us]
    spec_load [of "abs_sessions s" us]
  show ?thesis by (simp add: reply_with_def cxx_defs load_users_free)
next
  case (CLogin d u p)
  from login_refines [OF assms(1,2), of d u p] CLogin show ?thesis
    by (force simp: reply_with_def cxx_defs)
next
  case (CLogout t)
  with assms logout_wf [OF assms(1,2), of t] logout_refines [OF assms(2), of t]
    spec_logout [of "abs_sessions s" t]
  show ?thesis by (simp add: reply_with_def cxx_defs logout_free)
next
  case (CTouch now t)
  with assms touch_wf [OF assms(1,2), of now t] touch_refines [OF assms(2), of now t]
    spec_touch [of "abs_sessions s" now t]
  show ?thesis by (simp add: reply_with_def cxx_defs touch_session_free)
next
  case (CSweep now n)
  then have "\<forall>(t, e) \<in> set (sessions_m s). \<not> expired now n e" using assms(3) by auto
  from sweep_quiet [OF assms(2) this] assms(1,2) CSweep spec_sweep [of "abs_sessions s" now n] show ?thesis
    by (simp add: reply_with_def cxx_defs)
next
  case CCount
  have "length (users_m s) = card (dom (spec_users (abs_sessions s)))"
    using assms(1) distinct_card [of "map fst (users_m s)"]
    by (simp add: wf_sessions_def abs_sessions_def dom_map_of_conv_image_fst)
  with assms CCount spec_count [of "abs_sessions s"] show ?thesis
    by (simp add: reply_with_def cxx_defs num_users_free)
next
  case (CValid t)
  with assms spec_valid [of "abs_sessions s" t] show ?thesis
    by (simp add: reply_with_def cxx_defs is_valid_token_free abs_sessions_def)
next
  case (CAcquire t)
  with assms acquire_wf [OF assms(1,2), of t] spec_acquire [of "abs_sessions s" t]
    spec_acquire_busy [of "abs_sessions s" t]
  show ?thesis by (auto simp: reply_with_def cxx_defs acquire_lock_free abs_sessions_def)
next
  case (CRelease t)
  with assms release_wf [OF assms(1,2), of t] spec_release [of "abs_sessions s" t]
    spec_release_other [of "abs_sessions s" t]
  show ?thesis by (auto simp: reply_with_def cxx_defs release_lock_free abs_sessions_def)
next
  case (CHas t)
  with assms spec_has [of "abs_sessions s" t] show ?thesis
    by (simp add: reply_with_def cxx_defs has_lock_free abs_sessions_def)
next
  case CLocked
  with assms spec_locked [of "abs_sessions s"] show ?thesis
    by (simp add: reply_with_def cxx_defs is_locked_free abs_sessions_def)
next
  case (CName t)
  with assms spec_name [of "abs_sessions s" t] show ?thesis
    by (cases "map_of (sessions_m s) t")
      (simp_all add: reply_with_def cxx_defs token_to_username_free abs_sessions_def)
qed

lemma wf_SessionManager_default: "wf_sessions SessionManager_default \<and> \<not> mutex_m SessionManager_default"
  by (simp add: SessionManager_default_def wf_sessions_def tokens_def)

interpretation sess: invariant_of "\<lambda>s. s = SessionManager_default" session_step
  "\<lambda>s. wf_sessions s \<and> \<not> mutex_m s"
proof unfold_locales
  fix s t assume "session_step s t" and "wf_sessions s \<and> \<not> mutex_m s"
  then obtain c r where c: "run_call c s = (Inr r, t)" and wf: "wf_sessions s" "\<not> mutex_m s"
    by (auto elim: session_step.cases)
  have "\<not> finds_expired c s" using sweep_finds [OF wf(2), of c] c by auto
  from run_call_refines [OF wf this] c show "wf_sessions t \<and> \<not> mutex_m t" by auto
qed (simp add: wf_SessionManager_default)

lemma run_call_blocked: "mutex_m s \<Longrightarrow> run_call c s = (Inl Deadlock, s)"
  by (cases c) (simp_all add: reply_with_def cxx_bind_def session_ops_blocked)

section \<open>Tokens\<close>

lemma length_hex_draws [simp]: "length (hex_draws d i n) = n"
  by (simp add: hex_draws_def)

lemma hex_draws_chars:
  "uuid_draws d \<Longrightarrow> i + n \<le> 31 \<Longrightarrow> set (hex_draws d i n) \<subseteq> set hex_chars"
proof
  fix x assume d: "uuid_draws d" "i + n \<le> 31" and "x \<in> set (hex_draws d i n)"
  then obtain k where "k \<in> {i..<i + n}" and x: "x = hex_chars ! d k" by (auto simp: hex_draws_def)
  with d(2) have "k < 31" by simp
  with d(1) have "d k \<le> 15" by (simp add: uuid_draws_def)
  with x show "x \<in> set hex_chars" by (simp add: nth_mem)
qed

section \<open>Properties\<close>

text \<open>
  C12. Refinement: on a well-formed manager whose mutex is free, every public call of the class but
  one returns normally, leaves the mutex free and the manager well formed, and is a step of the
  abstract specification (users, live sessions by token, lock holder) with the same reply. The
  exception is a sweep that finds an expired session: it never returns, and leaves the mutex locked.
\<close>

theorem session_manager_refines:
  assumes "wf_sessions s" and "\<not> mutex_m s"
  shows "if finds_expired c s then run_call c s = (Inl Deadlock, s\<lparr>mutex_m := True\<rparr>)
    else \<exists>r s'. run_call c s = (Inr r, s') \<and> \<not> mutex_m s' \<and> wf_sessions s' \<and>
      session_spec (abs_sessions s) c r (abs_sessions s')"
  using run_call_refines [OF assms] sweep_finds [OF assms(2)] by simp

definition demo_manager :: SessionManager where
  "demo_manager =
     \<lparr>users_m = [(''ana'', ''pw1''), (''bob'', ''pw2'')],
      sessions_m = [(''t1'', \<lparr>sess_username = ''ana'', last_seen = 0\<rparr>)],
      current_lock_m = Some ''t1'', mutex_m = False\<rparr>"

lemma demo_manager_wf: "wf_sessions demo_manager" "\<not> mutex_m demo_manager"
  by (simp_all add: demo_manager_def wf_sessions_def tokens_def)

theorem session_manager_refines_witness:
  "\<exists>r s'. run_call (CAcquire ''t2'') demo_manager = (Inr r, s') \<and> \<not> mutex_m s' \<and> wf_sessions s' \<and>
    session_spec (abs_sessions demo_manager) (CAcquire ''t2'') r (abs_sessions s') \<and>
    fst (run_call (CSweep 100000000000 60) demo_manager) = Inl Deadlock"
  using session_manager_refines [OF demo_manager_wf, of "CAcquire ''t2''"]
    session_manager_refines [OF demo_manager_wf, of "CSweep 100000000000 60"]
  by (simp add: demo_manager_def expired_def nanoseconds_def)

text \<open>
  Every state reached from a fresh manager by calls that return keeps tokens and user names
  of the sessions unique, no session under the empty token, and the mutex free.
\<close>

lemma session_reachable_wf:
  assumes "reach (\<lambda>s. s = SessionManager_default) session_step s"
  shows "distinct (map fst (sessions_m s)) \<and> distinct (map (sess_username \<circ> snd) (sessions_m s)) \<and>
    map_of (sessions_m s) [] = None \<and> \<not> mutex_m s"
  using sess.reach_inv [OF assms] by (auto simp: wf_sessions_def tokens_def map_of_eq_None_iff)

text \<open>
  Exclusion: once a token holds the hardware lock, no sequence of acquire and release calls
  without a release by that token takes the lock away, and every acquire after it is refused.
\<close>

lemma lock_exclusive:
  assumes "\<not> mutex_m s" and "current_lock_m s = Some h" and "Release h \<notin> set cs"
    and "s' = fold (\<lambda>c s. case c of Acquire k \<Rightarrow> snd (acquire_lock k s)
                                  | Release k \<Rightarrow> snd (release_lock k s)) cs s"
  shows "current_lock_m s' = Some h \<and> fst (acquire_lock k s') = Inr False"
proof -
  have "ac.lock_call = (\<lambda>c s. case c of Acquire k \<Rightarrow> snd (acquire_lock k s)
                                  | Release k \<Rightarrow> snd (release_lock k s))"
    by (intro ext) (simp split: lock_op.split)
  then show ?thesis
    using ac.held_until_released [OF assms(1-3)] ac.others_refused [OF assms(1-3)] assms(4)
    by simp
qed

lemma lock_exclusive_witness:
  "fst (acquire_lock ''t2'' (snd (release_lock ''t2'' (snd (acquire_lock ''t3'' demo_manager))))) = Inr False"
  using lock_exclusive [of demo_manager "''t1''" "[Acquire ''t3'', Release ''t2'']" _ "''t2''"]
  by (simp add: demo_manager_def)

text \<open>
  A sweep that finds an expired session blocks on the mutex it already holds, and leaves it
  locked: from then on no call of the manager returns. A sweep that finds none changes nothing.
\<close>

lemma sweep_self_deadlock:
  assumes "\<not> mutex_m s"
  shows "(\<forall>(t, e) \<in> set (sessions_m s). \<not> expired now timeout e) \<and>
      sweep_expired_sessions now timeout s = (Inr (), s)
    \<or> (\<exists>(t, e) \<in> set (sessions_m s). expired now timeout e) \<and>
      sweep_expired_sessions now timeout s = (Inl Deadlock, s\<lparr>mutex_m := True\<rparr>) \<and>
      (\<forall>c. run_call c (s\<lparr>mutex_m := True\<rparr>) = (Inl Deadlock, s\<lparr>mutex_m := True\<rparr>))"
proof (cases "\<exists>(t, e) \<in> set (sessions_m s). expired now timeout e")
  case True
  then show ?thesis using sweep_deadlocks [OF assms] by (auto simp: run_call_blocked)
next
  case False
  then have "\<forall>(t, e) \<in> set (sessions_m s). \<not> expired now timeout e" by auto
  with sweep_quiet [OF assms this] show ?thesis by blast
qed

lemma sweep_self_deadlock_witness:
  "sweep_expired_sessions 100000000000 60 demo_manager = (Inl Deadlock, demo_manager\<lparr>mutex_m := True\<rparr>)"
  using sweep_self_deadlock [of demo_manager 100000000000 60]
  by (simp add: demo_manager_def expired_def nanoseconds_def)

text \<open>
  A session that a login has just created carries the clock's epoch as its last activity, so
  the first sweep more than \<open>timeout\<close> seconds after the epoch finds it expired, however recent
  the login is.
\<close>

lemma fresh_session_expired:
  assumes "\<not> mutex_m s" and "u \<notin> sess_username ` snd ` set (sessions_m s)"
    and "map_of (users_m s) u = Some p" and "nanoseconds timeout < now"
  shows "\<exists>t e s'. login d u p s = (Inr (Some t), s') \<and> map_of (sessions_m s') t = Some e \<and>
    sess_username e = u \<and> expired now timeout e \<and>
    fst (sweep_expired_sessions now timeout s') = Inl Deadlock"
proof -
  have none: "find (\<lambda>(t, e). sess_username e = u) (sessions_m s) = None"
    using assms(2) by (force simp: find_None_iff)
  define e where "e = \<lparr>sess_username = u, last_seen = 0\<rparr>"
  define s' where "s' = s\<lparr>sessions_m := AList.update (generate_uuid d) e (sessions_m s)\<rparr>"
  have "login d u p s = (Inr (Some (generate_uuid d)), s')"
    using none assms by (simp add: login_free s'_def e_def)
  moreover have found: "map_of (sessions_m s') (generate_uuid d) = Some e"
    by (simp add: s'_def update_conv')
  moreover have exp: "expired now timeout e"
    using assms(4) by (simp add: expired_def e_def)
  moreover have "fst (sweep_expired_sessions now timeout s') = Inl Deadlock"
    using sweep_deadlocks [OF _ map_of_SomeD [OF found] exp] assms(1) by (simp add: s'_def)
  ultimately show ?thesis by (auto simp: e_def)
qed

lemma fresh_session_expired_witness:
  "\<exists>t e s'. login (\<lambda>_. 8) ''bob'' ''pw2'' demo_manager = (Inr (Some t), s') \<and>
    map_of (sessions_m s') t = Some e \<and> sess_username e = ''bob'' \<and> expired 61000000000 60 e \<and>
    fst (sweep_expired_sessions 61000000000 60 s') = Inl Deadlock"
  by (rule fresh_session_expired)
    (simp_all add: demo_manager_def nanoseconds_def)

text \<open>
  C39. Logging in: while a user has a session, a login under the name returns that session's token
  whatever the password; without one, it succeeds exactly for the stored password.
\<close>

theorem login_decision:
  assumes "wf_sessions s" and "\<not> mutex_m s"
  shows "(map_of (sessions_m s) t = Some e \<and> sess_username e = u \<longrightarrow>
      login d u p s = (Inr (Some t), s)) \<and>
    ((\<forall>(t, e) \<in> set (sessions_m s). sess_username e \<noteq> u) \<longrightarrow>
      fst (login d u p s) =
        Inr (if map_of (users_m s) u = Some p then Some (generate_uuid d) else None))"
proof (intro conjI impI)
  assume te: "map_of (sessions_m s) t = Some e \<and> sess_username e = u"
  have "find (\<lambda>(t, e). sess_username e = u) (sessions_m s) \<noteq> None"
  proof
    assume "find (\<lambda>(t, e). sess_username e = u) (sessions_m s) = None"
    then have "u \<notin> sess_username ` snd ` set (sessions_m s)" by (rule no_session_names)
    moreover have "e \<in> snd ` set (sessions_m s)" using te by (force dest: map_of_SomeD)
    ultimately show False using te by blast
  qed
  then obtain k f where f: "find (\<lambda>(t, e). sess_username e = u) (sessions_m s) = Some (k, f)"
    by auto
  with assms(1) have "map_of (sessions_m s) k = Some f \<and> sess_username f = u"
    by (intro find_session_Some) (simp_all add: wf_sessions_def)
  with te have "(k, f) \<in> set (sessions_m s)" "(t, e) \<in> set (sessions_m s)"
    and "(sess_username \<circ> snd) (k, f) = (sess_username \<circ> snd) (t, e)"
    by (auto dest: map_of_SomeD)
  moreover have "inj_on (sess_username \<circ> snd) (set (sessions_m s))"
    using assms(1) by (simp add: wf_sessions_def distinct_map)
  ultimately have "(k, f) = (t, e)" by (blast dest: inj_onD)
  with f assms(2) show "login d u p s = (Inr (Some t), s)" by (simp add: login_free)
next
  assume "\<forall>(t, e) \<in> set (sessions_m s). sess_username e \<noteq> u"
  then have "find (\<lambda>(t, e). sess_username e = u) (sessions_m s) = None"
    by (force simp: find_None_iff)
  with assms(2) show "fst (login d u p s) =
      Inr (if map_of (users_m s) u = Some p then Some (generate_uuid d) else None)"
    by (simp add: login_free)
qed

theorem login_decision_witness:
  "fst (login (\<lambda>_. 8) ''bob'' ''wrong'' demo_manager) = Inr None \<and>
   login (\<lambda>_. 8) ''ana'' ''wrong'' demo_manager = (Inr (Some ''t1''), demo_manager)"
  using login_decision [OF demo_manager_wf, of "''t1''" "\<lparr>sess_username = ''ana'', last_seen = 0\<rparr>"
      "''ana''" "\<lambda>_. 8" "''wrong''"]
    login_decision [OF demo_manager_wf, of "''t1''" "\<lparr>sess_username = ''ana'', last_seen = 0\<rparr>"
      "''bob''" "\<lambda>_. 8" "''wrong''"]
  by (simp add: demo_manager_def)

text \<open>
  A generated token has the form of a version 4 UUID: 36 characters, dashes at 8, 13, 18 and
  23, the version digit 4 at 14, a variant digit 8, 9, a or b at 19, and hexadecimal digits
  elsewhere.
\<close>

lemma uuid_format:
  assumes "uuid_draws d"
  shows "length (generate_uuid d) = 36 \<and>
    (\<forall>i \<in> {8, 13, 18, 23}. generate_uuid d ! i = CHR ''-'') \<and> generate_uuid d ! 14 = CHR ''4'' \<and>
    generate_uuid d ! 19 \<in> set ''89ab'' \<and>
    (\<forall>i < 36. i \<notin> {8, 13, 18, 23} \<longrightarrow> generate_uuid d ! i \<in> set hex_chars)"
proof -
  have v: "d 15 \<in> {8, 9, 10, 11}" using assms by (auto simp: uuid_draws_def)
  then have v': "hex_chars ! d 15 \<in> set ''89ab''" by (auto simp: hex_chars_def)
  have digit: "hex_chars ! d k \<in> set hex_chars" if "k < 31" for k
  proof -
    from assms that have "d k \<le> 15" by (simp add: uuid_draws_def)
    then show ?thesis by (simp add: nth_mem)
  qed
  have four: "CHR ''4'' \<in> set hex_chars" by (simp add: hex_chars_def)
  have split: "generate_uuid d ! i \<in> set hex_chars" if "i < 36" "i \<notin> {8, 13, 18, 23}" for i
    using that four by (auto simp: generate_uuid_def nth_append nth_Cons hex_draws_def
        intro!: digit split: nat.split)
  show ?thesis using v' split by (simp add: generate_uuid_def nth_append)
qed

lemma uuid_format_witness:
  "length (generate_uuid (\<lambda>_. 10)) = 36 \<and> generate_uuid (\<lambda>_. 10) ! 14 = CHR ''4''"
  using uuid_format [of "\<lambda>_. 10"] by (simp add: uuid_draws_def)

end
