(* ===== verification/Format.thy ===== *)
theory Format
  imports Complex_Main Prelude
begin

text \<open>
  Decimal output of floating point numbers, as the standard streams of the code do it: the fixed
  notation of \<^verbatim>\<open>std::fixed\<close> with a precision (\<^verbatim>\<open>format_double\<close> of
  \<^verbatim>\<open>src/utils.cpp\<close>), and the default notation of \<^verbatim>\<open>operator<<\<close>
  with its six significant digits, which the printers of \<^verbatim>\<open>src/core/data.cpp\<close> use. A finite
  number is an exact fraction, rounded to the nearest decimal (ties to the even one).
\<close>

section \<open>Numbers\<close>

type_synonym float64 = "64 word"

definition f64_exp :: "float64 \<Rightarrow> nat" where
  "f64_exp d = unat (drop_bit 52 d) mod 2048"

definition f64_sig :: "float64 \<Rightarrow> nat" where
  "f64_sig d = (if f64_exp d = 0 then unat d mod 2 ^ 52 else unat d mod 2 ^ 52 + 2 ^ 52)"

definition f64_negative :: "float64 \<Rightarrow> bool" where
  "f64_negative d \<longleftrightarrow> 2 ^ 63 \<le> unat d"

text \<open>\<open>sig * 2 ^ (e - bias)\<close> as numerator and denominator.\<close>

definition binary_fraction :: "nat \<Rightarrow> nat \<Rightarrow> nat \<Rightarrow> nat \<times> nat" where
  "binary_fraction sig e bias =
     (if bias \<le> e then (sig * 2 ^ (e - bias), 1) else (sig, 2 ^ (bias - e)))"

definition f64_fraction :: "float64 \<Rightarrow> nat \<times> nat" where
  "f64_fraction d = binary_fraction (f64_sig d) (max 1 (f64_exp d)) 1075"

definition f32_fraction :: "float32 \<Rightarrow> nat \<times> nat" where
  "f32_fraction f = binary_fraction (f32_sig f) (max 1 (f32_exp f)) 150"

definition round_half_even :: "nat \<Rightarrow> nat \<Rightarrow> nat" where
  "round_half_even num den =
     (let q = num div den; r = num mod den in
      if 2 * r < den \<or> 2 * r = den \<and> even q then q else q + 1)"

section \<open>Notations\<close>

definition signed_text :: "bool \<Rightarrow> string \<Rightarrow> string" where
  "signed_text negative s = (if negative then CHR ''-'' # s else s)"

definition zero_pad :: "nat \<Rightarrow> string \<Rightarrow> string" where
  "zero_pad n s = replicate (n - length s) CHR ''0'' @ s"

definition fixed_notation :: "nat \<Rightarrow> nat \<Rightarrow> nat \<Rightarrow> string" where
  "fixed_notation num den p =
     (let n = round_half_even (num * 10 ^ p) den in
      dec_nat (n div 10 ^ p) @ (if p = 0 then [] else CHR ''.'' # zero_pad p (dec_nat (n mod 10 ^ p))))"

text \<open>A negative precision counts as not given, which means 6.\<close>

definition format_double :: "float64 \<Rightarrow> int \<Rightarrow> string" where
  "format_double value precision =
     signed_text (f64_negative value)
       (if f64_exp value = 2047 then (if unat value mod 2 ^ 52 = 0 then ''inf'' else ''nan'')
        else (case f64_fraction value of (num, den) \<Rightarrow>
                fixed_notation num den (if precision < 0 then 6 else nat precision)))"

text \<open>How often a fraction below 1 is multiplied by 10 until it is at least 1.\<close>

function scale_up :: "nat \<Rightarrow> nat \<Rightarrow> nat" where
  "scale_up num den = (if num = 0 \<or> den \<le> num then 0 else Suc (scale_up (10 * num) den))"
  by auto

termination
  by (relation "measure (\<lambda>(num, den). den - num)") auto

declare scale_up.simps [simp del]

definition decimal_exponent :: "nat \<Rightarrow> nat \<Rightarrow> int" where
  "decimal_exponent num den =
     (if den \<le> num then int (length (dec_nat (num div den))) - 1 else - int (scale_up num den))"

definition scaled_round :: "nat \<Rightarrow> nat \<Rightarrow> int \<Rightarrow> nat" where
  "scaled_round num den k =
     (if 0 \<le> k then round_half_even (num * 10 ^ nat k) den
      else round_half_even num (den * 10 ^ nat (- k)))"

text \<open>Trailing zeros of the fraction, and a bare decimal point, are not printed.\<close>

definition with_fraction :: "string \<Rightarrow> string \<Rightarrow> string" where
  "with_fraction whole decimals =
     (let f = rev (dropWhile (\<lambda>c. c = CHR ''0'') (rev decimals)) in
      if f = [] then whole else whole @ CHR ''.'' # f)"

text \<open>Six digits \<open>d\<close> and the decimal exponent \<open>x\<close> of the first one.\<close>

definition layout_general :: "nat \<Rightarrow> int \<Rightarrow> string" where
  "layout_general d x =
     (let digits = dec_nat d in
      if 0 \<le> x \<and> x < 6 then with_fraction (take (nat x + 1) digits) (drop (nat x + 1) digits)
      else if - 4 \<le> x \<and> x < 0 then with_fraction ''0'' (replicate (nat (- x - 1)) CHR ''0'' @ digits)
      else with_fraction (take 1 digits) (drop 1 digits) @
           (if x < 0 then ''e-'' else ''e+'') @ zero_pad 2 (dec_nat (nat \<bar>x\<bar>)))"

definition general_notation :: "nat \<Rightarrow> nat \<Rightarrow> string" where
  "general_notation num den =
     (if num = 0 then ''0''
      else
        let x = decimal_exponent num den; d = scaled_round num den (5 - x) in
        if d = 10 ^ 6 then layout_general (10 ^ 5) (x + 1) else layout_general d x)"

definition show_float :: "float32 \<Rightarrow> string" where
  "show_float f =
     signed_text (f32_negative f)
       (if f32_exp f = 255 then (if unat f mod 2 ^ 23 = 0 then ''inf'' else ''nan'')
        else (case f32_fraction f of (num, den) \<Rightarrow> general_notation num den))"

section \<open>Reading decimal digits\<close>

definition is_digit :: "char \<Rightarrow> bool" where
  "is_digit c \<longleftrightarrow> 48 \<le> (of_char c :: nat) \<and> of_char c \<le> (57 :: nat)"

definition nat_of_dec :: "string \<Rightarrow> nat" where
  "nat_of_dec s = foldl (\<lambda>n c. 10 * n + (of_char c - 48)) 0 s"

lemma digit_char: "n < 10 \<Longrightarrow> of_char (char_of (48 + n) :: char) = (48 + n :: nat)"
  by (simp add: of_char_of)

lemma foldl_dec:
  "foldl (\<lambda>n c. 10 * n + (of_char c - 48)) a s = a * 10 ^ length s + nat_of_dec s"
proof (induction s arbitrary: a)
  case (Cons c s)
  have "nat_of_dec (c # s) = (of_char c - 48) * 10 ^ length s + nat_of_dec s"
    using Cons.IH [of "of_char c - 48"] by (simp add: nat_of_dec_def)
  with Cons.IH [of "10 * a + (of_char c - 48)"] show ?case by (simp add: algebra_simps)
qed (simp add: nat_of_dec_def)

lemma nat_of_dec_append: "nat_of_dec (s @ t) = nat_of_dec s * 10 ^ length t + nat_of_dec t"
  using foldl_dec [of "nat_of_dec s" t] by (simp add: nat_of_dec_def)

lemma nat_of_dec_zeros: "nat_of_dec (replicate n CHR ''0'') = 0"
  by (induction n) (simp_all add: nat_of_dec_def)

lemma nat_of_dec_char: "n < 10 \<Longrightarrow> nat_of_dec [char_of (48 + n)] = n"
  using digit_char [of n] by (simp add: nat_of_dec_def)

lemma nat_of_dec_nat: "nat_of_dec (dec_nat n) = n"
proof (induction n rule: dec_nat.induct)
  case (1 n)
  show ?case
  proof (cases "n < 10")
    case True
    then show ?thesis by (simp add: dec_nat.simps [of n] nat_of_dec_char)
  next
    case False
    with 1 show ?thesis
      by (simp add: dec_nat.simps [of n] nat_of_dec_append nat_of_dec_char)
  qed
qed

lemma dec_nat_digits: "\<forall>c \<in> set (dec_nat n). is_digit c"
proof (induction n rule: dec_nat.induct)
  case (1 n)
  have "is_digit (char_of (48 + k))" if "k < 10" for k :: nat
    using digit_char [OF that] that by (simp add: is_digit_def)
  with 1 show ?case by (subst dec_nat.simps) auto
qed

lemma dec_nat_nonempty: "dec_nat n \<noteq> []"
  by (subst dec_nat.simps) simp

lemma length_dec_nat: "n < 10 ^ k \<Longrightarrow> 0 < k \<Longrightarrow> length (dec_nat n) \<le> k"
proof (induction n arbitrary: k rule: dec_nat.induct)
  case (1 n)
  show ?case
  proof (cases "n < 10")
    case True
    with "1.prems" show ?thesis by (simp add: dec_nat.simps [of n])
  next
    case False
    obtain j where j: "k = Suc j" "0 < j"
    proof (cases k)
      case (Suc j)
      with False "1.prems"(1) have "0 < j" by (cases j) simp_all
      with Suc that show ?thesis by blast
    qed (use "1.prems" in simp)
    with "1.prems" have "n div 10 < 10 ^ j" by (simp add: less_mult_imp_div_less mult.commute)
    with "1.IH" [OF False _ j(2)] j(1) False show ?thesis by (simp add: dec_nat.simps [of n])
  qed
qed

lemma zero_pad_digits:
  assumes "n < 10 ^ k" and "0 < k"
  shows "length (zero_pad k (dec_nat n)) = k \<and> nat_of_dec (zero_pad k (dec_nat n)) = n \<and>
    (\<forall>c \<in> set (zero_pad k (dec_nat n)). is_digit c)"
  using length_dec_nat [OF assms] dec_nat_digits [of n]
  by (auto simp: zero_pad_def nat_of_dec_append nat_of_dec_zeros nat_of_dec_nat is_digit_def)

section \<open>Rounding\<close>

lemma round_half_even_error:
  assumes "0 < den"
  shows "\<bar>2 * (int (round_half_even num den) * int den - int num)\<bar> \<le> int den"
proof -
  let ?q = "num div den" and ?r = "num mod den"
  have num: "int num = int ?q * int den + int ?r"
    by (metis div_mult_mod_eq of_nat_add of_nat_mult)
  have "?r < den" using assms by simp
  then have r: "int ?r < int den" by simp
  show ?thesis
  proof (cases "2 * ?r < den \<or> 2 * ?r = den \<and> even ?q")
    case True
    then have "round_half_even num den = ?q" "2 * int ?r \<le> int den"
      by (auto simp: round_half_even_def Let_def)
    then show ?thesis by (simp add: num)
  next
    case False
    then have "round_half_even num den = ?q + 1" "int den \<le> 2 * int ?r"
      by (auto simp: round_half_even_def Let_def)
    with r show ?thesis by (simp add: num algebra_simps)
  qed
qed

lemma round_half_even_real:
  assumes "0 < den"
  shows "\<bar>real (round_half_even num den) - real num / real den\<bar> \<le> 1 / 2"
proof -
  have "real_of_int \<bar>2 * (int (round_half_even num den) * int den - int num)\<bar> \<le> real_of_int (int den)"
    using round_half_even_error [OF assms, of num] by (simp only: of_int_le_iff)
  then have "\<bar>2 * (real (round_half_even num den) * real den - real num)\<bar> \<le> real den" by simp
  moreover have "real (round_half_even num den) * real den - real num =
      (real (round_half_even num den) - real num / real den) * real den"
    using assms by (simp add: field_simps)
  ultimately show ?thesis using assms by (simp add: abs_mult)
qed

lemma binary_fraction_den: "0 < snd (binary_fraction sig e bias)"
  by (simp add: binary_fraction_def)

lemma fixed_notation_rounds:
  assumes "0 < den"
  shows "\<exists>whole decimals. fixed_notation num den p =
      whole @ (if p = 0 then [] else CHR ''.'' # decimals) \<and>
    length decimals = p \<and> whole \<noteq> [] \<and> (\<forall>c \<in> set (whole @ decimals). is_digit c) \<and>
    nat_of_dec (whole @ decimals) = round_half_even (num * 10 ^ p) den"
proof -
  define n where "n = round_half_even (num * 10 ^ p) den"
  show ?thesis
  proof (cases "p = 0")
    case True
    then have "fixed_notation num den p = dec_nat n"
      by (simp add: fixed_notation_def n_def Let_def)
    moreover have "nat_of_dec (dec_nat n @ []) = n" by (simp add: nat_of_dec_nat)
    ultimately show ?thesis
      using True dec_nat_digits [of n] dec_nat_nonempty [of n] by (auto simp: n_def)
  next
    case False
    let ?w = "dec_nat (n div 10 ^ p)" and ?d = "zero_pad p (dec_nat (n mod 10 ^ p))"
    have d: "length ?d = p" "nat_of_dec ?d = n mod 10 ^ p" "\<forall>c \<in> set ?d. is_digit c"
      using zero_pad_digits [of "n mod 10 ^ p" p] False by simp_all
    have "nat_of_dec (?w @ ?d) = n"
      by (simp only: nat_of_dec_append d(1,2) nat_of_dec_nat div_mult_mod_eq)
    moreover have "fixed_notation num den p = ?w @ CHR ''.'' # ?d"
      using False by (simp add: fixed_notation_def n_def Let_def)
    ultimately show ?thesis
      using False d dec_nat_digits [of "n div 10 ^ p"] dec_nat_nonempty [of "n div 10 ^ p"]
      by (intro exI [of _ ?w] exI [of _ ?d]) (auto simp: n_def)
  qed
qed

section \<open>Properties\<close>

definition f64_abs :: "float64 \<Rightarrow> real" where
  "f64_abs d = real (fst (f64_fraction d)) / real (snd (f64_fraction d))"

text \<open>
  C26. Fixed notation is exact to half a unit of its last digit: a finite number is printed with its
  sign, at least one digit before the point and exactly \<open>precision\<close> digits after it (6 when the
  precision is negative, no point when it is 0), and the number the digits spell differs from the
  value by at most half of the last place.
\<close>

theorem format_double_rounds:
  assumes "f64_exp value \<noteq> 2047" and "p = (if precision < 0 then 6 else nat precision)"
  shows "\<exists>whole decimals. format_double value precision =
      (if f64_negative value then ''-'' else []) @ whole @ (if p = 0 then [] else ''.'' @ decimals) \<and>
    length decimals = p \<and> whole \<noteq> [] \<and> (\<forall>c \<in> set (whole @ decimals). is_digit c) \<and>
    \<bar>real (nat_of_dec (whole @ decimals)) / 10 ^ p - f64_abs value\<bar> \<le> 1 / (2 * 10 ^ p)"
proof -
  obtain num den where nd: "f64_fraction value = (num, den)" by fastforce
  then have den: "0 < den" using binary_fraction_den by (metis f64_fraction_def snd_conv)
  have f: "format_double value precision = signed_text (f64_negative value) (fixed_notation num den p)"
    using assms nd by (simp add: format_double_def)
  obtain whole decimals where
    w: "fixed_notation num den p = whole @ (if p = 0 then [] else CHR ''.'' # decimals)"
      "length decimals = p" "whole \<noteq> []" "\<forall>c \<in> set (whole @ decimals). is_digit c"
    and n: "nat_of_dec (whole @ decimals) = round_half_even (num * 10 ^ p) den"
    using fixed_notation_rounds [OF den, of num p] by blast
  let ?x = "real (nat_of_dec (whole @ decimals))"
  have "\<bar>?x - f64_abs value * 10 ^ p\<bar> \<le> 1 / 2"
    using round_half_even_real [OF den, of "num * 10 ^ p"] by (simp add: n nd f64_abs_def)
  moreover have "?x / 10 ^ p - f64_abs value = (?x - f64_abs value * 10 ^ p) / 10 ^ p"
    by (simp add: field_simps)
  ultimately have "\<bar>?x / 10 ^ p - f64_abs value\<bar> \<le> 1 / (2 * 10 ^ p)"
    by (simp add: abs_divide divide_right_mono [of _ "1 / 2" "10 ^ p", simplified])
  with w f show ?thesis
    by (intro exI [of _ whole] exI [of _ decimals]) (simp add: signed_text_def)
qed

theorem format_double_rounds_witness:
  "\<exists>whole decimals. format_double 0xBFE0000000000000 1 = ''-'' @ whole @ ''.'' @ decimals \<and>
     length decimals = 1"
proof -
  have "f64_exp 0xBFE0000000000000 \<noteq> 2047" "f64_negative 0xBFE0000000000000"
    by (simp_all add: f64_exp_def f64_negative_def drop_bit_eq_div unat_div)
  from format_double_rounds [OF this(1) refl, of 1] this(2) show ?thesis by auto
qed

end
