(* ===== verification/Data.thy ===== *)
theory Data
  imports Format
begin

text \<open>
  The robot data of \<^verbatim>\<open>src/core/data.hpp\<close> and \<^verbatim>\<open>data.cpp\<close>: the packed
  structs that go over the wire (\<open>Rapid...\<close>), the bridge classes that hold floats, their
  conversion \<open>to_rapid\<close>, and the object representation of the packed structs. A fixed-size
  \<^verbatim>\<open>std::array\<close> member is a tuple; a member \<^verbatim>\<open>x_\<close> of a class is the field \<open>x_m\<close>.
\<close>

section \<open>Packed structs\<close>

record RapidPosition =
  pos_x :: u32
  pos_y :: u32
  pos_z :: u32

record RapidOrientation =
  ori_q1 :: u32
  ori_q2 :: u32
  ori_q3 :: u32
  ori_q4 :: u32

record RapidConfData =
  cf1 :: i32
  cf4 :: i32
  cf6 :: i32
  cfx :: u32

record RapidRobJoint =
  rj1 :: u32
  rj2 :: u32
  rj3 :: u32
  rj4 :: u32
  rj5 :: u32
  rj6 :: u32

record RapidRobTarget =
  rt_position :: RapidPosition
  rt_orientation :: RapidOrientation
  rt_config_data :: RapidConfData
  rt_ext_joint :: RapidRobJoint

record RapidJointTarget =
  rjt_joints :: RapidRobJoint
  rjt_ext_joints :: RapidRobJoint

section \<open>Object representation\<close>

text \<open>
  \<^verbatim>\<open>#pragma pack(push, 1)\<close>: members in declaration order, no padding, each
  little-endian.
\<close>

definition bytes_RapidPosition :: "RapidPosition \<Rightarrow> byte list" where
  "bytes_RapidPosition p = le32 (pos_x p) @ le32 (pos_y p) @ le32 (pos_z p)"

definition bytes_RapidOrientation :: "RapidOrientation \<Rightarrow> byte list" where
  "bytes_RapidOrientation q =
     le32 (ori_q1 q) @ le32 (ori_q2 q) @ le32 (ori_q3 q) @ le32 (ori_q4 q)"

definition bytes_RapidConfData :: "RapidConfData \<Rightarrow> byte list" where
  "bytes_RapidConfData c = le32 (cf1 c) @ le32 (cf4 c) @ le32 (cf6 c) @ le32 (cfx c)"

definition bytes_RapidRobJoint :: "RapidRobJoint \<Rightarrow> byte list" where
  "bytes_RapidRobJoint j =
     le32 (rj1 j) @ le32 (rj2 j) @ le32 (rj3 j) @ le32 (rj4 j) @ le32 (rj5 j) @ le32 (rj6 j)"

definition bytes_RapidRobTarget :: "RapidRobTarget \<Rightarrow> byte list" where
  "bytes_RapidRobTarget t =
     bytes_RapidPosition (rt_position t) @ bytes_RapidOrientation (rt_orientation t) @
     bytes_RapidConfData (rt_config_data t) @ bytes_RapidRobJoint (rt_ext_joint t)"

definition bytes_RapidJointTarget :: "RapidJointTarget \<Rightarrow> byte list" where
  "bytes_RapidJointTarget t =
     bytes_RapidRobJoint (rjt_joints t) @ bytes_RapidRobJoint (rjt_ext_joints t)"

section \<open>Bridge classes\<close>

record RobPosition =
  position_m :: "float32 \<times> float32 \<times> float32"

record RobOrientation =
  orientation_m :: "float32 \<times> float32 \<times> float32 \<times> float32"

record RobConfigData =
  config_data_m :: "i32 \<times> i32 \<times> i32 \<times> i32"

record RobJoint =
  joints_m :: "float32 \<times> float32 \<times> float32 \<times> float32 \<times> float32 \<times> float32"

record JointTargetBridge =
  jt_joints_m :: "float32 \<times> float32 \<times> float32 \<times> float32 \<times> float32 \<times> float32"
  jt_ext_joints_m :: "float32 \<times> float32 \<times> float32 \<times> float32 \<times> float32 \<times> float32"

record RobTargetBridge =
  tb_position_m :: RobPosition
  tb_orientation_m :: RobOrientation
  tb_config_data_m :: RobConfigData
  tb_ext_joint_m :: RobJoint

text \<open>Float literals of the code: \<^verbatim>\<open>1.0f\<close> and \<^verbatim>\<open>9e9f\<close>, the RAPID value for an unused axis.\<close>

definition f32_one :: float32 where
  "f32_one = 0x3F800000"

definition f32_9e9 :: float32 where
  "f32_9e9 = 0x50061C46"

text \<open>
  \<^verbatim>\<open>static_cast<int>\<close> of an \<^verbatim>\<open>unsigned int\<close> and back: the value modulo \<open>2 ^ 32\<close> (C++20).
\<close>

definition cast_i32 :: "u32 \<Rightarrow> i32" where
  "cast_i32 w = word_of_int (uint w)"

definition cast_u32 :: "i32 \<Rightarrow> u32" where
  "cast_u32 w = word_of_int (sint w)"

definition RobPosition_new :: "float32 \<Rightarrow> float32 \<Rightarrow> float32 \<Rightarrow> RobPosition" where
  "RobPosition_new x y z = \<lparr>position_m = (x, y, z)\<rparr>"

definition RobPosition_default :: RobPosition where
  "RobPosition_default = \<lparr>position_m = (0, 0, 0)\<rparr>"

definition set_position :: "float32 \<Rightarrow> float32 \<Rightarrow> float32 \<Rightarrow> RobPosition \<Rightarrow> RobPosition" where
  "set_position x y z p = p\<lparr>position_m := (x, y, z)\<rparr>"

definition position_to_rapid :: "RobPosition \<Rightarrow> RapidPosition" where
  "position_to_rapid p =
     (case position_m p of (a, b, c) \<Rightarrow> \<lparr>pos_x = a, pos_y = b, pos_z = c\<rparr>)"

definition RobOrientation_new :: "float32 \<Rightarrow> float32 \<Rightarrow> float32 \<Rightarrow> float32 \<Rightarrow> RobOrientation" where
  "RobOrientation_new q1 q2 q3 q4 = \<lparr>orientation_m = (q1, q2, q3, q4)\<rparr>"

definition RobOrientation_default :: RobOrientation where
  "RobOrientation_default = \<lparr>orientation_m = (f32_one, 0, 0, 0)\<rparr>"

definition set_orientation ::
    "float32 \<Rightarrow> float32 \<Rightarrow> float32 \<Rightarrow> float32 \<Rightarrow> RobOrientation \<Rightarrow> RobOrientation" where
  "set_orientation q1 q2 q3 q4 q = q\<lparr>orientation_m := (q1, q2, q3, q4)\<rparr>"

definition orientation_to_rapid :: "RobOrientation \<Rightarrow> RapidOrientation" where
  "orientation_to_rapid q =
     (case orientation_m q of (a, b, c, d) \<Rightarrow>
        \<lparr>ori_q1 = a, ori_q2 = b, ori_q3 = c, ori_q4 = d\<rparr>)"

definition RobConfigData_new :: "i32 \<Rightarrow> i32 \<Rightarrow> i32 \<Rightarrow> u32 \<Rightarrow> RobConfigData" where
  "RobConfigData_new a b c x = \<lparr>config_data_m = (a, b, c, cast_i32 x)\<rparr>"

definition RobConfigData_default :: RobConfigData where
  "RobConfigData_default = \<lparr>config_data_m = (0, 0, 0, 0)\<rparr>"

definition set_config_data :: "i32 \<Rightarrow> i32 \<Rightarrow> i32 \<Rightarrow> u32 \<Rightarrow> RobConfigData \<Rightarrow> RobConfigData" where
  "set_config_data a b c x d = d\<lparr>config_data_m := (a, b, c, cast_i32 x)\<rparr>"

definition config_to_rapid :: "RobConfigData \<Rightarrow> RapidConfData" where
  "config_to_rapid d =
     (case config_data_m d of (a, b, c, x) \<Rightarrow> \<lparr>cf1 = a, cf4 = b, cf6 = c, cfx = cast_u32 x\<rparr>)"

definition RobJoint_new ::
    "float32 \<Rightarrow> float32 \<Rightarrow> float32 \<Rightarrow> float32 \<Rightarrow> float32 \<Rightarrow> float32 \<Rightarrow> RobJoint" where
  "RobJoint_new a b c d e f = \<lparr>joints_m = (a, b, c, d, e, f)\<rparr>"

definition RobJoint_default :: RobJoint where
  "RobJoint_default = \<lparr>joints_m = (0, 0, 0, 0, 0, 0)\<rparr>"

definition robjoint_set_joints ::
    "float32 \<Rightarrow> float32 \<Rightarrow> float32 \<Rightarrow> float32 \<Rightarrow> float32 \<Rightarrow> float32 \<Rightarrow> RobJoint \<Rightarrow> RobJoint" where
  "robjoint_set_joints a b c d e f j = j\<lparr>joints_m := (a, b, c, d, e, f)\<rparr>"

definition joints_to_rapid ::
    "float32 \<times> float32 \<times> float32 \<times> float32 \<times> float32 \<times> float32 \<Rightarrow> RapidRobJoint" where
  "joints_to_rapid v =
     (case v of (a, b, c, d, e, f) \<Rightarrow> \<lparr>rj1 = a, rj2 = b, rj3 = c, rj4 = d, rj5 = e, rj6 = f\<rparr>)"

definition robjoint_to_rapid :: "RobJoint \<Rightarrow> RapidRobJoint" where
  "robjoint_to_rapid j = joints_to_rapid (joints_m j)"

definition JointTargetBridge_new ::
    "float32 \<times> float32 \<times> float32 \<times> float32 \<times> float32 \<times> float32 \<Rightarrow>
     float32 \<times> float32 \<times> float32 \<times> float32 \<times> float32 \<times> float32 \<Rightarrow> JointTargetBridge" where
  "JointTargetBridge_new joint_target ext_joints =
     \<lparr>jt_joints_m = joint_target, jt_ext_joints_m = ext_joints\<rparr>"

text \<open>The constructor's default arguments.\<close>

definition JointTargetBridge_default :: JointTargetBridge where
  "JointTargetBridge_default =
     JointTargetBridge_new (0, 0, 0, 0, 0, 0) (f32_9e9, f32_9e9, f32_9e9, f32_9e9, f32_9e9, f32_9e9)"

definition jt_set_joints ::
    "float32 \<Rightarrow> float32 \<Rightarrow> float32 \<Rightarrow> float32 \<Rightarrow> float32 \<Rightarrow> float32 \<Rightarrow>
     JointTargetBridge \<Rightarrow> JointTargetBridge" where
  "jt_set_joints a b c d e f t = t\<lparr>jt_joints_m := (a, b, c, d, e, f)\<rparr>"

definition jt_set_ext_joints ::
    "float32 \<Rightarrow> float32 \<Rightarrow> float32 \<Rightarrow> float32 \<Rightarrow> float32 \<Rightarrow> float32 \<Rightarrow>
     JointTargetBridge \<Rightarrow> JointTargetBridge" where
  "jt_set_ext_joints a b c d e f t = t\<lparr>jt_ext_joints_m := (a, b, c, d, e, f)\<rparr>"

text \<open>Both members are copied as 24 bytes: six floats in array order.\<close>

definition jointtarget_to_rapid :: "JointTargetBridge \<Rightarrow> RapidJointTarget" where
  "jointtarget_to_rapid t =
     \<lparr>rjt_joints = joints_to_rapid (jt_joints_m t), rjt_ext_joints = joints_to_rapid (jt_ext_joints_m t)\<rparr>"

definition RobTargetBridge_new ::
    "RobPosition \<Rightarrow> RobOrientation \<Rightarrow> RobConfigData \<Rightarrow> RobJoint \<Rightarrow> RobTargetBridge" where
  "RobTargetBridge_new p q c e =
     \<lparr>tb_position_m = p, tb_orientation_m = q, tb_config_data_m = c, tb_ext_joint_m = e\<rparr>"

definition RobTargetBridge_default :: RobTargetBridge where
  "RobTargetBridge_default =
     \<lparr>tb_position_m = RobPosition_default, tb_orientation_m = RobOrientation_default,
      tb_config_data_m = RobConfigData_default, tb_ext_joint_m = RobJoint_default\<rparr>"

definition set_target ::
    "RobPosition \<Rightarrow> RobOrientation \<Rightarrow> RobConfigData \<Rightarrow> RobJoint \<Rightarrow> RobTargetBridge \<Rightarrow> RobTargetBridge" where
  "set_target p q c e t =
     t\<lparr>tb_position_m := p, tb_orientation_m := q, tb_config_data_m := c, tb_ext_joint_m := e\<rparr>"

definition robtarget_to_rapid :: "RobTargetBridge \<Rightarrow> RapidRobTarget" where
  "robtarget_to_rapid t =
     \<lparr>rt_position = position_to_rapid (tb_position_m t),
      rt_orientation = orientation_to_rapid (tb_orientation_m t),
      rt_config_data = config_to_rapid (tb_config_data_m t),
      rt_ext_joint = robjoint_to_rapid (tb_ext_joint_m t)\<rparr>"

text \<open>The copy constructors copy member by member.\<close>

definition RobPosition_copy :: "RobPosition \<Rightarrow> RobPosition" where
  "RobPosition_copy other = \<lparr>position_m = position_m other\<rparr>"

definition RobOrientation_copy :: "RobOrientation \<Rightarrow> RobOrientation" where
  "RobOrientation_copy other = \<lparr>orientation_m = orientation_m other\<rparr>"

definition RobConfigData_copy :: "RobConfigData \<Rightarrow> RobConfigData" where
  "RobConfigData_copy other = \<lparr>config_data_m = config_data_m other\<rparr>"

definition RobJoint_copy :: "RobJoint \<Rightarrow> RobJoint" where
  "RobJoint_copy other = \<lparr>joints_m = joints_m other\<rparr>"

definition JointTargetBridge_copy :: "JointTargetBridge \<Rightarrow> JointTargetBridge" where
  "JointTargetBridge_copy other = \<lparr>jt_joints_m = jt_joints_m other, jt_ext_joints_m = jt_ext_joints_m other\<rparr>"

definition RobTargetBridge_copy :: "RobTargetBridge \<Rightarrow> RobTargetBridge" where
  "RobTargetBridge_copy other = \<lparr>tb_position_m = tb_position_m other,
     tb_orientation_m = tb_orientation_m other,
     tb_config_data_m = tb_config_data_m other,
     tb_ext_joint_m = tb_ext_joint_m other\<rparr>"

section \<open>Debug output\<close>

text \<open>
  \<^verbatim>\<open>operator<<\<close> of an output stream on a float is \<open>show_float\<close>; on an
  \<^verbatim>\<open>int\<close> it prints decimal.
\<close>

fun comma_separated :: "string list \<Rightarrow> string" where
  "comma_separated [] = []"
| "comma_separated [s] = s"
| "comma_separated (s # ss) = s @ '', '' @ comma_separated ss"

definition position_to_string :: "RobPosition \<Rightarrow> string" where
  "position_to_string p =
     (case position_m p of (a, b, c) \<Rightarrow> ''Pos: '' @ comma_separated (map show_float [a, b, c]))"

definition orientation_to_string :: "RobOrientation \<Rightarrow> string" where
  "orientation_to_string q =
     (case orientation_m q of (a, b, c, d) \<Rightarrow>
        ''Orient: '' @ comma_separated (map show_float [a, b, c, d]))"

definition config_to_string :: "RobConfigData \<Rightarrow> string" where
  "config_to_string d =
     (case config_data_m d of (a, b, c, x) \<Rightarrow>
        ''Config: '' @ comma_separated (map (\<lambda>w. dec_int (sint w)) [a, b, c, x]))"

definition six_to_string ::
    "float32 \<times> float32 \<times> float32 \<times> float32 \<times> float32 \<times> float32 \<Rightarrow> string" where
  "six_to_string v =
     (case v of (a, b, c, d, e, f) \<Rightarrow> comma_separated (map show_float [a, b, c, d, e, f]))"

definition robjoint_to_string :: "RobJoint \<Rightarrow> string" where
  "robjoint_to_string j = ''Joints: '' @ six_to_string (joints_m j)"

definition jointtarget_to_string :: "JointTargetBridge \<Rightarrow> string" where
  "jointtarget_to_string t =
     ''[JOINTTARGET] Joints: ['' @ six_to_string (jt_joints_m t) @ ''] | Ext Joints: ['' @
     six_to_string (jt_ext_joints_m t) @ '']''"

definition robtarget_to_string :: "RobTargetBridge \<Rightarrow> string" where
  "robtarget_to_string t =
     ''[ROBTARGET] '' @ position_to_string (tb_position_m t) @ '' | '' @
     orientation_to_string (tb_orientation_m t) @ '' | '' @
     config_to_string (tb_config_data_m t) @ '' | '' @ robjoint_to_string (tb_ext_joint_m t)"

section \<open>Facts\<close>

lemma copies_equal [simp]:
  "RobPosition_copy p = p"
  "RobOrientation_copy q = q"
  "RobConfigData_copy c = c"
  "RobJoint_copy j = j"
  "JointTargetBridge_copy t = t"
  "RobTargetBridge_copy b = b"
  by (simp_all add: RobPosition_copy_def RobOrientation_copy_def RobConfigData_copy_def
      RobJoint_copy_def JointTargetBridge_copy_def RobTargetBridge_copy_def)

lemma cast_u32_cast_i32 [simp]: "cast_u32 (cast_i32 w) = w"
  by (simp add: cast_u32_def cast_i32_def)

lemma length_bytes_RapidPosition [simp]: "length (bytes_RapidPosition p) = 12"
  by (simp add: bytes_RapidPosition_def)

lemma length_bytes_RapidOrientation [simp]: "length (bytes_RapidOrientation q) = 16"
  by (simp add: bytes_RapidOrientation_def)

lemma length_bytes_RapidConfData [simp]: "length (bytes_RapidConfData c) = 16"
  by (simp add: bytes_RapidConfData_def)

lemma length_bytes_RapidRobJoint [simp]: "length (bytes_RapidRobJoint j) = 24"
  by (simp add: bytes_RapidRobJoint_def)

lemma length_bytes_RapidRobTarget [simp]: "length (bytes_RapidRobTarget t) = 68"
  by (simp add: bytes_RapidRobTarget_def)

lemma length_bytes_RapidJointTarget [simp]: "length (bytes_RapidJointTarget t) = 48"
  by (simp add: bytes_RapidJointTarget_def)

lemmas data_bytes_defs = bytes_RapidPosition_def bytes_RapidOrientation_def bytes_RapidConfData_def
  bytes_RapidRobJoint_def bytes_RapidRobTarget_def bytes_RapidJointTarget_def

lemmas to_rapid_defs = position_to_rapid_def orientation_to_rapid_def config_to_rapid_def
  joints_to_rapid_def robjoint_to_rapid_def jointtarget_to_rapid_def robtarget_to_rapid_def

end
