(* ===== verification/Commands.thy ===== *)
theory Commands
  imports Data
begin

text \<open>
  The command layer of \<^verbatim>\<open>src/commands/commands.hpp\<close> and
  \<^verbatim>\<open>commands.cpp\<close>: the command and zone enumerations, the packed request that is
  sent to the robot controller, the decoded client request, and the translation of the second
  into the first.
\<close>

section \<open>Enumerations\<close>

datatype RapidCommandType =
    MOVE_L | MOVE_J | MOVE_C | MOVE_ABS_J | SET_SPEED | SET_ZONE | EXIT | PING | PINGR | ZERO
  | GETSTATUS | CHECK_TASK | LOGIN | LOGOUT | ACQUIRE | RELEASE | MOVE_L_OFFS | MOVE_J_OFFS
  | UNKNOWN

text \<open>The underlying \<^verbatim>\<open>uint8_t\<close> of an enumerator.\<close>

fun cmd_code :: "RapidCommandType \<Rightarrow> byte" where
  "cmd_code MOVE_L = 0x00"
| "cmd_code MOVE_J = 0x01"
| "cmd_code MOVE_C = 0x02"
| "cmd_code MOVE_ABS_J = 0x03"
| "cmd_code SET_SPEED = 0x04"
| "cmd_code SET_ZONE = 0x05"
| "cmd_code EXIT = 0x06"
| "cmd_code PING = 0x07"
| "cmd_code PINGR = 0x08"
| "cmd_code ZERO = 0x09"
| "cmd_code GETSTATUS = 0x0A"
| "cmd_code CHECK_TASK = 0x0B"
| "cmd_code LOGIN = 0x0C"
| "cmd_code LOGOUT = 0x0D"
| "cmd_code ACQUIRE = 0x0E"
| "cmd_code RELEASE = 0x0F"
| "cmd_code MOVE_L_OFFS = 0x10"
| "cmd_code MOVE_J_OFFS = 0x11"
| "cmd_code UNKNOWN = 0xFF"

definition all_commands :: "RapidCommandType list" where
  "all_commands =
     [MOVE_L, MOVE_J, MOVE_C, MOVE_ABS_J, SET_SPEED, SET_ZONE, EXIT, PING, PINGR, ZERO, GETSTATUS,
      CHECK_TASK, LOGIN, LOGOUT, ACQUIRE, RELEASE, MOVE_L_OFFS, MOVE_J_OFFS, UNKNOWN]"

text \<open>
  \<^verbatim>\<open>static_cast<RapidCommandType>\<close> of a byte: any byte is a value of the enumeration;
  \<open>None\<close> when no enumerator has it.
\<close>

definition cast_command :: "byte \<Rightarrow> RapidCommandType option" where
  "cast_command b = find (\<lambda>c. cmd_code c = b) all_commands"

datatype RapidZone = FINE | Z1 | Z5 | Z10 | Z15 | Z20 | Z30

fun zone_code :: "RapidZone \<Rightarrow> i32" where
  "zone_code FINE = 0"
| "zone_code Z1 = 1"
| "zone_code Z5 = 2"
| "zone_code Z10 = 3"
| "zone_code Z15 = 4"
| "zone_code Z20 = 5"
| "zone_code Z30 = 6"

definition string_to_type :: "string \<Rightarrow> RapidCommandType" where
  "string_to_type cmd_str =
     (if cmd_str = ''MOVEL'' then MOVE_L else
      if cmd_str = ''MOVEJ'' then MOVE_J else
      if cmd_str = ''MOVEC'' then MOVE_C else
      if cmd_str = ''MOVEABSJ'' then MOVE_ABS_J else
      if cmd_str = ''SETSPEED'' then SET_SPEED else
      if cmd_str = ''SETZONE'' then SET_ZONE else
      if cmd_str = ''EXIT'' then EXIT else
      if cmd_str = ''PING'' then PING else
      if cmd_str = ''PINGR'' then PINGR else
      if cmd_str = ''ZERO'' then ZERO else
      if cmd_str = ''GETSTATUS'' then GETSTATUS else
      if cmd_str = ''CHECK_TASK'' then CHECK_TASK else
      if cmd_str = ''LOGIN'' then LOGIN else
      if cmd_str = ''LOGOUT'' then LOGOUT else
      if cmd_str = ''ACQUIRE'' then ACQUIRE else
      if cmd_str = ''RELEASE'' then RELEASE else
      if cmd_str = ''MOVE_L_OFFS'' then MOVE_L_OFFS else
      if cmd_str = ''MOVE_J_OFFS'' then MOVE_J_OFFS else
      UNKNOWN)"

fun type_to_string :: "RapidCommandType \<Rightarrow> string" where
  "type_to_string MOVE_L = ''MOVEL''"
| "type_to_string MOVE_J = ''MOVEJ''"
| "type_to_string MOVE_C = ''MOVEC''"
| "type_to_string MOVE_ABS_J = ''MOVEABSJ''"
| "type_to_string SET_SPEED = ''SETSPEED''"
| "type_to_string SET_ZONE = ''SETZONE''"
| "type_to_string EXIT = ''EXIT''"
| "type_to_string PING = ''PING''"
| "type_to_string PINGR = ''PINGR''"
| "type_to_string ZERO = ''ZERO''"
| "type_to_string GETSTATUS = ''GETSTATUS''"
| "type_to_string CHECK_TASK = ''CHECK_TASK''"
| "type_to_string LOGIN = ''LOGIN''"
| "type_to_string LOGOUT = ''LOGOUT''"
| "type_to_string ACQUIRE = ''ACQUIRE''"
| "type_to_string RELEASE = ''RELEASE''"
| "type_to_string MOVE_L_OFFS = ''MOVE_L_OFFS''"
| "type_to_string MOVE_J_OFFS = ''MOVE_J_OFFS''"
| "type_to_string _ = ''UNKNOWN''"

section \<open>Requests\<close>

record RapidRequest =
  command_id :: byte
  rq_zone :: byte
  rq_speed :: u16
  rq_target :: RapidRobTarget
  rq_extra_target :: RapidRobTarget
  rq_joint_target :: RapidJointTarget

definition bytes_RapidRequest :: "RapidRequest \<Rightarrow> byte list" where
  "bytes_RapidRequest r =
     le8 (command_id r) @ le8 (rq_zone r) @ le16 (rq_speed r) @
     bytes_RapidRobTarget (rq_target r) @ bytes_RapidRobTarget (rq_extra_target r) @
     bytes_RapidJointTarget (rq_joint_target r)"

record DecodedRequest =
  cmd_type :: RapidCommandType
  target :: "RobTargetBridge option"
  extra_target :: "RobTargetBridge option"
  joint_target :: "JointTargetBridge option"
  task_id :: "u64 option"
  speed :: float32
  zone :: RapidZone
  session_token :: "string option"
  username :: "string option"
  password :: "string option"

definition DecodedRequest_default :: DecodedRequest where
  "DecodedRequest_default =
     \<lparr>cmd_type = UNKNOWN, target = None, extra_target = None, joint_target = None,
      task_id = None, speed = 0, zone = FINE, session_token = None, username = None,
      password = None\<rparr>"

text \<open>A request with every byte zero, as \<^verbatim>\<open>memset\<close> leaves it.\<close>

definition zero_joint :: RapidRobJoint where
  "zero_joint = \<lparr>rj1 = 0, rj2 = 0, rj3 = 0, rj4 = 0, rj5 = 0, rj6 = 0\<rparr>"

definition zero_target :: RapidRobTarget where
  "zero_target =
     \<lparr>rt_position = \<lparr>pos_x = 0, pos_y = 0, pos_z = 0\<rparr>,
      rt_orientation = \<lparr>ori_q1 = 0, ori_q2 = 0, ori_q3 = 0, ori_q4 = 0\<rparr>,
      rt_config_data = \<lparr>cf1 = 0, cf4 = 0, cf6 = 0, cfx = 0\<rparr>, rt_ext_joint = zero_joint\<rparr>"

definition zero_request :: RapidRequest where
  "zero_request =
     \<lparr>command_id = 0, rq_zone = 0, rq_speed = 0, rq_target = zero_target,
      rq_extra_target = zero_target,
      rq_joint_target = \<lparr>rjt_joints = zero_joint, rjt_ext_joints = zero_joint\<rparr>\<rparr>"

text \<open>
  \<^verbatim>\<open>static_cast<uint16_t>\<close> of a float: the truncated value; undefined behaviour when
  that is not a value of the type (or the float is not finite).
\<close>

definition f32_to_u16 :: "float32 \<Rightarrow> cxx_error + u16" where
  "f32_to_u16 f =
     (case f32_trunc f of
        Some z \<Rightarrow> if 0 \<le> z \<and> z < 65536 then Inr (word_of_int z) else Inl UB
      | None \<Rightarrow> Inl UB)"

definition create_rapid_request :: "DecodedRequest \<Rightarrow> cxx_error + RapidRequest" where
  "create_rapid_request decoded =
     (let c = cmd_type decoded; msg = zero_request\<lparr>command_id := cmd_code c\<rparr> in
      if c = UNKNOWN then Inr msg else
      sum_bind
        (if c = MOVE_L \<or> c = MOVE_J \<or> c = MOVE_C \<or> c = MOVE_L_OFFS \<or> c = MOVE_J_OFFS then
           (case target decoded of
              Some t \<Rightarrow> Inr (msg\<lparr>rq_target := robtarget_to_rapid t\<rparr>)
            | None \<Rightarrow> Inl (Exn ''MoveL, MoveJ, and MoveC commands require target data.''))
         else Inr msg) (\<lambda>msg.
      sum_bind
        (if c = MOVE_C then
           (case extra_target decoded of
              Some t \<Rightarrow> Inr (msg\<lparr>rq_extra_target := robtarget_to_rapid t\<rparr>)
            | None \<Rightarrow> Inl (Exn ''MoveC command requires a second target.''))
         else Inr msg) (\<lambda>msg.
      sum_bind
        (if c = MOVE_ABS_J then
           (case joint_target decoded of
              None \<Rightarrow> Inl (Exn ''MoveAbsJ command requires joint data.'')
            | Some t \<Rightarrow> Inr (msg\<lparr>rq_joint_target := jointtarget_to_rapid t\<rparr>))
         else Inr msg) (\<lambda>msg.
      sum_bind
        (if c = SET_SPEED then
           sum_bind (f32_to_u16 (speed decoded)) (\<lambda>v. Inr (msg\<lparr>rq_speed := v\<rparr>))
         else Inr msg) (\<lambda>msg.
      if c = SET_ZONE then Inr (msg\<lparr>rq_zone := ucast (zone_code (zone decoded))\<rparr>)
      else Inr msg)))))"

section \<open>Debug output\<close>

definition show_u32 :: "u32 \<Rightarrow> string" where
  "show_u32 w = dec_nat (unat w)"

definition show_position :: "RapidPosition \<Rightarrow> string" where
  "show_position p = comma_separated (map show_u32 [pos_x p, pos_y p, pos_z p])"

definition show_joint :: "RapidRobJoint \<Rightarrow> string" where
  "show_joint j = comma_separated (map show_u32 [rj1 j, rj2 j, rj3 j, rj4 j, rj5 j, rj6 j])"

definition newline :: string where
  "newline = [char_of (10 :: nat)]"

definition rapid_request_to_string :: "RapidRequest \<Rightarrow> string" where
  "rapid_request_to_string msg =
     ''Command ID: '' @ dec_nat (unat (command_id msg)) @ '' ('' @
       (case cast_command (command_id msg) of Some c \<Rightarrow> type_to_string c | None \<Rightarrow> ''UNKNOWN'') @
       '')'' @ newline @
     ''Target 1: '' @ show_position (rt_position (rq_target msg)) @ newline @
     ''Target 2: '' @ show_position (rt_position (rq_extra_target msg)) @ newline @
     ''Orientation: '' @
       (let q = rt_orientation (rq_target msg) in
        comma_separated (map show_u32 [ori_q1 q, ori_q2 q, ori_q3 q, ori_q4 q])) @ newline @
     ''Config Data: '' @
       (let c = rt_config_data (rq_target msg) in
        comma_separated [dec_int (sint (cf1 c)), dec_int (sint (cf4 c)), dec_int (sint (cf6 c)),
          show_u32 (cfx c)]) @ newline @
     ''Joints: '' @ show_joint (rjt_joints (rq_joint_target msg)) @ newline @
     ''External Joints: '' @ show_joint (rt_ext_joint (rq_target msg)) @ newline @
     ''Speed: '' @ dec_nat (unat (rq_speed msg)) @ newline @
     ''Zone id: '' @ dec_nat (unat (rq_zone msg)) @ newline"

definition rapid_request_to_hexstring :: "RapidRequest \<Rightarrow> string" where
  "rapid_request_to_hexstring msg = concat (map hex_byte (bytes_RapidRequest msg))"


section \<open>Enumerations: facts\<close>

lemma cast_command_code [simp]: "cast_command (cmd_code c) = Some c"
  by (cases c) (simp_all add: cast_command_def all_commands_def)

lemma cmd_code_inject [simp]: "cmd_code c = cmd_code d \<longleftrightarrow> c = d"
  by (metis cast_command_code option.inject)

lemma zone_code_inject: "zone_code a = zone_code b \<longleftrightarrow> a = b"
  by (cases a; cases b) simp_all

lemma string_to_type_type_to_string [simp]: "string_to_type (type_to_string c) = c"
  by (cases c) (simp_all add: string_to_type_def)

lemma type_to_string_string_to_type:
  "string_to_type s \<noteq> UNKNOWN \<Longrightarrow> type_to_string (string_to_type s) = s"
  by (simp add: string_to_type_def split: if_splits)

section \<open>Requests: facts\<close>

text \<open>Which payload a command carries to the controller.\<close>

definition uses_target :: "RapidCommandType \<Rightarrow> bool" where
  "uses_target c \<longleftrightarrow> c \<in> {MOVE_L, MOVE_J, MOVE_C, MOVE_L_OFFS, MOVE_J_OFFS}"

definition complete_request :: "DecodedRequest \<Rightarrow> bool" where
  "complete_request d \<longleftrightarrow>
     (uses_target (cmd_type d) \<longrightarrow> target d \<noteq> None) \<and>
     (cmd_type d = MOVE_C \<longrightarrow> extra_target d \<noteq> None) \<and>
     (cmd_type d = MOVE_ABS_J \<longrightarrow> joint_target d \<noteq> None) \<and>
     (cmd_type d = SET_SPEED \<longrightarrow> (\<exists>v. f32_to_u16 (speed d) = Inr v))"

text \<open>The request a complete client request stands for: its own payload, all other bytes zero.\<close>

definition request_spec :: "DecodedRequest \<Rightarrow> RapidRequest" where
  "request_spec d =
     \<lparr>command_id = cmd_code (cmd_type d),
      rq_zone = (if cmd_type d = SET_ZONE then ucast (zone_code (zone d)) else 0),
      rq_speed = (if cmd_type d = SET_SPEED then projr (f32_to_u16 (speed d)) else 0),
      rq_target = (if uses_target (cmd_type d) then robtarget_to_rapid (the (target d)) else zero_target),
      rq_extra_target =
        (if cmd_type d = MOVE_C then robtarget_to_rapid (the (extra_target d)) else zero_target),
      rq_joint_target =
        (if cmd_type d = MOVE_ABS_J then jointtarget_to_rapid (the (joint_target d))
         else \<lparr>rjt_joints = zero_joint, rjt_ext_joints = zero_joint\<rparr>)\<rparr>"

lemma create_rapid_request_complete:
  "complete_request d \<Longrightarrow> create_rapid_request d = Inr (request_spec d)"
  by (cases "cmd_type d")
    (auto simp: create_rapid_request_def complete_request_def request_spec_def uses_target_def
      zero_request_def Let_def)

lemma f32_to_u16_error: "f32_to_u16 f = Inl e \<Longrightarrow> e = UB"
  by (auto simp: f32_to_u16_def split: option.splits if_splits)

lemma create_rapid_request_incomplete:
  "\<not> complete_request d \<Longrightarrow> \<exists>e. create_rapid_request d = Inl e \<and> e \<noteq> Deadlock"
  by (cases "cmd_type d"; cases "f32_to_u16 (speed d)")
    (auto simp: create_rapid_request_def complete_request_def uses_target_def Let_def
      dest: f32_to_u16_error split: option.split)

lemma length_bytes_RapidRequest [simp]: "length (bytes_RapidRequest r) = 188"
  by (simp add: bytes_RapidRequest_def)

lemma hex_byte_append: "hex_byte a @ xs = hex_byte b @ ys \<longleftrightarrow> hex_byte a = hex_byte b \<and> xs = ys"
  by (auto simp: hex_byte_def)

lemma concat_map_hex_inject: "concat (map hex_byte as) = concat (map hex_byte bs) \<Longrightarrow> as = bs"
proof (induction as arbitrary: bs)
  case Nil
  then show ?case by (cases bs) (simp_all add: hex_byte_def)
next
  case (Cons a as)
  from Cons.prems obtain b cs where bs: "bs = b # cs"
    by (cases bs) (simp_all add: hex_byte_def)
  with Cons.prems have "hex_byte a = hex_byte b" "concat (map hex_byte as) = concat (map hex_byte cs)"
    by (simp_all add: hex_byte_append)
  with bs show ?case using Cons.IH hex_byte_inject by blast
qed

lemma length_concat_hex [simp]: "length (concat (map hex_byte bs)) = 2 * length bs"
  by (induction bs) (simp_all add: hex_byte_def)

section \<open>Properties\<close>

lemma create_rapid_request_missing:
  assumes "\<not> complete_request d"
  shows "create_rapid_request d =
    (if uses_target (cmd_type d) \<and> target d = None
     then Inl (Exn ''MoveL, MoveJ, and MoveC commands require target data.'')
     else if cmd_type d = MOVE_C then Inl (Exn ''MoveC command requires a second target.'')
     else if cmd_type d = MOVE_ABS_J then Inl (Exn ''MoveAbsJ command requires joint data.'')
     else Inl UB)"
proof (cases "cmd_type d = SET_SPEED")
  case True
  with assms obtain e where "f32_to_u16 (speed d) = Inl e"
    by (cases "f32_to_u16 (speed d)") (auto simp: complete_request_def uses_target_def)
  moreover from this have "e = UB" by (rule f32_to_u16_error)
  ultimately show ?thesis using True by (simp add: create_rapid_request_def uses_target_def Let_def)
next
  case False
  with assms show ?thesis
    by (cases "cmd_type d")
      (auto simp: create_rapid_request_def complete_request_def uses_target_def Let_def
        split: option.split)
qed

lemma create_rapid_request_UB:
  assumes "\<not> complete_request d"
  shows "create_rapid_request d = Inl UB \<longleftrightarrow> cmd_type d = SET_SPEED"
  using assms by (auto simp: create_rapid_request_missing complete_request_def uses_target_def)

text \<open>
  C36. The translation to the wire, on every branch: a request that has what its command needs
  becomes the packed request with exactly that payload and every other byte zero. Otherwise a missing
  target, second target or joint target is reported by an exception with the message written for it,
  the target first; and what remains is a speed that is not a number from 0 to 65535 after
  truncation, whose conversion is undefined behaviour.
\<close>

theorem create_rapid_request_decides:
  "(complete_request d \<longrightarrow> create_rapid_request d = Inr (request_spec d)) \<and>
   (\<not> complete_request d \<longrightarrow>
      (if uses_target (cmd_type d) \<and> target d = None
       then create_rapid_request d = Inl (Exn ''MoveL, MoveJ, and MoveC commands require target data.'')
       else if cmd_type d = MOVE_C \<and> extra_target d = None
       then create_rapid_request d = Inl (Exn ''MoveC command requires a second target.'')
       else if cmd_type d = MOVE_ABS_J \<and> joint_target d = None
       then create_rapid_request d = Inl (Exn ''MoveAbsJ command requires joint data.'')
       else create_rapid_request d = Inl UB \<and> cmd_type d = SET_SPEED \<and>
         \<not> (\<exists>z. f32_trunc (speed d) = Some z \<and> 0 \<le> z \<and> z < 65536)))"
proof (intro conjI impI)
  assume "complete_request d"
  then show "create_rapid_request d = Inr (request_spec d)" by (rule create_rapid_request_complete)
next
  assume no: "\<not> complete_request d"
  note missing = create_rapid_request_missing [OF no]
  have "cmd_type d = SET_SPEED \<longrightarrow> \<not> (\<exists>z. f32_trunc (speed d) = Some z \<and> 0 \<le> z \<and> z < 65536)"
    using no by (auto simp: complete_request_def uses_target_def f32_to_u16_def)
  moreover have "uses_target (cmd_type d) \<and> target d = None \<or> cmd_type d = MOVE_C \<and> extra_target d = None \<or>
      cmd_type d = MOVE_ABS_J \<and> joint_target d = None \<or> cmd_type d = SET_SPEED"
    using no by (auto simp: complete_request_def)
  ultimately show "if uses_target (cmd_type d) \<and> target d = None
       then create_rapid_request d = Inl (Exn ''MoveL, MoveJ, and MoveC commands require target data.'')
       else if cmd_type d = MOVE_C \<and> extra_target d = None
       then create_rapid_request d = Inl (Exn ''MoveC command requires a second target.'')
       else if cmd_type d = MOVE_ABS_J \<and> joint_target d = None
       then create_rapid_request d = Inl (Exn ''MoveAbsJ command requires joint data.'')
       else create_rapid_request d = Inl UB \<and> cmd_type d = SET_SPEED \<and>
         \<not> (\<exists>z. f32_trunc (speed d) = Some z \<and> 0 \<le> z \<and> z < 65536)"
    by (auto simp: missing uses_target_def)
qed

definition demo_decoded :: DecodedRequest where
  "demo_decoded = DecodedRequest_default\<lparr>cmd_type := SET_ZONE, zone := Z10\<rparr>"

theorem create_rapid_request_decides_witness:
  "create_rapid_request demo_decoded = Inr (request_spec demo_decoded) \<and>
   rq_zone (request_spec demo_decoded) = 3 \<and>
   create_rapid_request (DecodedRequest_default\<lparr>cmd_type := MOVE_ABS_J\<rparr>) =
     Inl (Exn ''MoveAbsJ command requires joint data.'')"
  using create_rapid_request_decides [of demo_decoded]
    create_rapid_request_decides [of "DecodedRequest_default\<lparr>cmd_type := MOVE_ABS_J\<rparr>"]
  by (simp add: demo_decoded_def complete_request_def uses_target_def request_spec_def
      DecodedRequest_default_def)

text \<open>
  Command names and codes: every command's name reads back as the command, every string that
  names a command is that command's own name, and the byte of a command determines it.
\<close>

lemma command_names_round_trip:
  "string_to_type (type_to_string c) = c \<and>
   (string_to_type s = UNKNOWN \<or> type_to_string (string_to_type s) = s) \<and>
   cast_command (cmd_code c) = Some c"
  using type_to_string_string_to_type by auto

end
