(* ===== verification/Tasker.thy ===== *)
theory Tasker
  imports Commands
begin

text \<open>
  Tasks and their registry: \<^verbatim>\<open>src/server/tasker.hpp\<close> and
  \<^verbatim>\<open>tasker.cpp\<close>. Every method takes its mutexes one after the other and calls no
  other method while it holds one, so each critical section is one atomic step; a method that
  reads the steady clock takes the reading as \<open>now\<close> (nanoseconds).
\<close>

section \<open>Tasks\<close>

type_synonym task_id_t = u64

datatype TaskState = PENDING | IN_PROGRESS | COMPLETED | FAILED

record Task =
  m_id :: task_id_t
  m_state :: TaskState
  m_request :: RapidRequest
  m_created_time :: int
  m_start_time :: int
  m_end_time :: int
  m_response :: string

definition Task_new :: "int \<Rightarrow> task_id_t \<Rightarrow> RapidRequest \<Rightarrow> Task" where
  "Task_new now tid request =
     \<lparr>m_id = tid, m_state = PENDING, m_request = request, m_created_time = now,
      m_start_time = 0, m_end_time = 0, m_response = []\<rparr>"

definition markStarted :: "int \<Rightarrow> Task \<Rightarrow> bool \<times> Task" where
  "markStarted now t =
     (if m_state t \<noteq> PENDING then (False, t)
      else (True, t\<lparr>m_state := IN_PROGRESS, m_start_time := now\<rparr>))"

definition markCompleted :: "int \<Rightarrow> Task \<Rightarrow> bool \<times> Task" where
  "markCompleted now t =
     (if m_state t \<noteq> IN_PROGRESS then (False, t)
      else (True, t\<lparr>m_state := COMPLETED, m_end_time := now\<rparr>))"

definition markFailed :: "int \<Rightarrow> Task \<Rightarrow> bool \<times> Task" where
  "markFailed now t =
     (if m_state t \<noteq> IN_PROGRESS then (False, t)
      else (True, t\<lparr>m_state := FAILED, m_end_time := now\<rparr>))"

definition setResponse :: "string \<Rightarrow> Task \<Rightarrow> bool \<times> Task" where
  "setResponse response t = (True, t\<lparr>m_response := response\<rparr>)"

text \<open>\<^verbatim>\<open>duration_cast\<close> to a coarser unit of \<open>k\<close> nanoseconds truncates towards zero.\<close>

definition duration_cast :: "int \<Rightarrow> int \<Rightarrow> int" where
  "duration_cast k d = sgn d * (\<bar>d\<bar> div k)"

abbreviation unfinished :: "Task \<Rightarrow> bool" where
  "unfinished t \<equiv> m_state t = PENDING \<or> m_state t = IN_PROGRESS"

definition getLatency :: "Task \<Rightarrow> int" where
  "getLatency t =
     (if unfinished t then 0 else duration_cast 1000000 (m_end_time t - m_created_time t))"

definition getExecutionTime :: "Task \<Rightarrow> int" where
  "getExecutionTime t =
     (if unfinished t then 0 else duration_cast 1000000 (m_end_time t - m_start_time t))"

definition isExpired :: "int \<Rightarrow> int \<Rightarrow> Task \<Rightarrow> bool" where
  "isExpired now timeout t =
     (if unfinished t then False else duration_cast 1000000000 (now - m_end_time t) \<ge> timeout)"

section \<open>The registry\<close>

record Tasker =
  m_next_task_counter :: u64
  m_task_map :: "(task_id_t \<times> Task) list"
  m_task_queue :: "task_id_t list"
  m_shutdown :: bool

definition Tasker_default :: Tasker where
  "Tasker_default =
     \<lparr>m_next_task_counter = 1, m_task_map = [], m_task_queue = [], m_shutdown = False\<rparr>"

text \<open>
  \<^verbatim>\<open>addTask\<close> in its three atomic steps: draw a number, register the task
  (\<^verbatim>\<open>emplace\<close> leaves an existing entry alone), queue its number.
\<close>

definition fetch_id :: "Tasker \<Rightarrow> task_id_t \<times> Tasker" where
  "fetch_id T = (m_next_task_counter T, T\<lparr>m_next_task_counter := m_next_task_counter T + 1\<rparr>)"

definition emplace_task :: "int \<Rightarrow> task_id_t \<Rightarrow> RapidRequest \<Rightarrow> Tasker \<Rightarrow> Tasker" where
  "emplace_task now tid request T =
     (if map_of (m_task_map T) tid = None
      then T\<lparr>m_task_map := (tid, Task_new now tid request) # m_task_map T\<rparr> else T)"

definition push_task :: "task_id_t \<Rightarrow> Tasker \<Rightarrow> Tasker" where
  "push_task tid T = T\<lparr>m_task_queue := m_task_queue T @ [tid]\<rparr>"

definition addTask :: "int \<Rightarrow> RapidRequest \<Rightarrow> Tasker \<Rightarrow> task_id_t \<times> Tasker" where
  "addTask now request T =
     (case fetch_id T of (tid, T) \<Rightarrow> (tid, push_task tid (emplace_task now tid request T)))"

definition getTask :: "task_id_t \<Rightarrow> Tasker \<Rightarrow> Task option" where
  "getTask tid T = map_of (m_task_map T) tid"

text \<open>The common shape of the three updates: find the task, change it in place, report whether it was there.\<close>

definition update_task :: "task_id_t \<Rightarrow> (Task \<Rightarrow> Task) \<Rightarrow> Tasker \<Rightarrow> bool \<times> Tasker" where
  "update_task tid f T =
     (case map_of (m_task_map T) tid of
        None \<Rightarrow> (False, T)
      | Some t \<Rightarrow>
          (True, T\<lparr>m_task_map := map (\<lambda>(k, e). (k, if k = tid then f e else e)) (m_task_map T)\<rparr>))"

definition startTask :: "int \<Rightarrow> task_id_t \<Rightarrow> Tasker \<Rightarrow> bool \<times> Tasker" where
  "startTask now tid T = update_task tid (\<lambda>t. snd (markStarted now t)) T"

definition completeTask :: "int \<Rightarrow> task_id_t \<Rightarrow> string \<Rightarrow> Tasker \<Rightarrow> bool \<times> Tasker" where
  "completeTask now tid response T =
     update_task tid (\<lambda>t. snd (setResponse response (snd (markCompleted now t)))) T"

definition failTask :: "int \<Rightarrow> task_id_t \<Rightarrow> string \<Rightarrow> Tasker \<Rightarrow> bool \<times> Tasker" where
  "failTask now tid response T =
     update_task tid (\<lambda>t. snd (setResponse response (snd (markFailed now t)))) T"

definition removeTask :: "task_id_t \<Rightarrow> Tasker \<Rightarrow> bool \<times> Tasker" where
  "removeTask tid T =
     (case map_of (m_task_map T) tid of
        None \<Rightarrow> (False, T)
      | Some t \<Rightarrow> (True, T\<lparr>m_task_map := filter (\<lambda>(k, e). k \<noteq> tid) (m_task_map T)\<rparr>))"

text \<open>The loop tests \<^verbatim>\<open>isExpired()\<close> with its default of 300 seconds, not the argument.\<close>

definition sweepExpiredTasks :: "int \<Rightarrow> int \<Rightarrow> Tasker \<Rightarrow> Tasker" where
  "sweepExpiredTasks now expiration_time T =
     T\<lparr>m_task_map := filter (\<lambda>(k, t). \<not> isExpired now 300 t) (m_task_map T)\<rparr>"

text \<open>
  \<^verbatim>\<open>waitForNextTask\<close> waits while the queue is empty and the registry is not shut down:
  \<open>Waiting\<close> is a call that has not returned.
\<close>

datatype wait_result = Waiting | Next "task_id_t option"

definition waitForNextTask :: "Tasker \<Rightarrow> wait_result \<times> Tasker" where
  "waitForNextTask T =
     (if m_task_queue T = [] \<and> \<not> m_shutdown T then (Waiting, T)
      else if m_shutdown T \<and> m_task_queue T = [] then (Next None, T)
      else (Next (Some (hd (m_task_queue T))), T\<lparr>m_task_queue := tl (m_task_queue T)\<rparr>))"

definition stop_tasker :: "Tasker \<Rightarrow> Tasker" where
  "stop_tasker T = T\<lparr>m_shutdown := True\<rparr>"

section \<open>Interfaces\<close>

text \<open>A store of entries under keys, changed in place: what the handler and the worker use.\<close>

locale keyed_store =
  fixes lookup :: "'k \<Rightarrow> 's \<Rightarrow> 'v option"
    and modify :: "'k \<Rightarrow> ('v \<Rightarrow> 'v) \<Rightarrow> 's \<Rightarrow> bool \<times> 's"
    and discard :: "'k \<Rightarrow> 's \<Rightarrow> bool \<times> 's"
  assumes modify_found: "fst (modify k f s) = (lookup k s \<noteq> None)"
    and modify_lookup:
      "lookup j (snd (modify k f s)) = (if j = k then map_option f (lookup k s) else lookup j s)"
    and discard_found: "fst (discard k s) = (lookup k s \<noteq> None)"
    and discard_lookup: "lookup j (snd (discard k s)) = (if j = k then None else lookup j s)"
begin

lemma modify_absent: "lookup k s = None \<Longrightarrow> lookup j (snd (modify k f s)) = lookup j s"
  by (simp add: modify_lookup)

lemma modify_twice:
  "lookup j (snd (modify k g (snd (modify k f s)))) = lookup j (snd (modify k (g \<circ> f) s))"
  by (simp add: modify_lookup option.map_comp)

lemma modify_keeps_keys: "(lookup j (snd (modify k f s)) = None) = (lookup j s = None)"
  by (simp add: modify_lookup)

lemma discard_twice: "fst (discard k (snd (discard k s))) = False"
  by (simp add: discard_found discard_lookup)

lemma modify_preserves:
  "(\<And>v. g (f v) = g v) \<Longrightarrow> map_option g (lookup j (snd (modify k f s))) = map_option g (lookup j s)"
  by (simp add: modify_lookup option.map_comp comp_def)

end

section \<open>The registry provides the interfaces\<close>

lemma map_of_map_at:
  "map_of (map (\<lambda>(k, e). (k, if k = i then f e else e)) xs) j =
     (if j = i then map_option f (map_of xs j) else map_of xs j)"
  by (induction xs) auto

lemma map_of_filter_key:
  "map_of (filter (\<lambda>(k, e). k \<noteq> i) xs) j = (if j = i then None else map_of xs j)"
  by (induction xs) auto

interpretation ts: keyed_store getTask update_task removeTask
  by unfold_locales
    (auto simp: getTask_def update_task_def removeTask_def map_of_map_at map_of_filter_key
      split: option.split)

definition take_task :: "Tasker \<Rightarrow> task_id_t option \<times> Tasker" where
  "take_task T = (case waitForNextTask T of (Next k, T') \<Rightarrow> (k, T') | (Waiting, T') \<Rightarrow> (None, T'))"

lemma addTask_fields:
  "m_task_queue (snd (addTask now r T)) = m_task_queue T @ [fst (addTask now r T)]"
  "fst (addTask now r T) = m_next_task_counter T"
  "m_next_task_counter (snd (addTask now r T)) = m_next_task_counter T + 1"
  by (simp_all add: addTask_def fetch_id_def push_task_def emplace_task_def)

interpretation tq: fifo m_task_queue "\<lambda>(now, r). addTask now r" take_task
  by unfold_locales
    (auto simp: addTask_fields take_task_def waitForNextTask_def split: prod.split)

lemma addTask_get:
  "getTask k (snd (addTask now r T)) =
     (if k = m_next_task_counter T \<and> getTask k T = None then Some (Task_new now k r) else getTask k T)"
  by (auto simp: addTask_def fetch_id_def push_task_def emplace_task_def getTask_def)

lemma startTask_get: "getTask j (snd (startTask now k T)) =
    (if j = k then map_option (\<lambda>t. snd (markStarted now t)) (getTask k T) else getTask j T)"
  by (simp add: startTask_def ts.modify_lookup)

lemma completeTask_get: "getTask j (snd (completeTask now k s T)) =
    (if j = k then map_option (\<lambda>t. (snd (markCompleted now t))\<lparr>m_response := s\<rparr>) (getTask k T)
     else getTask j T)"
  by (simp add: completeTask_def ts.modify_lookup setResponse_def)

lemma failTask_get: "getTask j (snd (failTask now k s T)) =
    (if j = k then map_option (\<lambda>t. (snd (markFailed now t))\<lparr>m_response := s\<rparr>) (getTask k T)
     else getTask j T)"
  by (simp add: failTask_def ts.modify_lookup setResponse_def)

lemma removeTask_get: "getTask j (snd (removeTask k T)) = (if j = k then None else getTask j T)"
  by (rule ts.discard_lookup)

lemma map_of_filter_value:
  "distinct (map fst xs) \<Longrightarrow> map_of (filter (\<lambda>(k, e). P e) xs) j =
     (case map_of xs j of Some e \<Rightarrow> if P e then Some e else None | None \<Rightarrow> None)"
  by (induction xs) (auto simp: map_of_eq_None_iff image_iff split: option.split)

lemma sweep_get:
  "distinct (map fst (m_task_map T)) \<Longrightarrow> getTask j (sweepExpiredTasks now x T) =
     (case getTask j T of Some t \<Rightarrow> if isExpired now 300 t then None else Some t | None \<Rightarrow> None)"
  by (simp add: sweepExpiredTasks_def getTask_def map_of_filter_value split: option.split)

lemma wait_get: "getTask j (snd (waitForNextTask T)) = getTask j T"
  by (simp add: waitForNextTask_def getTask_def)

lemma stop_get: "getTask j (stop_tasker T) = getTask j T"
  by (simp add: stop_tasker_def getTask_def)

lemmas tasker_get = addTask_get startTask_get completeTask_get failTask_get removeTask_get
  wait_get stop_get

section \<open>Calls\<close>

datatype tasker_call =
    TAdd RapidRequest | TStart task_id_t | TComplete task_id_t string | TFail task_id_t string
  | TRemove task_id_t | TSweep int | TNext | TStop

fun tasker_apply :: "int \<Rightarrow> tasker_call \<Rightarrow> Tasker \<Rightarrow> Tasker" where
  "tasker_apply now (TAdd r) T = snd (addTask now r T)"
| "tasker_apply now (TStart k) T = snd (startTask now k T)"
| "tasker_apply now (TComplete k s) T = snd (completeTask now k s T)"
| "tasker_apply now (TFail k s) T = snd (failTask now k s T)"
| "tasker_apply now (TRemove k) T = snd (removeTask k T)"
| "tasker_apply now (TSweep x) T = sweepExpiredTasks now x T"
| "tasker_apply now TNext T = snd (waitForNextTask T)"
| "tasker_apply now TStop T = stop_tasker T"

text \<open>One call at a time of the steady clock, while the 64-bit counter has a number to give.\<close>

inductive tasker_step :: "int \<times> Tasker \<Rightarrow> int \<times> Tasker \<Rightarrow> bool" where
  tasker_call: "now \<le> now' \<Longrightarrow> unat (m_next_task_counter T) < 2 ^ 64 - 1 \<Longrightarrow>
    tasker_step (now, T) (now', tasker_apply now' c T)"

text \<open>The only changes of state a call makes.\<close>

fun lifecycle :: "TaskState \<Rightarrow> TaskState \<Rightarrow> bool" where
  "lifecycle PENDING IN_PROGRESS = True"
| "lifecycle IN_PROGRESS COMPLETED = True"
| "lifecycle IN_PROGRESS FAILED = True"
| "lifecycle a b = (a = b)"

definition task_ids_ok :: "Tasker \<Rightarrow> bool" where
  "task_ids_ok T \<longleftrightarrow>
     distinct (map fst (m_task_map T)) \<and>
     (\<forall>k t. getTask k T = Some t \<longrightarrow> m_id t = k \<and> unat k < unat (m_next_task_counter T)) \<and>
     sorted_wrt (\<lambda>a b. unat a < unat b) (m_task_queue T) \<and>
     (\<forall>k \<in> set (m_task_queue T). unat k < unat (m_next_task_counter T))"

definition task_times_ok :: "int \<Rightarrow> Task \<Rightarrow> bool" where
  "task_times_ok now t \<longleftrightarrow>
     m_created_time t \<le> now \<and>
     (m_state t \<noteq> PENDING \<longrightarrow> m_created_time t \<le> m_start_time t \<and> m_start_time t \<le> now) \<and>
     (m_state t \<in> {COMPLETED, FAILED} \<longrightarrow> m_start_time t \<le> m_end_time t \<and> m_end_time t \<le> now)"

fun tasker_inv :: "int \<times> Tasker \<Rightarrow> bool" where
  "tasker_inv (now, T) \<longleftrightarrow>
     task_ids_ok T \<and> (\<forall>k t. getTask k T = Some t \<longrightarrow> task_times_ok now t)"

lemmas mark_defs = markStarted_def markCompleted_def markFailed_def

lemma counter_next:
  "unat (m_next_task_counter T) < 2 ^ 64 - 1 \<Longrightarrow>
     unat (m_next_task_counter T + 1) = unat (m_next_task_counter T) + 1"
  by (simp add: unat_word_ariths)

lemma update_task_keys: "map fst (m_task_map (snd (update_task k f T))) = map fst (m_task_map T)"
  by (auto simp: update_task_def split: option.split)

lemma update_task_rest:
  "m_task_queue (snd (update_task k f T)) = m_task_queue T"
  "m_next_task_counter (snd (update_task k f T)) = m_next_task_counter T"
  by (auto simp: update_task_def split: option.split)

lemma update_calls:
  "fst (startTask now k T) = (getTask k T \<noteq> None)"
  "fst (completeTask now k s T) = (getTask k T \<noteq> None)"
  "fst (failTask now k s T) = (getTask k T \<noteq> None)"
  "m_task_queue (snd (startTask now k T)) = m_task_queue T"
  "m_task_queue (snd (completeTask now k s T)) = m_task_queue T"
  "m_task_queue (snd (failTask now k s T)) = m_task_queue T"
  by (simp_all add: startTask_def completeTask_def failTask_def ts.modify_found update_task_rest)

lemma update_ids_ok:
  "task_ids_ok T \<Longrightarrow> (\<And>t. m_id (f t) = m_id t) \<Longrightarrow> task_ids_ok (snd (update_task k f T))"
  by (auto simp: task_ids_ok_def update_task_keys update_task_rest ts.modify_lookup split: if_splits)

lemma remove_rest:
  "m_task_queue (snd (removeTask k T)) = m_task_queue T"
  "m_next_task_counter (snd (removeTask k T)) = m_next_task_counter T"
  "distinct (map fst (m_task_map T)) \<Longrightarrow> distinct (map fst (m_task_map (snd (removeTask k T))))"
  by (auto simp: removeTask_def distinct_map_filter split: option.split)

lemma remove_ids_ok: "task_ids_ok T \<Longrightarrow> task_ids_ok (snd (removeTask k T))"
  by (auto simp: task_ids_ok_def remove_rest removeTask_get split: if_splits)

lemma sweep_rest:
  "m_task_queue (sweepExpiredTasks now x T) = m_task_queue T"
  "m_next_task_counter (sweepExpiredTasks now x T) = m_next_task_counter T"
  "m_shutdown (sweepExpiredTasks now x T) = m_shutdown T"
  "distinct (map fst (m_task_map T)) \<Longrightarrow>
     distinct (map fst (m_task_map (sweepExpiredTasks now x T)))"
  by (simp_all add: sweepExpiredTasks_def distinct_map_filter)

lemma sweep_ids_ok: "task_ids_ok T \<Longrightarrow> task_ids_ok (sweepExpiredTasks now x T)"
  by (auto simp: task_ids_ok_def sweep_get sweep_rest split: option.splits if_splits)

lemma wait_ids_ok: "task_ids_ok T \<Longrightarrow> task_ids_ok (snd (waitForNextTask T))"
  unfolding task_ids_ok_def wait_get
  by (cases "m_task_queue T") (auto simp: waitForNextTask_def)

lemma stop_ids_ok: "task_ids_ok T \<Longrightarrow> task_ids_ok (stop_tasker T)"
  unfolding task_ids_ok_def stop_get by (simp add: stop_tasker_def)

lemma add_ids_ok:
  assumes "task_ids_ok T" and "unat (m_next_task_counter T) < 2 ^ 64 - 1"
  shows "task_ids_ok (snd (addTask now r T))"
proof -
  have fresh: "map_of (m_task_map T) (m_next_task_counter T) = None"
  proof (cases "map_of (m_task_map T) (m_next_task_counter T)")
    case (Some t)
    then have "unat (m_next_task_counter T) < unat (m_next_task_counter T)"
      using assms(1) unfolding task_ids_ok_def getTask_def by blast
    then show ?thesis by simp
  qed
  have "m_task_map (snd (addTask now r T)) =
      (m_next_task_counter T, Task_new now (m_next_task_counter T) r) # m_task_map T"
    using fresh by (simp add: addTask_def fetch_id_def push_task_def emplace_task_def)
  moreover have "m_next_task_counter T \<notin> fst ` set (m_task_map T)"
    using fresh by (simp add: map_of_eq_None_iff)
  moreover have "unat k < unat (m_next_task_counter T) + 1"
    if "getTask k T = Some t" for k t
    using that assms(1) by (fastforce simp: task_ids_ok_def)
  ultimately show ?thesis
    using assms(1) counter_next [OF assms(2)]
    by (auto simp: task_ids_ok_def addTask_get addTask_fields Task_new_def sorted_wrt_append
        less_Suc_eq split: if_splits)
qed

section \<open>The invariant holds in every reachable registry\<close>

lemma task_times_later: "task_times_ok now t \<Longrightarrow> now \<le> now' \<Longrightarrow> task_times_ok now' t"
  by (auto simp: task_times_ok_def)

lemma mark_times:
  assumes "task_times_ok now t"
  shows "task_times_ok now (snd (markStarted now t))"
    and "task_times_ok now (snd (markCompleted now t))"
    and "task_times_ok now (snd (markFailed now t))"
    and "task_times_ok now (t\<lparr>m_response := s\<rparr>)"
  using assms by (auto simp: task_times_ok_def mark_defs)

lemma mark_id [simp]:
  "m_id (snd (markStarted now t)) = m_id t"
  "m_id (snd (markCompleted now t)) = m_id t"
  "m_id (snd (markFailed now t)) = m_id t"
  by (simp_all add: mark_defs)

lemma task_times_new: "task_times_ok now (Task_new now k r)"
  by (simp add: task_times_ok_def Task_new_def)

lemma apply_ids_ok:
  "task_ids_ok T \<Longrightarrow> unat (m_next_task_counter T) < 2 ^ 64 - 1 \<Longrightarrow>
     task_ids_ok (tasker_apply now c T)"
  by (cases c)
    (auto simp: startTask_def completeTask_def failTask_def setResponse_def
      intro: add_ids_ok update_ids_ok remove_ids_ok sweep_ids_ok wait_ids_ok stop_ids_ok)

lemma apply_times_ok:
  assumes ids: "task_ids_ok T" and times: "\<And>k t. getTask k T = Some t \<Longrightarrow> task_times_ok now t"
    and get: "getTask k (tasker_apply now c T) = Some t"
  shows "task_times_ok now t"
proof -
  have "distinct (map fst (m_task_map T))" using ids by (simp add: task_ids_ok_def)
  with times get show ?thesis
    by (cases c)
      (auto simp: tasker_get sweep_get task_times_new mark_times split: if_splits option.splits)
qed

interpretation tk: invariant_of "\<lambda>s. \<exists>now. s = (now, Tasker_default)" tasker_step tasker_inv
proof unfold_locales
  fix s :: "int \<times> Tasker"
  assume "\<exists>now. s = (now, Tasker_default)"
  then show "tasker_inv s" by (auto simp: task_ids_ok_def getTask_def Tasker_default_def)
next
  fix s t
  assume "tasker_step s t" and inv: "tasker_inv s"
  then show "tasker_inv t"
  proof (cases rule: tasker_step.cases)
    case (tasker_call now now' T c)
    from inv tasker_call have "task_ids_ok T"
      and "\<And>k u. getTask k T = Some u \<Longrightarrow> task_times_ok now' u"
      by (auto intro: task_times_later)
    with tasker_call show ?thesis by (auto intro: apply_ids_ok apply_times_ok)
  qed
qed

lemma duration_cast_nonneg: "0 < k \<Longrightarrow> 0 \<le> a \<Longrightarrow> 0 \<le> duration_cast k a"
  by (auto simp: duration_cast_def sgn_if pos_imp_zdiv_nonneg_iff)

lemma duration_cast_mono:
  "0 < k \<Longrightarrow> 0 \<le> a \<Longrightarrow> a \<le> b \<Longrightarrow> duration_cast k a \<le> duration_cast k b"
  by (auto simp: duration_cast_def sgn_if pos_imp_zdiv_nonneg_iff intro: zdiv_mono1)

lemma task_durations:
  "task_times_ok now t \<Longrightarrow> 0 \<le> getExecutionTime t \<and> getExecutionTime t \<le> getLatency t"
  unfolding getExecutionTime_def getLatency_def
  by (cases "m_state t")
    (simp_all add: task_times_ok_def duration_cast_nonneg duration_cast_mono)

lemma apply_task:
  assumes "distinct (map fst (m_task_map T))" and "getTask k T = Some t"
  shows "case getTask k (tasker_apply now c T) of
      None \<Rightarrow> c = TRemove k \<or> (\<exists>x. c = TSweep x \<and> isExpired now 300 t)
    | Some t' \<Rightarrow> lifecycle (m_state t) (m_state t') \<and> m_id t' = m_id t \<and> m_request t' = m_request t \<and>
        m_created_time t' = m_created_time t"
proof -
  have "lifecycle a a" for a by (cases a) simp_all
  with assms show ?thesis
    by (cases c) (auto simp: tasker_get sweep_get mark_defs split: option.split)
qed

section \<open>Properties\<close>

text \<open>
  In every state the registry can reach, an entry is filed under its own number, that number
  has been drawn, and the entry's time stamps are ordered (created, started, ended, none later
  than the clock); its execution time is never negative and never exceeds its latency.
\<close>

lemma tasker_reachable:
  assumes "reach (\<lambda>s. \<exists>now. s = (now, Tasker_default)) tasker_step (now, T)"
    and "getTask k T = Some t"
  shows "m_id t = k \<and> unat k < unat (m_next_task_counter T) \<and> task_times_ok now t \<and>
    0 \<le> getExecutionTime t \<and> getExecutionTime t \<le> getLatency t"
proof -
  have "tasker_inv (now, T)" using assms(1) by (rule tk.reach_inv)
  with assms(2) have "m_id t = k" "unat k < unat (m_next_task_counter T)" "task_times_ok now t"
    by (auto simp: task_ids_ok_def)
  then show ?thesis using task_durations by blast
qed

lemma tasker_reachable_witness:
  "m_state (Task_new 0 1 zero_request) = PENDING \<and> getExecutionTime (Task_new 0 1 zero_request) \<le> 0"
proof -
  have "tasker_step (0, Tasker_default) (0, tasker_apply 0 (TAdd zero_request) Tasker_default)"
    by (rule tasker_step.intros) (simp_all add: Tasker_default_def)
  then have "reach (\<lambda>s. \<exists>now. s = (now, Tasker_default)) tasker_step
      (0, tasker_apply 0 (TAdd zero_request) Tasker_default)"
    by (rule reach_step [rotated]) (auto intro: reach_start)
  moreover have "getTask 1 (tasker_apply 0 (TAdd zero_request) Tasker_default) =
      Some (Task_new 0 1 zero_request)"
    by (simp add: addTask_get) (simp add: Tasker_default_def getTask_def)
  ultimately have "getExecutionTime (Task_new 0 1 zero_request) \<le> getLatency (Task_new 0 1 zero_request)"
    using tasker_reachable by blast
  then show ?thesis by (simp add: getLatency_def Task_new_def)
qed

text \<open>
  C27. A call on the registry changes a registered task only along its life cycle
  (\<open>PENDING\<close>, \<open>IN_PROGRESS\<close>, then \<open>COMPLETED\<close> or \<open>FAILED\<close>, never back and never skipping a state),
  never its number, its request or its creation time; and it forgets the task only on an explicit
  removal or on a sweep at least 300 seconds after the task ended, so that a task that has not
  ended is never swept.
\<close>

theorem tasker_lifecycle:
  assumes "tasker_inv (past, T)" and "getTask k T = Some t"
  shows "case getTask k (tasker_apply now c T) of
      None \<Rightarrow> c = TRemove k \<or>
        (\<exists>x. c = TSweep x \<and> m_state t \<in> {COMPLETED, FAILED} \<and> m_end_time t + 300000000000 \<le> now)
    | Some t' \<Rightarrow> lifecycle (m_state t) (m_state t') \<and> m_id t' = m_id t \<and>
        m_request t' = m_request t \<and> m_created_time t' = m_created_time t"
proof -
  have expired: "m_state t \<in> {COMPLETED, FAILED} \<and> m_end_time t + 300000000000 \<le> now"
    if "isExpired now 300 t"
  proof -
    from that have "\<not> unfinished t" and "300 \<le> duration_cast 1000000000 (now - m_end_time t)"
      by (auto simp: isExpired_def split: if_splits)
    then show ?thesis
      by (cases "m_state t") (auto simp: duration_cast_def sgn_if split: if_splits)
  qed
  have "distinct (map fst (m_task_map T))" using assms(1) by (simp add: task_ids_ok_def)
  from apply_task [OF this assms(2), where now = now and c = c] show ?thesis
    by (auto split: option.splits dest: expired)
qed

lemma tasker_lifecycle_witness:
  "getTask 1 (tasker_apply 9 (TFail 1 ''x'') (snd (addTask 0 zero_request Tasker_default))) \<noteq> None"
proof -
  have "tasker_step (0, Tasker_default) (0, tasker_apply 0 (TAdd zero_request) Tasker_default)"
    by (rule tasker_step.intros) (simp_all add: Tasker_default_def)
  moreover have "tasker_inv (0, Tasker_default)" by (rule tk.inv_start) simp
  ultimately have "tasker_inv (0, snd (addTask 0 zero_request Tasker_default))"
    using tk.inv_step by fastforce
  moreover have "getTask 1 (snd (addTask 0 zero_request Tasker_default)) =
      Some (Task_new 0 1 zero_request)"
    by (simp add: addTask_get) (simp add: Tasker_default_def getTask_def)
  ultimately show ?thesis
    using tasker_lifecycle [where past = 0 and T = "snd (addTask 0 zero_request Tasker_default)" and k = 1
        and t = "Task_new 0 1 zero_request" and now = 9 and c = "TFail 1 ''x''"]
    by (auto split: option.splits)
qed

lemma fifo_run_length: "fifo_run put nxt cs s = (ins, outs, t) \<Longrightarrow> length ins \<le> length cs"
  by (induction put nxt cs s arbitrary: ins outs t rule: fifo_run.induct)
    (auto split: prod.splits option.splits intro: le_SucI)

lemma add_run_ids:
  assumes "fifo_run (\<lambda>(now, r). addTask now r) take_task cs T = (ins, outs, T')"
    and "task_ids_ok T" and "unat (m_next_task_counter T) + length cs < 2 ^ 64"
  shows "task_ids_ok T' \<and> (\<forall>i < length ins. ins ! i = m_next_task_counter T + of_nat i)"
  using assms
proof (induction cs arbitrary: T ins outs)
  case Nil
  then show ?case by simp
next
  case (Cons c cs)
  note IH = Cons.IH and run = Cons.prems(1) and ids = Cons.prems(2) and bound = Cons.prems(3)
  show ?case
  proof (cases c)
    case (Put nr)
    obtain now r where nr: "nr = (now, r)" by (cases nr)
    let ?S = "snd (addTask now r T)"
    obtain ins' outs' where
      rest: "fifo_run (\<lambda>(now, r). addTask now r) take_task cs ?S = (ins', outs', T')"
      and ins: "ins = m_next_task_counter T # ins'"
      using run Put nr addTask_fields [where now = now and r = r and T = T]
      by (auto split: prod.splits)
    have lt: "unat (m_next_task_counter T) < 2 ^ 64 - 1" using bound by simp
    have "unat (m_next_task_counter ?S) + length cs < 2 ^ 64"
      using bound counter_next [OF lt] by (simp add: addTask_fields)
    with IH [OF rest add_ids_ok [OF ids lt]]
    have "task_ids_ok T'" "\<forall>i < length ins'. ins' ! i = m_next_task_counter T + 1 + of_nat i"
      by (simp_all add: addTask_fields)
    then show ?thesis
      unfolding ins by (auto simp: less_Suc_eq_0_disj add_ac)
  next
    case Take
    let ?S = "snd (take_task T)"
    have same: "m_next_task_counter ?S = m_next_task_counter T" "task_ids_ok ?S"
      using wait_ids_ok [OF ids]
      by (auto simp: take_task_def waitForNextTask_def split: prod.splits wait_result.splits if_splits)
    obtain outs' where rest: "fifo_run (\<lambda>(now, r). addTask now r) take_task cs ?S = (ins, outs', T')"
      using run Take by (auto split: prod.splits option.splits)
    show ?thesis
      using IH [OF rest same(2)] bound same(1) by simp
  qed
qed

text \<open>
  The server's task queue under any interleaving of submissions and of the worker's removals:
  the numbers given out are consecutive, they leave the queue in the order in which they went in,
  none twice and none lost (what went in is what came out and what is still queued), so the
  sequence of numbers the worker takes is strictly increasing.
\<close>

lemma task_queue_order:
  assumes "fifo_run (\<lambda>(now, r). addTask now r) take_task cs T = (ins, outs, T')"
    and "task_ids_ok T" and "m_task_queue T = []"
    and "unat (m_next_task_counter T) + length cs < 2 ^ 64"
  shows "ins = outs @ m_task_queue T' \<and>
    (\<forall>i < length ins. unat (ins ! i) = unat (m_next_task_counter T) + i)"
proof -
  have split: "ins = outs @ m_task_queue T'"
    using tq.fifo_order [OF assms(1)] assms(3) by simp
  have le: "length ins \<le> length cs" using assms(1) by (rule fifo_run_length)
  have "unat (ins ! i) = unat (m_next_task_counter T) + i" if "i < length ins" for i
  proof -
    have "ins ! i = m_next_task_counter T + of_nat i"
      using that add_run_ids [OF assms(1,2,4)] by simp
    moreover have "unat (m_next_task_counter T) + i < 2 ^ 64" using that le assms(4) by simp
    ultimately show ?thesis by (simp add: unat_word_ariths unat_of_nat take_bit_eq_mod)
  qed
  with split show ?thesis by blast
qed

lemma task_queue_order_witness:
  "\<exists>T'. fifo_run (\<lambda>(now, r). addTask now r) take_task
      [Put (0, zero_request), Take, Put (5, zero_request), Put (5, zero_request), Take] Tasker_default
    = ([1, 2, 3], [1, 2], T') \<and> m_task_queue T' = [3]"
proof -
  let ?cs = "[Put (0, zero_request), Take, Put (5, zero_request), Put (5, zero_request), Take]"
  have "\<exists>T'. fifo_run (\<lambda>(now, r). addTask now r) take_task ?cs Tasker_default = ([1, 2, 3], [1, 2], T')"
    by (simp add: addTask_def fetch_id_def emplace_task_def push_task_def take_task_def
        waitForNextTask_def Tasker_default_def)
  then obtain T' where
    "fifo_run (\<lambda>(now, r). addTask now r) take_task ?cs Tasker_default = ([1, 2, 3], [1, 2], T')"
    by blast
  then show ?thesis
    using task_queue_order [of ?cs Tasker_default "[1, 2, 3]" "[1, 2]" T']
    by (auto simp: task_ids_ok_def getTask_def Tasker_default_def)
qed

text \<open>
  A submitted task makes the round the server means it to make: with nothing else queued, the
  number that \<^verbatim>\<open>addTask\<close> returned is the one the worker gets next, a client polling it
  before sees it \<open>PENDING\<close>, and after start and completion it reads back the original request, the
  response, the three clock readings and \<open>COMPLETED\<close>; no other task is touched.
\<close>

lemma task_round_trip:
  assumes "task_ids_ok T" and "m_task_queue T = []" and "unat (m_next_task_counter T) < 2 ^ 64 - 1"
    and "addTask t0 r T = (k, T1)" and "waitForNextTask T1 = (Next (Some k'), T2)"
    and "startTask t1 k T2 = (ok1, T3)" and "completeTask t2 k resp T3 = (ok2, T4)"
  shows "k' = k \<and> ok1 \<and> ok2 \<and> map_option m_state (getTask k T1) = Some PENDING \<and>
    getTask k T4 = Some \<lparr>m_id = k, m_state = COMPLETED, m_request = r, m_created_time = t0,
      m_start_time = t1, m_end_time = t2, m_response = resp\<rparr> \<and>
    (\<forall>j. j \<noteq> k \<longrightarrow> getTask j T4 = getTask j T) \<and> m_task_queue T4 = []"
proof -
  have k: "k = m_next_task_counter T" "T1 = snd (addTask t0 r T)"
    using addTask_fields(2) [of t0 r T] assms(4) by simp_all
  have "getTask k T = None"
    using assms(1) unfolding k(1) task_ids_ok_def by (metis less_irrefl not_None_eq)
  then have T1: "getTask j T1 = (if j = k then Some (Task_new t0 k r) else getTask j T)" for j
    unfolding k(2) by (auto simp: addTask_get k(1))
  have q: "m_task_queue T1 = [k]" using assms(2) by (simp add: k addTask_fields)
  then have T2: "k' = k" "m_task_queue T2 = []" "getTask j T2 = getTask j T1" for j
    using assms(5) wait_get [of j T1] by (auto simp: waitForNextTask_def)
  have T3: "ok1 = (getTask k T2 \<noteq> None)" "m_task_queue T3 = m_task_queue T2"
    "getTask j T3 = (if j = k then map_option (\<lambda>t. snd (markStarted t1 t)) (getTask k T2)
       else getTask j T2)" for j
    using startTask_get [of j t1 k T2] update_calls(1,4) [of t1 k T2] assms(6) by simp_all
  have T4: "ok2 = (getTask k T3 \<noteq> None)" "m_task_queue T4 = m_task_queue T3"
    "getTask j T4 = (if j = k then
        map_option (\<lambda>t. (snd (markCompleted t2 t))\<lparr>m_response := resp\<rparr>) (getTask k T3)
       else getTask j T3)" for j
    using completeTask_get [of j t2 k resp T3] update_calls(2,5) [of t2 k resp T3] assms(7)
    by simp_all
  show ?thesis
    by (auto simp: T1 T2 T3 T4 Task_new_def markStarted_def markCompleted_def)
qed

lemma task_round_trip_witness:
  "\<exists>T4 k. getTask k T4 = Some \<lparr>m_id = k, m_state = COMPLETED, m_request = zero_request,
     m_created_time = 2, m_start_time = 3, m_end_time = 5, m_response = ''+''\<rparr> \<and> k = 1"
proof -
  let ?T = Tasker_default
  obtain k T1 where 1: "addTask 2 zero_request ?T = (k, T1)" by fastforce
  then have k: "k = 1" "m_task_queue T1 = [1]"
    using addTask_fields [of 2 zero_request ?T] by (simp_all add: Tasker_default_def)
  obtain T2 where 2: "waitForNextTask T1 = (Next (Some 1), T2)"
    using k by (simp add: waitForNextTask_def)
  obtain ok1 T3 where 3: "startTask 3 k T2 = (ok1, T3)" by fastforce
  obtain ok2 T4 where 4: "completeTask 5 k ''+'' T3 = (ok2, T4)" by fastforce
  have "task_ids_ok ?T" "m_task_queue ?T = []" "unat (m_next_task_counter ?T) < 2 ^ 64 - 1"
    by (simp_all add: task_ids_ok_def getTask_def Tasker_default_def)
  from task_round_trip [OF this 1 2 3 4] k show ?thesis by blast
qed

text \<open>The answers of \<open>n\<close> successive calls of \<^verbatim>\<open>waitForNextTask\<close> by the worker.\<close>

fun waits :: "nat \<Rightarrow> Tasker \<Rightarrow> wait_result list" where
  "waits 0 T = []"
| "waits (Suc n) T = (case waitForNextTask T of (w, T') \<Rightarrow> w # waits n T')"

lemma wait_first:
  "m_task_queue T = k # ks \<Longrightarrow> waitForNextTask T = (Next (Some k), T\<lparr>m_task_queue := ks\<rparr>)"
  by (simp add: waitForNextTask_def)

lemma waits_drain:
  "waits (length (m_task_queue T)) T = map (\<lambda>k. Next (Some k)) (m_task_queue T)"
proof (induction "m_task_queue T" arbitrary: T)
  case (Cons k ks)
  from Cons.hyps(1) [of "T\<lparr>m_task_queue := ks\<rparr>"] Cons.hyps(2) [symmetric] show ?case
    by (simp add: wait_first)
qed simp

lemma waits_after_stop:
  "m_shutdown T \<Longrightarrow> waits (length (m_task_queue T) + n) T =
     map (\<lambda>k. Next (Some k)) (m_task_queue T) @ replicate n (Next None)"
proof (induction "m_task_queue T" arbitrary: T)
  case Nil
  then have "waitForNextTask T = (Next None, T)" by (simp add: waitForNextTask_def)
  then have "waits n T = replicate n (Next None)" by (induction n) simp_all
  with Nil show ?case by simp
next
  case (Cons k ks)
  let ?T = "T\<lparr>m_task_queue := ks\<rparr>"
  from Cons.hyps(2) [symmetric] have "waitForNextTask T = (Next (Some k), ?T)"
    by (simp add: wait_first)
  with Cons.hyps(1) [of ?T] Cons.prems Cons.hyps(2) [symmetric] show ?case by simp
qed

text \<open>
  Shutting the registry down loses no submitted task and leaves no waiter behind: after
  \<^verbatim>\<open>stop()\<close> the worker's calls of \<^verbatim>\<open>waitForNextTask\<close> all return, first every
  queued task in order, then \<^verbatim>\<open>nullopt\<close> for ever; without it, the same calls return the
  queued tasks and the next one waits.
\<close>

lemma stop_drains_queue:
  "waits (length (m_task_queue T) + n) (stop_tasker T) =
     map (\<lambda>k. Next (Some k)) (m_task_queue T) @ replicate n (Next None) \<and>
   (m_shutdown T \<or> fst (waitForNextTask (T\<lparr>m_task_queue := []\<rparr>)) = Waiting) \<and>
   waits (length (m_task_queue T)) T = map (\<lambda>k. Next (Some k)) (m_task_queue T)"
  using waits_after_stop [of "stop_tasker T" n]
  by (simp add: waits_drain) (simp add: stop_tasker_def waitForNextTask_def)

text \<open>
  \<^verbatim>\<open>completeTask\<close> and \<^verbatim>\<open>failTask\<close> on a task that is not in progress answer
  \<^verbatim>\<open>true\<close> and leave its state and times alone, yet replace its response: a task that has
  ended can still change what a polling client reads.
\<close>

lemma late_response_overwrites:
  assumes "getTask k T = Some t" and "m_state t \<noteq> IN_PROGRESS"
  shows "fst (completeTask now k s T) \<and> fst (failTask now k s T) \<and>
    getTask k (snd (completeTask now k s T)) = Some (t\<lparr>m_response := s\<rparr>) \<and>
    getTask k (snd (failTask now k s T)) = Some (t\<lparr>m_response := s\<rparr>)"
  using assms
  by (simp add: completeTask_get failTask_get markCompleted_def markFailed_def update_calls)

section \<open>Atomicity of adding a task\<close>

text \<open>
  Calls of other threads while \<^verbatim>\<open>addTask\<close> is under way: any call but another
  \<^verbatim>\<open>addTask\<close> (there is one request thread) that does not name the new number, which
  nobody else has yet.
\<close>

fun other_call :: "task_id_t \<Rightarrow> tasker_call \<Rightarrow> bool" where
  "other_call k (TAdd r) = False"
| "other_call k (TStart j) = (j \<noteq> k)"
| "other_call k (TComplete j s) = (j \<noteq> k)"
| "other_call k (TFail j s) = (j \<noteq> k)"
| "other_call k (TRemove j) = (j \<noteq> k)"
| "other_call k c = True"

definition run_calls :: "(int \<times> tasker_call) list \<Rightarrow> Tasker \<Rightarrow> Tasker" where
  "run_calls cs T = fold (\<lambda>(now, c). tasker_apply now c) cs T"

lemma apply_other_counter:
  "other_call k c \<Longrightarrow> tasker_apply now c (T\<lparr>m_next_task_counter := n\<rparr>) =
     (tasker_apply now c T)\<lparr>m_next_task_counter := n\<rparr>"
  by (cases c) (auto simp: startTask_def completeTask_def failTask_def update_task_def removeTask_def
      sweepExpiredTasks_def waitForNextTask_def stop_tasker_def split: option.split)

lemma apply_other_entry:
  "other_call k c \<Longrightarrow> m_state e = PENDING \<Longrightarrow>
     tasker_apply now c (T\<lparr>m_task_map := (k, e) # m_task_map T\<rparr>) =
     (tasker_apply now c T)\<lparr>m_task_map := (k, e) # m_task_map (tasker_apply now c T)\<rparr>"
  by (cases c) (auto simp: startTask_def completeTask_def failTask_def update_task_def removeTask_def
      sweepExpiredTasks_def waitForNextTask_def stop_tasker_def isExpired_def split: option.split)

lemma sweep_absent: "getTask k T = None \<Longrightarrow> getTask k (sweepExpiredTasks now x T) = None"
  by (auto simp: sweepExpiredTasks_def getTask_def map_of_eq_None_iff image_iff)

lemma apply_other_absent:
  "other_call k c \<Longrightarrow> getTask k T = None \<Longrightarrow> getTask k (tasker_apply now c T) = None"
  by (cases c) (simp_all add: tasker_get sweep_absent)

lemma apply_other_drawn:
  "other_call k c \<Longrightarrow> m_next_task_counter (tasker_apply now c T) = m_next_task_counter T"
  by (cases c) (simp_all add: startTask_def completeTask_def failTask_def update_task_rest
      removeTask_def sweepExpiredTasks_def waitForNextTask_def stop_tasker_def split: option.split)

lemmas apply_other = apply_other_counter apply_other_entry apply_other_absent apply_other_drawn

lemma run_other:
  assumes "\<forall>(now, c) \<in> set cs. other_call k c"
  shows "run_calls cs (T\<lparr>m_next_task_counter := n\<rparr>) = (run_calls cs T)\<lparr>m_next_task_counter := n\<rparr>"
    and "m_state e = PENDING \<Longrightarrow> run_calls cs (T\<lparr>m_task_map := (k, e) # m_task_map T\<rparr>) =
      (run_calls cs T)\<lparr>m_task_map := (k, e) # m_task_map (run_calls cs T)\<rparr>"
    and "getTask k T = None \<Longrightarrow> getTask k (run_calls cs T) = None"
    and "m_next_task_counter (run_calls cs T) = m_next_task_counter T"
  using assms
  by (induction cs arbitrary: T)
    (auto simp: run_calls_def apply_other)

text \<open>
  C30. Adding a task is atomic although it takes three locks in turn: whatever other threads do to the
  registry between the drawing of the number, the registration and the queueing, the final registry
  is exactly the one of a single uninterrupted \<^verbatim>\<open>addTask\<close> after those calls, and the
  number returned is the same.
\<close>

theorem addTask_linearizes:
  assumes "getTask k T = None" and "fetch_id T = (k, T1)"
    and "T2 = emplace_task now k r (run_calls cs1 T1)"
    and "T3 = push_task k (run_calls cs2 T2)"
    and "\<forall>(now, c) \<in> set (cs1 @ cs2). other_call k c"
  shows "addTask now r (run_calls (cs1 @ cs2) T) = (k, T3)"
proof -
  let ?n = "k + 1" and ?e = "Task_new now k r" and ?A = "run_calls cs1 T"
  have cs: "\<forall>(now, c) \<in> set cs1. other_call k c" "\<forall>(now, c) \<in> set cs2. other_call k c"
    using assms(5) by auto
  have k: "k = m_next_task_counter T" and T1: "T1 = T\<lparr>m_next_task_counter := ?n\<rparr>"
    using assms(2) by (auto simp: fetch_id_def)
  have both: "run_calls (cs1 @ cs2) T = run_calls cs2 ?A" by (simp add: run_calls_def)
  have new: "m_state ?e = PENDING" by (simp add: Task_new_def)
  have none: "getTask k ?A = None" "getTask k (run_calls cs2 ?A) = None"
    using run_other(3) [OF cs(1) assms(1)] run_other(3) [OF cs(2)] by blast+
  have "run_calls cs1 T1 = ?A\<lparr>m_next_task_counter := ?n\<rparr>" unfolding T1 by (rule run_other(1) [OF cs(1)])
  with none(1) have T2: "T2 = ?A\<lparr>m_next_task_counter := ?n,
      m_task_map := (k, ?e) # m_task_map (?A\<lparr>m_next_task_counter := ?n\<rparr>)\<rparr>"
    by (simp add: assms(3) emplace_task_def getTask_def)
  have "run_calls cs2 T2 = (run_calls cs2 ?A)
      \<lparr>m_next_task_counter := ?n, m_task_map := (k, ?e) # m_task_map (run_calls cs2 ?A)\<rparr>"
    unfolding T2 by (simp only: run_other(2) [OF cs(2) new] run_other(1) [OF cs(2)]) simp
  moreover have "m_next_task_counter (run_calls cs2 ?A) = k"
    using run_other(4) [OF cs(1)] run_other(4) [OF cs(2)] by (simp add: k)
  ultimately show ?thesis
    using none(2) unfolding both assms(4)
    by (simp add: addTask_def fetch_id_def emplace_task_def push_task_def getTask_def)
qed

theorem addTask_linearizes_witness:
  "fst (addTask 5 zero_request (run_calls [(4, TSweep 300), (6, TNext), (7, TStop)] Tasker_default)) = 1"
proof -
  have "getTask 1 Tasker_default = None" "fetch_id Tasker_default = (1, Tasker_default\<lparr>m_next_task_counter := 2\<rparr>)"
    by (simp_all add: getTask_def fetch_id_def Tasker_default_def)
  from addTask_linearizes [OF this refl refl, of "[(4, TSweep 300)]" "[(6, TNext), (7, TStop)]" 5 zero_request]
  show ?thesis by simp
qed

end
