(* ===== verification/Decoder.thy ===== *)
theory Decoder
  imports Commands
begin

text \<open>
  The protobuf boundary of \<^verbatim>\<open>src/commands/decoder.cpp\<close>: client requests into
  \<open>DecodedRequest\<close>, and the controller's telemetry bytes into a robot status.

  The schema is generated from a git submodule that is not part of the sources. What the code
  uses of it are parameters: the parser is an argument, the numbers of the enumerators are the
  records \<open>ProtoCommands\<close> and \<open>ProtoZones\<close>, and a message is the record of the values its
  accessors return (an accessor of an unset sub-message returns the default instance; a message
  field with a \<^verbatim>\<open>has_\<close> test is an option). Setters of a status fill a record.
\<close>

section \<open>Interface of the generated messages\<close>

record ProtoCommands =
  P_MOVEL :: int
  P_MOVEJ :: int
  P_MOVEC :: int
  P_MOVEABSJ :: int
  P_SETSPEED :: int
  P_SETZONE :: int
  P_EXIT :: int
  P_PING :: int
  P_PINGR :: int
  P_ZERO :: int
  P_GETSTATUS :: int
  P_CHECKTASK :: int
  P_LOGIN :: int
  P_LOGOUT :: int
  P_ACQUIRE :: int
  P_RELEASE :: int
  P_MOVEL_OFFS :: int
  P_MOVEJ_OFFS :: int

record ProtoZones =
  PZ_FINE :: int
  PZ_Z1 :: int
  PZ_Z5 :: int
  PZ_Z10 :: int
  PZ_Z15 :: int
  PZ_Z20 :: int
  PZ_Z30 :: int

record PbPosition =
  pb_x :: float32
  pb_y :: float32
  pb_z :: float32

record PbOrientation =
  pb_q1 :: float32
  pb_q2 :: float32
  pb_q3 :: float32
  pb_q4 :: float32

record PbConfData =
  pb_cf1 :: i32
  pb_cf4 :: i32
  pb_cf6 :: i32
  pb_cfx :: u32

record PbExtJoint =
  eax_a :: float32
  eax_b :: float32
  eax_c :: float32
  eax_d :: float32
  eax_e :: float32
  eax_f :: float32

record PbRobJoint =
  rax_1 :: float32
  rax_2 :: float32
  rax_3 :: float32
  rax_4 :: float32
  rax_5 :: float32
  rax_6 :: float32

record PbRobTarget =
  trans :: PbPosition
  rot :: PbOrientation
  robconf :: PbConfData
  extax :: PbExtJoint

record PbJointTarget =
  robjoint :: PbRobJoint
  extjoint :: PbExtJoint

record ClientRequest =
  cr_command :: int
  cr_target :: "PbRobTarget option"
  cr_extra_target :: "PbRobTarget option"
  cr_joint_target :: "PbJointTarget option"
  cr_speed :: float32
  cr_zone :: int
  cr_task_id :: u64
  cr_session_token :: string
  cr_username :: string
  cr_password :: string

record RobotStatus =
  op_mode :: int
  speed_override :: float32
  current_speed :: float32
  current_zone :: int
  current_target :: PbRobTarget
  current_joint_target :: PbJointTarget
  robot_time :: string
  robot_date :: string

section \<open>Client requests\<close>

definition proto_cmd_enum2rapid_cmd_enum :: "ProtoCommands \<Rightarrow> int \<Rightarrow> RapidCommandType" where
  "proto_cmd_enum2rapid_cmd_enum P cmd =
     (if cmd = P_MOVEL P then MOVE_L else
      if cmd = P_MOVEJ P then MOVE_J else
      if cmd = P_MOVEC P then MOVE_C else
      if cmd = P_MOVEABSJ P then MOVE_ABS_J else
      if cmd = P_SETSPEED P then SET_SPEED else
      if cmd = P_SETZONE P then SET_ZONE else
      if cmd = P_EXIT P then EXIT else
      if cmd = P_PING P then PING else
      if cmd = P_PINGR P then PINGR else
      if cmd = P_ZERO P then ZERO else
      if cmd = P_GETSTATUS P then GETSTATUS else
      if cmd = P_CHECKTASK P then CHECK_TASK else
      if cmd = P_LOGIN P then LOGIN else
      if cmd = P_LOGOUT P then LOGOUT else
      if cmd = P_ACQUIRE P then ACQUIRE else
      if cmd = P_RELEASE P then RELEASE else
      if cmd = P_MOVEL_OFFS P then MOVE_L_OFFS else
      if cmd = P_MOVEJ_OFFS P then MOVE_J_OFFS else
      UNKNOWN)"

definition proto_zone_enum2rapid_zone_enum :: "ProtoZones \<Rightarrow> int \<Rightarrow> RapidZone" where
  "proto_zone_enum2rapid_zone_enum Z z =
     (if z = PZ_FINE Z then FINE else
      if z = PZ_Z1 Z then Z1 else
      if z = PZ_Z5 Z then Z5 else
      if z = PZ_Z10 Z then Z10 else
      if z = PZ_Z15 Z then Z15 else
      if z = PZ_Z20 Z then Z20 else
      if z = PZ_Z30 Z then Z30 else
      FINE)"

text \<open>The case labels of a \<^verbatim>\<open>switch\<close> are different numbers, or it does not compile.\<close>

definition command_labels :: "ProtoCommands \<Rightarrow> int list" where
  "command_labels P =
     [P_MOVEL P, P_MOVEJ P, P_MOVEC P, P_MOVEABSJ P, P_SETSPEED P, P_SETZONE P, P_EXIT P,
      P_PING P, P_PINGR P, P_ZERO P, P_GETSTATUS P, P_CHECKTASK P, P_LOGIN P, P_LOGOUT P,
      P_ACQUIRE P, P_RELEASE P, P_MOVEL_OFFS P, P_MOVEJ_OFFS P]"

definition translate_jointtarget :: "PbJointTarget \<Rightarrow> JointTargetBridge" where
  "translate_jointtarget t =
     JointTargetBridge_new
       (rax_1 (robjoint t), rax_2 (robjoint t), rax_3 (robjoint t), rax_4 (robjoint t),
        rax_5 (robjoint t), rax_6 (robjoint t))
       (eax_a (extjoint t), eax_b (extjoint t), eax_c (extjoint t), eax_d (extjoint t),
        eax_e (extjoint t), eax_f (extjoint t))"

definition translate_robtarget :: "PbRobTarget \<Rightarrow> RobTargetBridge" where
  "translate_robtarget t =
     RobTargetBridge_new
       (RobPosition_new (pb_x (trans t)) (pb_y (trans t)) (pb_z (trans t)))
       (RobOrientation_new (pb_q1 (rot t)) (pb_q2 (rot t)) (pb_q3 (rot t)) (pb_q4 (rot t)))
       (RobConfigData_new (pb_cf1 (robconf t)) (pb_cf4 (robconf t)) (pb_cf6 (robconf t))
          (pb_cfx (robconf t)))
       (RobJoint_new (eax_a (extax t)) (eax_b (extax t)) (eax_c (extax t)) (eax_d (extax t))
          (eax_e (extax t)) (eax_f (extax t)))"

definition nonempty :: "string \<Rightarrow> string option" where
  "nonempty s = (if s = [] then None else Some s)"

definition decode_buffer ::
    "ProtoCommands \<Rightarrow> ProtoZones \<Rightarrow> (byte list \<Rightarrow> ClientRequest option) \<Rightarrow> byte list \<Rightarrow> DecodedRequest"
  where
  "decode_buffer P Z ParseFromString raw_msg =
     (case ParseFromString raw_msg of
        None \<Rightarrow> DecodedRequest_default
      | Some q \<Rightarrow>
          (let c = proto_cmd_enum2rapid_cmd_enum P (cr_command q) in
           DecodedRequest_default
             \<lparr>cmd_type := c,
              target := map_option translate_robtarget (cr_target q),
              extra_target := map_option translate_robtarget (cr_extra_target q),
              joint_target := map_option translate_jointtarget (cr_joint_target q),
              speed := cr_speed q,
              zone := proto_zone_enum2rapid_zone_enum Z (cr_zone q),
              task_id := (if c = CHECK_TASK then Some (cr_task_id q) else None),
              session_token := nonempty (cr_session_token q),
              username := nonempty (cr_username q),
              password := nonempty (cr_password q)\<rparr>))"

section \<open>Telemetry\<close>

text \<open>
  \<^verbatim>\<open>read_from_buffer<T>\<close> copies without a bounds check: outside the buffer it is
  undefined behaviour. So is a float that does not fit the enumeration's \<^verbatim>\<open>int\<close>.
\<close>

definition or_ub :: "'a option \<Rightarrow> cxx_error + 'a" where
  "or_ub v = (case v of Some a \<Rightarrow> Inr a | None \<Rightarrow> Inl UB)"

definition read_from_buffer_u8 :: "byte list \<Rightarrow> nat \<Rightarrow> cxx_error + byte" where
  "read_from_buffer_u8 buf off = or_ub (read8 buf off)"

definition read_from_buffer_32 :: "byte list \<Rightarrow> nat \<Rightarrow> cxx_error + u32" where
  "read_from_buffer_32 buf off = or_ub (read32 buf off)"

definition read_string :: "byte list \<Rightarrow> nat \<Rightarrow> nat \<Rightarrow> cxx_error + string" where
  "read_string buf off n = map_sum id string_of_bytes (or_ub (read_bytes n buf off))"

definition f32_to_enum :: "float32 \<Rightarrow> cxx_error + int" where
  "f32_to_enum f =
     (case f32_trunc f of
        Some z \<Rightarrow> if - (2 ^ 31) \<le> z \<and> z < 2 ^ 31 then Inr z else Inl UB
      | None \<Rightarrow> Inl UB)"

definition unpack_position :: "byte list \<Rightarrow> cxx_error + PbPosition" where
  "unpack_position raw =
     sum_bind (read_from_buffer_32 raw 13) (\<lambda>a.
     sum_bind (read_from_buffer_32 raw 17) (\<lambda>b.
     sum_bind (read_from_buffer_32 raw 21) (\<lambda>c.
       Inr \<lparr>pb_x = a, pb_y = b, pb_z = c\<rparr>)))"

definition unpack_orientation :: "byte list \<Rightarrow> cxx_error + PbOrientation" where
  "unpack_orientation raw =
     sum_bind (read_from_buffer_32 raw 25) (\<lambda>a.
     sum_bind (read_from_buffer_32 raw 29) (\<lambda>b.
     sum_bind (read_from_buffer_32 raw 33) (\<lambda>c.
     sum_bind (read_from_buffer_32 raw 37) (\<lambda>d.
       Inr \<lparr>pb_q1 = a, pb_q2 = b, pb_q3 = c, pb_q4 = d\<rparr>))))"

definition unpack_conf :: "byte list \<Rightarrow> cxx_error + PbConfData" where
  "unpack_conf raw =
     sum_bind (read_from_buffer_32 raw 41) (\<lambda>a.
     sum_bind (read_from_buffer_32 raw 45) (\<lambda>b.
     sum_bind (read_from_buffer_32 raw 49) (\<lambda>c.
     sum_bind (read_from_buffer_32 raw 53) (\<lambda>d.
       Inr \<lparr>pb_cf1 = a, pb_cf4 = b, pb_cf6 = c, pb_cfx = d\<rparr>))))"

text \<open>The two external-axis groups, at 57 and at 105.\<close>

definition unpack_extjoint :: "byte list \<Rightarrow> nat \<Rightarrow> cxx_error + PbExtJoint" where
  "unpack_extjoint raw off =
     sum_bind (read_from_buffer_32 raw off) (\<lambda>a.
     sum_bind (read_from_buffer_32 raw (off + 4)) (\<lambda>b.
     sum_bind (read_from_buffer_32 raw (off + 8)) (\<lambda>c.
     sum_bind (read_from_buffer_32 raw (off + 12)) (\<lambda>d.
     sum_bind (read_from_buffer_32 raw (off + 16)) (\<lambda>e.
     sum_bind (read_from_buffer_32 raw (off + 20)) (\<lambda>f.
       Inr \<lparr>eax_a = a, eax_b = b, eax_c = c, eax_d = d, eax_e = e, eax_f = f\<rparr>))))))"

definition unpack_robjoint :: "byte list \<Rightarrow> cxx_error + PbRobJoint" where
  "unpack_robjoint raw =
     sum_bind (read_from_buffer_32 raw 81) (\<lambda>a.
     sum_bind (read_from_buffer_32 raw 85) (\<lambda>b.
     sum_bind (read_from_buffer_32 raw 89) (\<lambda>c.
     sum_bind (read_from_buffer_32 raw 93) (\<lambda>d.
     sum_bind (read_from_buffer_32 raw 97) (\<lambda>e.
     sum_bind (read_from_buffer_32 raw 101) (\<lambda>f.
       Inr \<lparr>rax_1 = a, rax_2 = b, rax_3 = c, rax_4 = d, rax_5 = e, rax_6 = f\<rparr>))))))"

text \<open>\<open>Inr None\<close> is the result \<^verbatim>\<open>false\<close>; \<open>Inr (Some s)\<close> is \<^verbatim>\<open>true\<close> with the status filled.\<close>

definition unpack_robot_status :: "byte list \<Rightarrow> cxx_error + RobotStatus option" where
  "unpack_robot_status raw_data =
     (if length raw_data < 162 then Inr None
      else
        sum_bind (read_from_buffer_u8 raw_data 0) (\<lambda>mode.
        sum_bind (read_from_buffer_32 raw_data 1) (\<lambda>override.
        sum_bind (read_from_buffer_32 raw_data 5) (\<lambda>spd.
        sum_bind (read_from_buffer_32 raw_data 9) (\<lambda>zf.
        sum_bind (f32_to_enum zf) (\<lambda>z.
        sum_bind (unpack_position raw_data) (\<lambda>pos.
        sum_bind (unpack_orientation raw_data) (\<lambda>ori.
        sum_bind (unpack_conf raw_data) (\<lambda>conf.
        sum_bind (unpack_extjoint raw_data 57) (\<lambda>ext.
        sum_bind (unpack_robjoint raw_data) (\<lambda>robax.
        sum_bind (unpack_extjoint raw_data 105) (\<lambda>ext2.
        sum_bind (read_string raw_data 129 8) (\<lambda>time.
        sum_bind (read_string raw_data 161 10) (\<lambda>date.
          Inr (Some
            \<lparr>op_mode = uint mode, speed_override = override, current_speed = spd, current_zone = z,
             current_target = \<lparr>trans = pos, rot = ori, robconf = conf, extax = ext\<rparr>,
             current_joint_target = \<lparr>robjoint = robax, extjoint = ext2\<rparr>,
             robot_time = time, robot_date = date\<rparr>)))))))))))))))"

section \<open>Printing a request\<close>

text \<open>A field that is absent prints nothing.\<close>

definition print_field :: "string \<Rightarrow> ('a \<Rightarrow> string) \<Rightarrow> 'a option \<Rightarrow> string" where
  "print_field name show_value v =
     (case v of None \<Rightarrow> [] | Some a \<Rightarrow> name @ '': '' @ show_value a @ newline)"

definition decoded_request_to_string :: "DecodedRequest \<Rightarrow> string" where
  "decoded_request_to_string request =
     ''cmd_type: '' @ type_to_string (cmd_type request) @ newline @
     print_field ''target'' robtarget_to_string (target request) @
     print_field ''extra_target'' robtarget_to_string (extra_target request) @
     print_field ''joint_target'' jointtarget_to_string (joint_target request) @
     print_field ''task_id'' (\<lambda>k. dec_nat (unat k)) (task_id request) @
     ''speed: '' @ show_float (speed request) @ newline @
     ''zone: '' @ dec_int (sint (zone_code (zone request))) @ newline @
     print_field ''session_token'' id (session_token request) @
     print_field ''username'' id (username request) @
     print_field ''password'' id (password request)"

section \<open>Client requests: facts\<close>

lemma command_by_table:
  "proto_cmd_enum2rapid_cmd_enum P z =
     (case map_of (zip (command_labels P) all_commands) z of Some c \<Rightarrow> c | None \<Rightarrow> UNKNOWN)"
  by (simp add: command_labels_def all_commands_def proto_cmd_enum2rapid_cmd_enum_def)

lemma command_at_label:
  assumes "distinct (command_labels P)" and "i < length (command_labels P)"
  shows "proto_cmd_enum2rapid_cmd_enum P (command_labels P ! i) = all_commands ! i"
proof -
  let ?cs = "butlast all_commands"
  have len: "length ?cs = length (command_labels P)"
    by (simp add: command_labels_def all_commands_def)
  have "zip (command_labels P) all_commands = zip (command_labels P) ?cs"
    by (simp add: command_labels_def all_commands_def)
  moreover have "map_of (zip (command_labels P) ?cs) (command_labels P ! i) = Some (?cs ! i)"
    using assms len by (intro map_of_zip_nth) simp_all
  moreover have "?cs ! i = all_commands ! i"
    using assms(2) len by (simp add: nth_butlast)
  ultimately show ?thesis by (simp add: command_by_table)
qed

lemma command_labels_decoded:
  assumes "distinct (command_labels P)"
  shows "map (proto_cmd_enum2rapid_cmd_enum P) (command_labels P) = butlast all_commands"
proof (rule nth_equalityI)
  show len: "length (map (proto_cmd_enum2rapid_cmd_enum P) (command_labels P)) =
      length (butlast all_commands)"
    by (simp add: command_labels_def all_commands_def)
  fix i assume "i < length (map (proto_cmd_enum2rapid_cmd_enum P) (command_labels P))"
  then have i: "i < length (command_labels P)" by simp
  with len have "butlast all_commands ! i = all_commands ! i"
    by (simp add: nth_butlast)
  with i command_at_label [OF assms i]
  show "map (proto_cmd_enum2rapid_cmd_enum P) (command_labels P) ! i = butlast all_commands ! i"
    by simp
qed

lemma command_unlabelled:
  "z \<notin> set (command_labels P) \<Longrightarrow> proto_cmd_enum2rapid_cmd_enum P z = UNKNOWN"
  by (simp add: command_labels_def proto_cmd_enum2rapid_cmd_enum_def)

lemma decode_task_id:
  "(task_id (decode_buffer P Z parse raw) \<noteq> None) =
     (cmd_type (decode_buffer P Z parse raw) = CHECK_TASK)"
  by (simp add: decode_buffer_def DecodedRequest_default_def Let_def split: option.split)

lemma decode_credentials_nonempty:
  "session_token (decode_buffer P Z parse raw) \<noteq> Some []"
  by (simp add: decode_buffer_def DecodedRequest_default_def Let_def nonempty_def split: option.split)

section \<open>Telemetry: facts\<close>

lemma or_ub_simps [simp]: "or_ub (Some a) = Inr a" "or_ub None = Inl UB"
  by (simp_all add: or_ub_def)

lemma read_u8_ok: "off + 1 \<le> length raw \<Longrightarrow> \<exists>v. read_from_buffer_u8 raw off = Inr v"
  using c8.field_in_bounds [of raw off] by (auto simp: read_from_buffer_u8_def)

lemma read_32_ok: "off + 4 \<le> length raw \<Longrightarrow> \<exists>v. read_from_buffer_32 raw off = Inr v"
  using c32.field_in_bounds [of raw off] by (auto simp: read_from_buffer_32_def)

lemma read_string_ok: "off + n \<le> length raw \<Longrightarrow> \<exists>v. read_string raw off n = Inr v"
  by (simp add: read_string_def read_bytes_def)

lemma read_string_ub: "length raw < off + n \<Longrightarrow> read_string raw off n = Inl UB"
  by (simp add: read_string_def read_bytes_def)

lemma sum_bind_ok: "\<exists>v. m = Inr v \<Longrightarrow> (\<And>v. m = Inr v \<Longrightarrow> \<exists>w. f v = Inr w) \<Longrightarrow> \<exists>w. sum_bind m f = Inr w"
  by auto

lemma unpack_position_ok: "162 \<le> length raw \<Longrightarrow> \<exists>v. unpack_position raw = Inr v"
  unfolding unpack_position_def by (intro sum_bind_ok read_32_ok) auto

lemma unpack_orientation_ok: "162 \<le> length raw \<Longrightarrow> \<exists>v. unpack_orientation raw = Inr v"
  unfolding unpack_orientation_def by (intro sum_bind_ok read_32_ok) auto

lemma unpack_conf_ok: "162 \<le> length raw \<Longrightarrow> \<exists>v. unpack_conf raw = Inr v"
  unfolding unpack_conf_def by (intro sum_bind_ok read_32_ok) auto

lemma unpack_extjoint_ok: "off + 24 \<le> length raw \<Longrightarrow> \<exists>v. unpack_extjoint raw off = Inr v"
  unfolding unpack_extjoint_def by (intro sum_bind_ok read_32_ok) auto

lemma unpack_robjoint_ok: "162 \<le> length raw \<Longrightarrow> \<exists>v. unpack_robjoint raw = Inr v"
  unfolding unpack_robjoint_def by (intro sum_bind_ok read_32_ok) auto

lemmas unpack_group_ok = unpack_position_ok unpack_orientation_ok unpack_conf_ok
  unpack_robjoint_ok

text \<open>The zone field of a telemetry packet, as a number; \<open>None\<close> when it has none.\<close>

definition telemetry_zone :: "byte list \<Rightarrow> int option" where
  "telemetry_zone raw =
     (case sum_bind (read_from_buffer_32 raw 9) f32_to_enum of Inr z \<Rightarrow> Some z | Inl _ \<Rightarrow> None)"

lemma sum_bind_ub: "sum_bind m f = Inl UB" if "m = Inl UB \<or> (\<exists>v. m = Inr v \<and> f v = Inl UB)"
  using that by auto

lemma unpack_short: "length raw < 162 \<Longrightarrow> unpack_robot_status raw = Inr None"
  by (simp add: unpack_robot_status_def)

lemma f32_to_enum_ub: "f32_to_enum f = Inl e \<Longrightarrow> e = UB"
  by (auto simp: f32_to_enum_def split: option.splits if_splits)

text \<open>Everything before the two strings is readable; only the zone can fail.\<close>

lemma unpack_prefix:
  assumes len: "162 \<le> length raw"
  obtains v w s t where "read_from_buffer_u8 raw 0 = Inr v"
    and "read_from_buffer_32 raw 1 = Inr w" and "read_from_buffer_32 raw 5 = Inr s"
    and "read_from_buffer_32 raw 9 = Inr t"
  using len read_u8_ok [of 0 raw] read_32_ok [of 1 raw] read_32_ok [of 5 raw] read_32_ok [of 9 raw]
  by auto

lemma unpack_long:
  assumes len: "162 \<le> length raw"
  shows "unpack_robot_status raw =
    (case telemetry_zone raw of None \<Rightarrow> Inl UB
     | Some z \<Rightarrow> if length raw < 171 then Inl UB else unpack_robot_status raw)"
proof -
  obtain v w s t where h: "read_from_buffer_u8 raw 0 = Inr v"
    "read_from_buffer_32 raw 1 = Inr w" "read_from_buffer_32 raw 5 = Inr s"
    "read_from_buffer_32 raw 9 = Inr t"
    using unpack_prefix [OF len] .
  obtain p q c j where g: "unpack_position raw = Inr p" "unpack_orientation raw = Inr q"
    "unpack_conf raw = Inr c" "unpack_robjoint raw = Inr j"
    using unpack_group_ok [OF len] by blast
  obtain e f m where x: "unpack_extjoint raw 57 = Inr e" "unpack_extjoint raw 105 = Inr f"
    "read_string raw 129 8 = Inr m"
    using len unpack_extjoint_ok [of 57 raw] unpack_extjoint_ok [of 105 raw]
      read_string_ok [of 129 8 raw] by auto
  show ?thesis
    using len h g x read_string_ub [of raw 161 10]
    by (auto simp: telemetry_zone_def unpack_robot_status_def dest: f32_to_enum_ub
        split: option.split sum.splits)
qed

lemma unpack_succeeds:
  assumes len: "171 \<le> length raw" and z: "telemetry_zone raw = Some z"
  shows "\<exists>s. unpack_robot_status raw = Inr (Some s) \<and> current_zone s = z"
proof -
  have len': "162 \<le> length raw" using len by simp
  obtain v w s t where h: "read_from_buffer_u8 raw 0 = Inr v"
    "read_from_buffer_32 raw 1 = Inr w" "read_from_buffer_32 raw 5 = Inr s"
    "read_from_buffer_32 raw 9 = Inr t"
    using unpack_prefix [OF len'] .
  obtain p q c j where g: "unpack_position raw = Inr p" "unpack_orientation raw = Inr q"
    "unpack_conf raw = Inr c" "unpack_robjoint raw = Inr j"
    using unpack_group_ok [OF len'] by blast
  obtain e f m d where x: "unpack_extjoint raw 57 = Inr e" "unpack_extjoint raw 105 = Inr f"
    "read_string raw 129 8 = Inr m" "read_string raw 161 10 = Inr d"
    using len unpack_extjoint_ok [of 57 raw] unpack_extjoint_ok [of 105 raw]
      read_string_ok [of 129 8 raw] read_string_ok [of 161 10 raw] by auto
  from h z have "f32_to_enum t = Inr z"
    by (auto simp: telemetry_zone_def split: sum.splits)
  with len h g x show ?thesis by (simp add: unpack_robot_status_def)
qed

section \<open>Properties\<close>

text \<open>
  If the schema gives its commands different numbers, each of them decodes to its own command,
  in the order of the enumeration, and every other number to \<open>UNKNOWN\<close>.
\<close>

lemma protocol_commands_decoded:
  assumes "distinct (command_labels P)"
  shows "map (proto_cmd_enum2rapid_cmd_enum P) (command_labels P) = butlast all_commands \<and>
    (\<forall>z. z \<notin> set (command_labels P) \<longrightarrow> proto_cmd_enum2rapid_cmd_enum P z = UNKNOWN)"
  using command_labels_decoded [OF assms] command_unlabelled by blast

definition demo_labels :: ProtoCommands where
  "demo_labels =
     \<lparr>P_MOVEL = 0, P_MOVEJ = 1, P_MOVEC = 2, P_MOVEABSJ = 3, P_SETSPEED = 4, P_SETZONE = 5,
      P_EXIT = 6, P_PING = 7, P_PINGR = 8, P_ZERO = 9, P_GETSTATUS = 10, P_CHECKTASK = 11,
      P_LOGIN = 12, P_LOGOUT = 13, P_ACQUIRE = 14, P_RELEASE = 15, P_MOVEL_OFFS = 16,
      P_MOVEJ_OFFS = 17\<rparr>"

definition demo_zones :: ProtoZones where
  "demo_zones =
     \<lparr>PZ_FINE = 0, PZ_Z1 = 1, PZ_Z5 = 2, PZ_Z10 = 3, PZ_Z15 = 4, PZ_Z20 = 5, PZ_Z30 = 6\<rparr>"

text \<open>
  C32. Unpacking telemetry: below 162 bytes it is refused; from 162 bytes on it succeeds if and only
  if there are 171 bytes and the zone field is a number of the range of \<^verbatim>\<open>int\<close>; in all other
  cases it reads outside the packet or casts out of range, which is undefined behaviour (so the
  size test admits nine lengths that it should not).
\<close>

theorem unpack_robot_status_bounds:
  "if length raw < 162 then unpack_robot_status raw = Inr None
   else if length raw < 171 \<or> telemetry_zone raw = None then unpack_robot_status raw = Inl UB
   else (\<exists>s. unpack_robot_status raw = Inr (Some s) \<and> Some (current_zone s) = telemetry_zone raw)"
  using unpack_short [of raw] unpack_long [of raw] unpack_succeeds [of raw]
  by (cases "telemetry_zone raw") (fastforce split: if_splits)+

text \<open>
  What the decoder lets through: only a poll carries a task number, credentials and tokens are
  never empty strings, and bytes that do not parse are the unknown command with nothing in it.
\<close>

lemma decode_buffer_shape:
  "(task_id (decode_buffer P Z parse raw) \<noteq> None) =
     (cmd_type (decode_buffer P Z parse raw) = CHECK_TASK) \<and>
   Some [] \<notin> {session_token (decode_buffer P Z parse raw), username (decode_buffer P Z parse raw),
     password (decode_buffer P Z parse raw)} \<and>
   (parse raw \<noteq> None \<or> decode_buffer P Z parse raw = DecodedRequest_default)"
  by (simp add: decode_buffer_def DecodedRequest_default_def Let_def nonempty_def split: option.split)

end
