(* ===== verification/Network.thy ===== *)
theory Network
  imports Prelude "HOL-Library.Signed_Division"
begin

text \<open>
  Socket helpers: \<^verbatim>\<open>src/network/sock_comm.hpp\<close> and
  \<^verbatim>\<open>sock_comm.cpp\<close> (the POSIX branches). The system calls are a record of functions, the
  kernel's bookkeeping that the helpers must keep balanced is a state: the open descriptors and
  the number of address lists not yet freed.
\<close>

section \<open>System interface\<close>

type_synonym socket_t = int

definition INVALID_SOCKET_FD :: socket_t where
  "INVALID_SOCKET_FD = -1"

record timeval =
  tv_sec :: int
  tv_usec :: int

record addrinfo =
  ai_family :: int
  ai_addr :: "byte list"

datatype sockopt = SO_RCVTIMEO | SO_SNDTIMEO

text \<open>
  \<open>sys_getaddrinfo host service\<close> is \<open>None\<close> for a non-zero result; the other calls return what
  the system call returns. The hints are the constants of both callers.
\<close>

record syscalls =
  sys_getaddrinfo :: "string \<Rightarrow> string option \<Rightarrow> addrinfo option"
  sys_socket :: "addrinfo \<Rightarrow> int"
  sys_setsockopt :: "socket_t \<Rightarrow> sockopt \<Rightarrow> timeval \<Rightarrow> int"
  sys_connect :: "socket_t \<Rightarrow> byte list \<Rightarrow> int"
  sys_inet_ntop :: "int \<Rightarrow> byte list \<Rightarrow> string"

record kernel =
  open_fds :: "socket_t list"
  live_addrinfos :: nat

section \<open>The helpers\<close>

definition initialize :: bool where
  "initialize = True"

definition close_socket :: "socket_t \<Rightarrow> kernel \<Rightarrow> kernel" where
  "close_socket fd k =
     (if fd = INVALID_SOCKET_FD then k else k\<lparr>open_fds := remove1 fd (open_fds k)\<rparr>)"

text \<open>C++ \<open>/\<close> and \<open>%\<close> on \<^verbatim>\<open>int\<close> truncate towards zero.\<close>

definition timeout_timeval :: "int \<Rightarrow> timeval" where
  "timeout_timeval timeout_ms =
     \<lparr>tv_sec = timeout_ms sdiv 1000, tv_usec = timeout_ms smod 1000 * 1000\<rparr>"

text \<open>The result, and the options the two calls set, in order.\<close>

definition set_timeouts ::
    "syscalls \<Rightarrow> socket_t \<Rightarrow> int \<Rightarrow> bool \<times> (sockopt \<times> timeval) list" where
  "set_timeouts os fd timeout_ms =
     (if fd = INVALID_SOCKET_FD then (False, [])
      else let tv = timeout_timeval timeout_ms in
        if sys_setsockopt os fd SO_RCVTIMEO tv < 0 then (False, [])
        else if sys_setsockopt os fd SO_SNDTIMEO tv < 0 then (False, [(SO_RCVTIMEO, tv)])
        else (True, [(SO_RCVTIMEO, tv), (SO_SNDTIMEO, tv)]))"

definition freeaddrinfo :: "kernel \<Rightarrow> kernel" where
  "freeaddrinfo k = k\<lparr>live_addrinfos := live_addrinfos k - 1\<rparr>"

definition getaddrinfo :: "syscalls \<Rightarrow> string \<Rightarrow> string option \<Rightarrow> kernel \<Rightarrow> addrinfo option \<times> kernel" where
  "getaddrinfo os host service k =
     (case sys_getaddrinfo os host service of
        None \<Rightarrow> (None, k)
      | Some res \<Rightarrow> (Some res, k\<lparr>live_addrinfos := live_addrinfos k + 1\<rparr>))"

definition socket_open :: "syscalls \<Rightarrow> addrinfo \<Rightarrow> kernel \<Rightarrow> socket_t \<times> kernel" where
  "socket_open os res k =
     (let fd = sys_socket os res in
      (fd, if fd = INVALID_SOCKET_FD then k else k\<lparr>open_fds := fd # open_fds k\<rparr>))"

definition connect_tcp :: "syscalls \<Rightarrow> string \<Rightarrow> int \<Rightarrow> int \<Rightarrow> kernel \<Rightarrow> socket_t \<times> kernel" where
  "connect_tcp os host port timeout_ms k =
     (case getaddrinfo os host (Some (dec_int port)) k of
        (None, k) \<Rightarrow> (INVALID_SOCKET_FD, k)
      | (Some res, k) \<Rightarrow>
          (case socket_open os res k of
             (fd, k) \<Rightarrow>
               if fd = INVALID_SOCKET_FD then (INVALID_SOCKET_FD, freeaddrinfo k)
               else let r = set_timeouts os fd timeout_ms in
                 if sys_connect os fd (ai_addr res) < 0
                 then (INVALID_SOCKET_FD, freeaddrinfo (close_socket fd k))
                 else (fd, freeaddrinfo k)))"

text \<open>
  \<^verbatim>\<open>inet_ntop\<close> is given the pointer to the whole socket address, not to the address in
  it, and its result is not checked.
\<close>

definition resolve_host :: "syscalls \<Rightarrow> string \<Rightarrow> kernel \<Rightarrow> string \<times> kernel" where
  "resolve_host os host k =
     (case getaddrinfo os host None k of
        (None, k) \<Rightarrow> ([], k)
      | (Some res, k) \<Rightarrow> (sys_inet_ntop os (ai_family res) (ai_addr res), freeaddrinfo k))"

text \<open>
  Documented behaviour on Linux: \<^verbatim>\<open>AF_INET\<close> is 2; an IPv4 socket address starts with
  the family (little-endian), the port and the four address bytes, with port 0 when no service
  was asked for; \<^verbatim>\<open>inet_ntop(AF_INET, src)\<close> writes the four bytes at \<open>src\<close> in dotted
  decimal.
\<close>

definition dotted :: "byte list \<Rightarrow> string" where
  "dotted bs =
     (case map (\<lambda>b. dec_nat (unat b)) (take 4 bs) of
        [] \<Rightarrow> [] | s # ss \<Rightarrow> s @ concat (map (\<lambda>t. ''.'' @ t) ss))"

definition sockaddr_in :: "byte list \<Rightarrow> byte list \<Rightarrow> byte list" where
  "sockaddr_in port_be ipv4 = [2, 0] @ port_be @ ipv4 @ replicate 8 0"

definition inet_documented :: "syscalls \<Rightarrow> bool" where
  "inet_documented os \<longleftrightarrow>
     (\<forall>src. sys_inet_ntop os 2 src = dotted src) \<and>
     (\<forall>host res. sys_getaddrinfo os host None = Some res \<longrightarrow>
        ai_family res = 2 \<and> (\<exists>ipv4. length ipv4 = 4 \<and> ai_addr res = sockaddr_in [0, 0] ipv4))"

section \<open>Properties\<close>

lemma dec_digit: "dec_nat 0 = ''0''" "dec_nat 2 = ''2''"
  by (simp_all add: dec_nat.simps char_of_def bit_Suc bit_0)

lemma close_opened [simp]:
  "fd \<noteq> INVALID_SOCKET_FD \<Longrightarrow> close_socket fd (k\<lparr>open_fds := fd # open_fds k\<rparr>) = k"
  by (simp add: close_socket_def)

text \<open>
  C40. \<^verbatim>\<open>connect_tcp\<close> leaks nothing on any path: it frees the address list it got, and on
  return either exactly one more descriptor is open, the one it returns, or it returns the invalid
  descriptor and the open descriptors are as before.
\<close>

theorem connect_tcp_balanced:
  "live_addrinfos (snd (connect_tcp os host port ms k)) = live_addrinfos k \<and>
   open_fds (snd (connect_tcp os host port ms k)) =
     (if fst (connect_tcp os host port ms k) = INVALID_SOCKET_FD then open_fds k
      else fst (connect_tcp os host port ms k) # open_fds k)"
  by (auto simp: connect_tcp_def getaddrinfo_def socket_open_def freeaddrinfo_def close_socket_def
      Let_def split: option.split prod.split)

text \<open>
  For every timeout in milliseconds that is not negative, the kernel gets a valid
  \<^verbatim>\<open>timeval\<close> of exactly that length, the same for receiving and for sending.
\<close>

lemma set_timeouts_exact:
  assumes "0 \<le> timeout_ms" and "set_timeouts os fd timeout_ms = (True, opts)"
  shows "map fst opts = [SO_RCVTIMEO, SO_SNDTIMEO] \<and>
    (\<forall>tv \<in> snd ` set opts. 0 \<le> tv_usec tv \<and> tv_usec tv < 1000000 \<and>
       tv_sec tv * 1000000 + tv_usec tv = timeout_ms * 1000)"
proof -
  have "timeout_ms sdiv 1000 = timeout_ms div 1000" "timeout_ms smod 1000 = timeout_ms mod 1000"
    using assms(1) by (simp_all add: signed_divide_int_def signed_modulo_int_def sgn_if
        minus_div_mult_eq_mod)
  moreover have "timeout_ms div 1000 * 1000000 + timeout_ms mod 1000 * 1000 = timeout_ms * 1000"
    using div_mult_mod_eq [of timeout_ms 1000] by presburger
  ultimately show ?thesis
    using assms by (auto simp: set_timeouts_def timeout_timeval_def Let_def split: if_splits)
qed

definition demo_os :: syscalls where
  "demo_os =
     \<lparr>sys_getaddrinfo = (\<lambda>host service.
        Some \<lparr>ai_family = 2, ai_addr = sockaddr_in [0, 0] [127, 0, 0, 1]\<rparr>),
      sys_socket = (\<lambda>res. 3), sys_setsockopt = (\<lambda>fd opt tv. 0), sys_connect = (\<lambda>fd a. 0),
      sys_inet_ntop = (\<lambda>f src. dotted src)\<rparr>"

text \<open>
  \<^verbatim>\<open>resolve_host\<close> answers \<open>2.0.0.0\<close> for every host that resolves: it formats the head
  of the socket address (its family and port) instead of the address.
\<close>

lemma resolve_host_wrong:
  assumes "inet_documented os" and "sys_getaddrinfo os host None \<noteq> None"
  shows "fst (resolve_host os host k) = ''2.0.0.0''"
proof -
  from assms(2) obtain res where res: "sys_getaddrinfo os host None = Some res" by auto
  moreover from res assms(1) obtain ipv4 where "ai_family res = 2"
    and "ai_addr res = sockaddr_in [0, 0] ipv4"
    unfolding inet_documented_def by blast
  moreover have "dotted (sockaddr_in [0, 0] ipv4) = ''2.0.0.0''"
    by (simp add: dotted_def sockaddr_in_def dec_digit)
  ultimately show ?thesis
    using assms(1) by (simp add: resolve_host_def getaddrinfo_def inet_documented_def)
qed

lemma resolve_host_wrong_witness:
  "fst (resolve_host demo_os ''localhost'' \<lparr>open_fds = [], live_addrinfos = 0\<rparr>) = ''2.0.0.0''"
proof (rule resolve_host_wrong)
  have "length [127, 0, 0, 1 :: byte] = 4" by simp
  then show "inet_documented demo_os"
    unfolding inet_documented_def demo_os_def by (auto intro: exI [of _ "[127, 0, 0, 1]"])
qed (simp add: demo_os_def)

end
