(* ===== verification/Robot.thy ===== *)
theory Robot
  imports Commands Network
begin

text \<open>
  The connection to the robot controller: \<^verbatim>\<open>src/robot/robot.hpp\<close> and
  \<^verbatim>\<open>robot.cpp\<close>. The class has one worker thread; its control point is part of the
  state, and one application of \<open>worker_loop_step\<close> runs it to the next point where another thread
  can see or change what it uses (the loop head, the queue, the exchange with the controller).
  The critical sections of \<^verbatim>\<open>socket_mutex_\<close> and \<^verbatim>\<open>queue_mutex_\<close> do not nest,
  so each is atomic. Waiting with a timeout is staying at a control point.
\<close>

section \<open>State\<close>

text \<open>
  A \<^verbatim>\<open>shared_ptr\<close> to a promise is its index in the list of promises made so far, null
  for a heartbeat; the promise is \<open>None\<close> until it has its value.
\<close>

record RobotWorkItem =
  wi_command :: RapidRequest
  wi_promise :: "nat option"

datatype worker_point =
    NotStarted | LoopHead | TakeWork | Serve RobotWorkItem bool | Exited | Crashed

text \<open>
  The last three fields are not members: the process's descriptors, the promises, and the bytes
  given to the kernel on the current connection.
\<close>

record Robot =
  host_m :: string
  port_m :: int
  socket_fd_m :: socket_t
  socket_timeout_ms_m :: int
  running_m :: bool
  worker_thread_m :: worker_point
  request_queue_m :: "RobotWorkItem list"
  connected_m :: bool
  kernel_m :: kernel
  promises_m :: "byte list option list"
  wire_m :: "byte list"

definition Robot_new :: "string \<Rightarrow> int \<Rightarrow> int \<Rightarrow> kernel \<Rightarrow> Robot" where
  "Robot_new host port timeout_ms k =
     \<lparr>host_m = host, port_m = port, socket_fd_m = INVALID_SOCKET_FD,
      socket_timeout_ms_m = timeout_ms, running_m = False, worker_thread_m = NotStarted,
      request_queue_m = [], connected_m = False, kernel_m = k, promises_m = [], wire_m = []\<rparr>"

text \<open>
  What one step of the worker meets outside: the system calls, \<^verbatim>\<open>send\<close> on the bytes it is
  given, \<^verbatim>\<open>recv\<close> of at most so many bytes (\<open>None\<close> for an error or a timeout, \<open>[]\<close> for a
  closed connection), and the bytes an uninitialised request happens to hold.
\<close>

record robot_io =
  io_os :: syscalls
  io_send :: "byte list \<Rightarrow> int"
  io_recv :: "nat \<Rightarrow> byte list option"
  io_junk :: RapidRequest

definition io_documented :: "robot_io \<Rightarrow> bool" where
  "io_documented io \<longleftrightarrow>
     (\<forall>data. io_send io data \<le> int (length data)) \<and>
     (\<forall>n bs. io_recv io n = Some bs \<longrightarrow> length bs \<le> n)"

section \<open>Sessions and the request queue\<close>

text \<open>Assigning to a joinable \<^verbatim>\<open>std::thread\<close> terminates the program.\<close>

definition start_session :: "Robot \<Rightarrow> Robot" where
  "start_session R =
     (if running_m R then R
      else R\<lparr>running_m := True,
             worker_thread_m := (if worker_thread_m R = NotStarted then LoopHead else Crashed)\<rparr>)"

text \<open>\<^verbatim>\<open>stop_session\<close> up to the join, and after it.\<close>

definition stop_session_signal :: "Robot \<Rightarrow> Robot" where
  "stop_session_signal R = R\<lparr>running_m := False\<rparr>"

definition close_connection :: "Robot \<Rightarrow> Robot" where
  "close_connection R =
     (if socket_fd_m R \<noteq> INVALID_SOCKET_FD
      then R\<lparr>kernel_m := close_socket (socket_fd_m R) (kernel_m R),
             socket_fd_m := INVALID_SOCKET_FD, connected_m := False\<rparr>
      else R\<lparr>connected_m := False\<rparr>)"

definition joinable_done :: "Robot \<Rightarrow> bool" where
  "joinable_done R \<longleftrightarrow> worker_thread_m R \<in> {NotStarted, Exited}"

definition stop_session_finish :: "Robot \<Rightarrow> Robot option" where
  "stop_session_finish R =
     (if joinable_done R then Some (close_connection (R\<lparr>worker_thread_m := NotStarted\<rparr>)) else None)"

text \<open>The destructor stops the session; it returns when the join does.\<close>

definition Robot_destroy :: "Robot \<Rightarrow> Robot option" where
  "Robot_destroy R = stop_session_finish (stop_session_signal R)"

definition is_connected :: "Robot \<Rightarrow> bool" where
  "is_connected R = connected_m R"

text \<open>The part of \<^verbatim>\<open>queue_request\<close> after the check: a new promise, and its work item queued.\<close>

definition enqueue_request :: "RapidRequest \<Rightarrow> Robot \<Rightarrow> RobotWorkItem \<times> Robot" where
  "enqueue_request request R =
     (let item = \<lparr>wi_command = request, wi_promise = Some (length (promises_m R))\<rparr> in
      (item, R\<lparr>promises_m := promises_m R @ [None], request_queue_m := request_queue_m R @ [item]\<rparr>))"

definition queue_request :: "RapidRequest \<Rightarrow> (Robot, nat) cxx" where
  "queue_request request R =
     (if \<not> running_m R then (Inl (Exn ''Robot session not started''), R)
      else (Inr (length (promises_m R)), snd (enqueue_request request R)))"

definition pop_request :: "Robot \<Rightarrow> RobotWorkItem option \<times> Robot" where
  "pop_request R =
     (case request_queue_m R of
        [] \<Rightarrow> (None, R)
      | item # rest \<Rightarrow> (Some item, R\<lparr>request_queue_m := rest\<rparr>))"

section \<open>Exchange with the controller\<close>

text \<open>
  The loop of \<^verbatim>\<open>send_request\<close>: \<open>total_sent\<close> bytes of \<open>msg\<close> are sent, \<open>wire\<close> is what the
  kernel has taken. One \<^verbatim>\<open>send\<close> that takes nothing ends it. (The flags of the call are 0: on a
  connection the controller has reset, the kernel first raises \<^verbatim>\<open>SIGPIPE\<close>, for which
  \<^verbatim>\<open>main.cpp\<close> installs no handler and which then ends the process. The model goes on with the
  error \<^verbatim>\<open>send\<close> returns, as it does where that signal is ignored.)
\<close>

function send_loop :: "(byte list \<Rightarrow> int) \<Rightarrow> byte list \<Rightarrow> nat \<Rightarrow> byte list \<Rightarrow> bool \<times> byte list" where
  "send_loop send msg total_sent wire =
     (if total_sent < length msg then
        let bytes_sent = send (drop total_sent msg) in
        if bytes_sent \<le> 0 then (False, wire)
        else send_loop send msg (total_sent + nat bytes_sent)
               (wire @ take (nat bytes_sent) (drop total_sent msg))
      else (True, wire))"
  by auto

termination
  by (relation "measure (\<lambda>(send, msg, total_sent, wire). length msg - total_sent)") auto

declare send_loop.simps [simp del]

definition send_request :: "robot_io \<Rightarrow> RapidRequest \<Rightarrow> Robot \<Rightarrow> bool \<times> Robot" where
  "send_request io request R =
     (case send_loop (io_send io) (bytes_RapidRequest request) 0 [] of
        (ok, sent) \<Rightarrow> (ok, R\<lparr>wire_m := wire_m R @ sent\<rparr>))"

text \<open>The result of \<^verbatim>\<open>set_timeouts\<close> before the \<^verbatim>\<open>recv\<close> is not used.\<close>

definition receive_buffer :: "robot_io \<Rightarrow> cxx_error + byte list" where
  "receive_buffer io =
     (case io_recv io 255 of
        None \<Rightarrow> Inl (Exn ''Failed to receive response from robot'')
      | Some bs \<Rightarrow>
          if bs = [] then Inl (Exn ''Failed to receive response from robot'') else Inr bs)"

definition send_and_receive :: "robot_io \<Rightarrow> RapidRequest \<Rightarrow> (Robot, byte list) cxx" where
  "send_and_receive io request R =
     (if socket_fd_m R = INVALID_SOCKET_FD then (Inl (Exn ''Robot session not active''), R)
      else case send_request io request R of
             (ok, R) \<Rightarrow>
               if \<not> ok then (Inl (Exn ''Failed to send command to robot''), R)
               else (receive_buffer io, R))"

definition attempt_connection :: "robot_io \<Rightarrow> Robot \<Rightarrow> bool \<times> Robot" where
  "attempt_connection io R =
     (if socket_fd_m R \<noteq> INVALID_SOCKET_FD then (True, R)
      else case connect_tcp (io_os io) (host_m R) (port_m R) (socket_timeout_ms_m R) (kernel_m R) of
             (fd, k) \<Rightarrow>
               let R = R\<lparr>socket_fd_m := fd, kernel_m := k, wire_m := []\<rparr> in
               if fd = INVALID_SOCKET_FD then (False, R) else (True, R\<lparr>connected_m := True\<rparr>))"

section \<open>The worker\<close>

text \<open>\<^verbatim>\<open>promise::set_value\<close> throws when the promise has its value already.\<close>

definition set_value :: "RobotWorkItem \<Rightarrow> byte list \<Rightarrow> (Robot, unit) cxx" where
  "set_value item v R =
     (case wi_promise item of
        None \<Rightarrow> (Inl UB, R)
      | Some p \<Rightarrow>
          if promises_m R ! p \<noteq> None then (Inl (Exn ''Promise already satisfied''), R)
          else (Inr (), R\<lparr>promises_m := (promises_m R)[p := Some v]\<rparr>))"

definition serve_try :: "robot_io \<Rightarrow> RobotWorkItem \<Rightarrow> bool \<Rightarrow> (Robot, unit) cxx" where
  "serve_try io item is_heartbeat =
     cxx_bind (send_and_receive io (wi_command item)) (\<lambda>response.
       if is_heartbeat then cxx_return ()
       else if response = [] then set_value item (bytes_of_string ''ERR: empty response'')
       else set_value item response)"

definition serve_catch :: "string \<Rightarrow> RobotWorkItem \<Rightarrow> bool \<Rightarrow> (Robot, unit) cxx" where
  "serve_catch what item is_heartbeat =
     cxx_then (cxx_modify close_connection)
       (if \<not> is_heartbeat then set_value item (bytes_of_string (''ERR: '' @ what))
        else cxx_return ())"

definition serve :: "robot_io \<Rightarrow> RobotWorkItem \<Rightarrow> bool \<Rightarrow> (Robot, unit) cxx" where
  "serve io item is_heartbeat R =
     (case serve_try io item is_heartbeat R of
        (Inl (Exn what), R) \<Rightarrow> serve_catch what item is_heartbeat R
      | r \<Rightarrow> r)"

text \<open>An exception that leaves the thread function terminates the program.\<close>

definition worker_loop_step :: "robot_io \<Rightarrow> Robot \<Rightarrow> Robot" where
  "worker_loop_step io R =
     (case worker_thread_m R of
        LoopHead \<Rightarrow>
          if \<not> running_m R then R\<lparr>worker_thread_m := Exited\<rparr>
          else if \<not> connected_m R then
            (case attempt_connection io R of
               (True, R) \<Rightarrow> R\<lparr>worker_thread_m := TakeWork\<rparr>
             | (False, R) \<Rightarrow> R)
          else R\<lparr>worker_thread_m := TakeWork\<rparr>
      | TakeWork \<Rightarrow>
          if \<not> running_m R then R\<lparr>worker_thread_m := Exited\<rparr>
          else (case pop_request R of
                  (Some item, R) \<Rightarrow> R\<lparr>worker_thread_m := Serve item False\<rparr>
                | (None, R) \<Rightarrow>
                    R\<lparr>worker_thread_m :=
                        Serve \<lparr>wi_command = (io_junk io)\<lparr>command_id := cmd_code PINGR\<rparr>,
                               wi_promise = None\<rparr> True\<rparr>)
      | Serve item is_heartbeat \<Rightarrow>
          (case serve io item is_heartbeat R of
             (Inr _, R) \<Rightarrow> R\<lparr>worker_thread_m := LoopHead\<rparr>
           | (Inl e, R) \<Rightarrow> R\<lparr>worker_thread_m := Crashed\<rparr>)
      | _ \<Rightarrow> R)"

text \<open>
  Steps of the object: requests come from any thread, \<^verbatim>\<open>start_session\<close> and
  \<^verbatim>\<open>stop_session\<close> from one thread that calls them in turn.
\<close>

inductive robot_step :: "Robot \<Rightarrow> Robot \<Rightarrow> bool" where
  robot_queue: "queue_request request R = (Inr p, R') \<Longrightarrow> robot_step R R'"
| robot_worker: "io_documented io \<Longrightarrow> robot_step R (worker_loop_step io R)"
| robot_start: "worker_thread_m R = NotStarted \<Longrightarrow> robot_step R (start_session R)"
| robot_stop: "robot_step R (stop_session_signal R)"
| robot_stopped: "\<not> running_m R \<Longrightarrow> stop_session_finish R = Some R' \<Longrightarrow> robot_step R R'"

inductive_cases robot_stepE: "robot_step R R'"

section \<open>Sending\<close>

lemma send_loop_prefix:
  assumes "\<And>d. send d \<le> int (length d)" and "sent_so_far \<le> length msg"
    and "send_loop send msg sent_so_far wire = (ok, sent)"
  shows "\<exists>n. sent = wire @ take n (drop sent_so_far msg) \<and> (ok \<longrightarrow> sent = wire @ drop sent_so_far msg)"
  using assms
proof (induction send msg sent_so_far wire rule: send_loop.induct)
  case (1 send msg sent_so_far wire)
  let ?n = "send (drop sent_so_far msg)"
  show ?case
  proof (cases "sent_so_far < length msg \<and> 0 < ?n")
    case True
    have "?n \<le> int (length msg - sent_so_far)" using "1.prems"(1) [of "drop sent_so_far msg"] by simp
    with True have le: "sent_so_far + nat ?n \<le> length msg" by linarith
    have "send_loop send msg (sent_so_far + nat ?n) (wire @ take (nat ?n) (drop sent_so_far msg)) = (ok, sent)"
      using "1.prems"(3) True by (subst (asm) send_loop.simps) (simp add: Let_def)
    with "1.IH" "1.prems"(1) True le
    have "\<exists>k. sent = (wire @ take (nat ?n) (drop sent_so_far msg)) @ take k (drop (sent_so_far + nat ?n) msg) \<and>
        (ok \<longrightarrow> sent = (wire @ take (nat ?n) (drop sent_so_far msg)) @ drop (sent_so_far + nat ?n) msg)"
      by simp
    then obtain k where
      k: "sent = (wire @ take (nat ?n) (drop sent_so_far msg)) @ take k (drop (sent_so_far + nat ?n) msg)"
      and all: "ok \<longrightarrow> sent = (wire @ take (nat ?n) (drop sent_so_far msg)) @ drop (sent_so_far + nat ?n) msg"
      by blast
    have "drop (sent_so_far + nat ?n) msg = drop (nat ?n) (drop sent_so_far msg)" by (simp add: add.commute)
    with k all show ?thesis by (metis append.assoc append_take_drop_id take_add)
  next
    case False
    with "1.prems"(2,3) show ?thesis
      by (subst (asm) send_loop.simps)
        (auto simp: Let_def split: if_splits intro: exI [of _ 0])
  qed
qed

lemma send_loop_completes:
  assumes "\<And>d. d \<noteq> [] \<Longrightarrow> 0 < send d"
  shows "fst (send_loop send msg sent_so_far wire)"
  using assms
proof (induction send msg sent_so_far wire rule: send_loop.induct)
  case (1 send msg sent_so_far wire)
  show ?case
  proof (cases "sent_so_far < length msg")
    case True
    then have "0 < send (drop sent_so_far msg)" by (intro "1.prems") simp
    with True "1.IH" [OF True refl _ "1.prems"] show ?thesis
      by (subst send_loop.simps) (simp add: Let_def)
  qed (simp add: send_loop.simps)
qed

lemma send_request_wire:
  assumes "io_documented io" and "send_request io r R = (ok, R')"
  shows "\<exists>n. R' = R\<lparr>wire_m := wire_m R @ take n (bytes_RapidRequest r)\<rparr> \<and>
    (ok \<longrightarrow> R' = R\<lparr>wire_m := wire_m R @ bytes_RapidRequest r\<rparr>)"
proof -
  obtain ok' sent where loop:
    "send_loop (io_send io) (bytes_RapidRequest r) 0 [] = (ok', sent)" by fastforce
  have le0: "0 \<le> length (bytes_RapidRequest r)" by simp
  have "\<And>d. io_send io d \<le> int (length d)" using assms(1) by (simp add: io_documented_def)
  from send_loop_prefix [OF this le0 loop] obtain n where
    "sent = take n (bytes_RapidRequest r)" "ok' \<longrightarrow> sent = bytes_RapidRequest r"
    unfolding drop_0 append_Nil by blast
  moreover have "ok = ok'" "R' = R\<lparr>wire_m := wire_m R @ sent\<rparr>"
    using assms(2) loop by (simp_all add: send_request_def)
  ultimately show ?thesis by auto
qed

section \<open>Invariant\<close>

definition serving :: "Robot \<Rightarrow> RobotWorkItem list" where
  "serving R = (case worker_thread_m R of Serve item hb \<Rightarrow> if hb then [] else [item] | _ \<Rightarrow> [])"

text \<open>The work items whose promise a client may be waiting for.\<close>

definition pending_items :: "Robot \<Rightarrow> RobotWorkItem list" where
  "pending_items R = serving R @ request_queue_m R"

definition unanswered :: "Robot \<Rightarrow> nat option set" where
  "unanswered R = {Some p |p. p < length (promises_m R) \<and> promises_m R ! p = None}"

definition promises_ok :: "Robot \<Rightarrow> bool" where
  "promises_ok R \<longleftrightarrow>
     distinct (map wi_promise (pending_items R)) \<and>
     wi_promise ` set (pending_items R) = unanswered R"

definition framed :: "Robot \<Rightarrow> bool" where
  "framed R \<longleftrightarrow>
     (socket_fd_m R \<noteq> INVALID_SOCKET_FD \<longrightarrow> (\<exists>rs. wire_m R = concat (map bytes_RapidRequest rs)))"

definition connection_ok :: "Robot \<Rightarrow> bool" where
  "connection_ok R \<longleftrightarrow>
     connected_m R = (socket_fd_m R \<noteq> INVALID_SOCKET_FD) \<and>
     (case worker_thread_m R of
        Crashed \<Rightarrow> False | NotStarted \<Rightarrow> \<not> running_m R
      | TakeWork \<Rightarrow> connected_m R | Serve item hb \<Rightarrow> connected_m R | _ \<Rightarrow> True)"

definition robot_inv :: "Robot \<Rightarrow> bool" where
  "robot_inv R \<longleftrightarrow> promises_ok R \<and> framed R \<and> connection_ok R"

lemma unanswered_iff:
  "Some p \<in> unanswered R \<longleftrightarrow> p < length (promises_m R) \<and> promises_m R ! p = None"
  "None \<notin> unanswered R"
  by (auto simp: unanswered_def)

lemma unanswered_update:
  "p < length (promises_m R) \<Longrightarrow>
     unanswered (R\<lparr>promises_m := (promises_m R)[p := Some v]\<rparr>) = unanswered R - {Some p}"
proof (rule set_eqI)
  fix x assume "p < length (promises_m R)"
  then show "x \<in> unanswered (R\<lparr>promises_m := (promises_m R)[p := Some v]\<rparr>) \<longleftrightarrow>
      x \<in> unanswered R - {Some p}"
    by (cases x) (auto simp: unanswered_iff nth_list_update)
qed

lemma unanswered_append [simp]:
  "unanswered (R\<lparr>promises_m := promises_m R @ [None], request_queue_m := q\<rparr>) =
     insert (Some (length (promises_m R))) (unanswered R)" (is "unanswered ?S = ?U")
proof (rule set_eqI)
  fix x show "x \<in> unanswered ?S \<longleftrightarrow> x \<in> ?U"
    by (cases x) (auto simp: unanswered_iff nth_append)
qed

lemma enqueue_inv:
  assumes "robot_inv R"
  shows "robot_inv (snd (enqueue_request r R))"
proof -
  let ?R = "snd (enqueue_request r R)"
  let ?item = "\<lparr>wi_command = r, wi_promise = Some (length (promises_m R))\<rparr>"
  have "serving ?R = serving R" "request_queue_m ?R = request_queue_m R @ [?item]"
    by (simp_all add: enqueue_request_def serving_def Let_def)
  then have p: "pending_items ?R = pending_items R @ [?item]" by (simp add: pending_items_def)
  have u: "unanswered ?R = insert (Some (length (promises_m R))) (unanswered R)"
    by (simp add: enqueue_request_def Let_def)
  have new: "Some (length (promises_m R)) \<notin> unanswered R" by (simp add: unanswered_def)
  have "promises_ok R" using assms by (simp add: robot_inv_def)
  then have "promises_ok ?R" unfolding promises_ok_def p u using new by simp
  moreover have "framed ?R = framed R"
    by (simp add: framed_def enqueue_request_def Let_def)
  moreover have "connection_ok ?R = connection_ok R"
    by (cases "worker_thread_m R") (simp_all add: connection_ok_def enqueue_request_def Let_def)
  ultimately show ?thesis using assms by (simp add: robot_inv_def)
qed

lemma framed_append:
  assumes "\<exists>rs. w = concat (map bytes_RapidRequest rs)"
  shows "\<exists>rs. w @ bytes_RapidRequest r = concat (map bytes_RapidRequest rs)"
proof -
  from assms obtain rs where "w = concat (map bytes_RapidRequest rs)" by blast
  then have "w @ bytes_RapidRequest r = concat (map bytes_RapidRequest (rs @ [r]))" by simp
  then show ?thesis by blast
qed

text \<open>An exchange leaves everything but the wire alone, and a complete one leaves it framed.\<close>

lemma send_and_receive_frame:
  assumes "io_documented io" and "framed R" and "send_and_receive io r R = (res, R')"
  shows "\<exists>w. R' = R\<lparr>wire_m := w\<rparr> \<and> (\<forall>bs. res = Inr bs \<longrightarrow> framed R') \<and>
    (\<forall>e. res = Inl e \<longrightarrow> (\<exists>what. e = Exn what))"
proof (cases "socket_fd_m R = INVALID_SOCKET_FD")
  case True
  with assms(3) show ?thesis by (auto simp: send_and_receive_def intro: exI [of _ "wire_m R"])
next
  case False
  obtain ok S where S: "send_request io r R = (ok, S)" by fastforce
  with False assms(3) have res: "R' = S" "ok \<longrightarrow> res = receive_buffer io"
    "\<not> ok \<longrightarrow> res = Inl (Exn ''Failed to send command to robot'')"
    by (auto simp: send_and_receive_def split: if_splits)
  from send_request_wire [OF assms(1) S] obtain w where
    w: "S = R\<lparr>wire_m := w\<rparr>" "ok \<longrightarrow> S = R\<lparr>wire_m := wire_m R @ bytes_RapidRequest r\<rparr>" by blast
  have "framed S" if ok
    using that w(2) False assms(2) framed_append [of "wire_m R" r] by (simp add: framed_def)
  moreover have "\<exists>what. e = Exn what" if "receive_buffer io = Inl e" for e
    using that by (auto simp: receive_buffer_def split: option.splits if_splits)
  ultimately have "(\<forall>bs. res = Inr bs \<longrightarrow> framed R') \<and> (\<forall>e. res = Inl e \<longrightarrow> (\<exists>what. e = Exn what))"
    using res by (cases ok) simp_all
  moreover have "R' = R\<lparr>wire_m := w\<rparr>" using res(1) w(1) by (rule trans)
  ultimately show ?thesis by blast
qed

lemma close_connection_fields [simp]:
  "socket_fd_m (close_connection R) = INVALID_SOCKET_FD"
  "connected_m (close_connection R) = False"
  "running_m (close_connection R) = running_m R"
  "worker_thread_m (close_connection R) = worker_thread_m R"
  "request_queue_m (close_connection R) = request_queue_m R"
  "promises_m (close_connection R) = promises_m R"
  by (simp_all add: close_connection_def)

lemma set_value_open:
  "wi_promise item = Some p \<Longrightarrow> promises_m R ! p = None \<Longrightarrow>
     set_value item v R = (Inr (), R\<lparr>promises_m := (promises_m R)[p := Some v]\<rparr>)"
  by (simp add: set_value_def)

text \<open>
  Serving an item whose promise is open answers it and nothing else: with the response of a
  complete exchange, with the error text and the connection closed otherwise.
\<close>

lemma serve_item:
  assumes "io_documented io" and "framed R" and "wi_promise item = Some p"
    and "promises_m R ! p = None"
  shows "\<exists>v w. serve io item False R =
      (Inr (), R\<lparr>wire_m := w, promises_m := (promises_m R)[p := Some v]\<rparr>) \<and>
      framed (R\<lparr>wire_m := w\<rparr>) \<and> fst (send_and_receive io (wi_command item) R) = Inr v
    \<or> serve io item False R =
      (Inr (), (close_connection (R\<lparr>wire_m := w\<rparr>))\<lparr>promises_m := (promises_m R)[p := Some v]\<rparr>) \<and>
      (\<exists>e. fst (send_and_receive io (wi_command item) R) = Inl (Exn e) \<and>
        v = bytes_of_string (''ERR: '' @ e))"
proof -
  obtain res S where S: "send_and_receive io (wi_command item) R = (res, S)" by fastforce
  from send_and_receive_frame [OF assms(1,2) S] obtain w where
    w: "S = R\<lparr>wire_m := w\<rparr>" and ok: "\<forall>bs. res = Inr bs \<longrightarrow> framed S"
    and err: "\<forall>e. res = Inl e \<longrightarrow> (\<exists>what. e = Exn what)" by blast
  show ?thesis
  proof (cases res)
    case (Inr bs)
    have "bs \<noteq> []"
      using S Inr by (auto simp: send_and_receive_def receive_buffer_def
          split: if_splits option.splits prod.splits)
    with S Inr w assms(3,4) have "serve io item False R =
        (Inr (), R\<lparr>wire_m := w, promises_m := (promises_m R)[p := Some bs]\<rparr>)"
      by (simp add: serve_def serve_try_def cxx_defs set_value_open)
    with S Inr ok w show ?thesis by auto
  next
    case (Inl e)
    with err obtain what where e: "e = Exn what" by blast
    with S Inl w assms(3,4) have "serve io item False R =
        (Inr (), (close_connection (R\<lparr>wire_m := w\<rparr>))
          \<lparr>promises_m := (promises_m R)[p := Some (bytes_of_string (''ERR: '' @ what))]\<rparr>)"
      by (simp add: serve_def serve_try_def serve_catch_def cxx_defs set_value_open)
    with S Inl e show ?thesis by auto
  qed
qed

lemma serve_frame:
  assumes "serve io item hb R = (r, S)"
  shows "running_m S = running_m R \<and> request_queue_m S = request_queue_m R"
proof -
  have sv: "running_m (snd (set_value item v T)) = running_m T \<and>
      request_queue_m (snd (set_value item v T)) = request_queue_m T" for v T
    by (simp add: set_value_def split: option.split)
  have sr: "running_m (snd (send_and_receive io r T)) = running_m T \<and>
      request_queue_m (snd (send_and_receive io r T)) = request_queue_m T" for r T
    by (auto simp: send_and_receive_def send_request_def split: prod.splits)
  obtain res T where T: "send_and_receive io (wi_command item) R = (res, T)" by fastforce
  with sr [of "wi_command item" R]
  have fr: "running_m T = running_m R" "request_queue_m T = request_queue_m R" by simp_all
  obtain q U where U: "serve_try io item hb R = (q, U)" by fastforce
  with T fr sv have U': "running_m U = running_m R" "request_queue_m U = request_queue_m R"
    by (auto simp: serve_try_def cxx_defs split: sum.splits if_splits dest!: arg_cong [where f = snd])
  have ct: "running_m (snd (serve_catch w item hb V)) = running_m V \<and>
      request_queue_m (snd (serve_catch w item hb V)) = request_queue_m V" for w V
    using sv by (simp add: serve_catch_def cxx_defs)
  from assms U U' ct show ?thesis
    by (auto simp: serve_def split: sum.splits cxx_error.splits dest!: arg_cong [where f = snd])
qed

lemma serve_heartbeat:
  assumes "io_documented io" and "framed R"
  shows "\<exists>w. serve io item True R = (Inr (), R\<lparr>wire_m := w\<rparr>) \<and> framed (R\<lparr>wire_m := w\<rparr>)
    \<or> serve io item True R = (Inr (), close_connection (R\<lparr>wire_m := w\<rparr>))"
proof -
  obtain res S where S: "send_and_receive io (wi_command item) R = (res, S)" by fastforce
  from send_and_receive_frame [OF assms S] obtain w where
    "S = R\<lparr>wire_m := w\<rparr>" "\<forall>bs. res = Inr bs \<longrightarrow> framed S"
    "\<forall>e. res = Inl e \<longrightarrow> (\<exists>what. e = Exn what)" by blast
  with S show ?thesis
    by (cases res) (auto simp: serve_def serve_try_def serve_catch_def cxx_defs)
qed

lemma unanswered_promises: "unanswered R = {Some p |p. p < length (promises_m R) \<and> promises_m R ! p = None}"
  by (simp add: unanswered_def)

lemma promises_ok_cong:
  "pending_items S = pending_items R \<Longrightarrow> promises_m S = promises_m R \<Longrightarrow> promises_ok R \<Longrightarrow> promises_ok S"
  by (simp add: promises_ok_def unanswered_def)

lemma answered_ok:
  assumes "promises_ok R" and "pending_items R = item # rest" and "wi_promise item = Some p"
    and "pending_items S = rest" and "promises_m S = (promises_m R)[p := Some v]"
  shows "promises_ok S"
proof -
  have mem: "Some p \<in> unanswered R" and dist: "distinct (map wi_promise (item # rest))"
    and all: "insert (Some p) (wi_promise ` set rest) = unanswered R"
    using assms(1-3) by (auto simp: promises_ok_def)
  from mem have "p < length (promises_m R)" by (simp add: unanswered_iff)
  have "unanswered S = unanswered (R\<lparr>promises_m := (promises_m R)[p := Some v]\<rparr>)"
    using assms(5) by (simp add: unanswered_def)
  also have "\<dots> = unanswered R - {Some p}"
    using \<open>p < length (promises_m R)\<close> by (rule unanswered_update)
  also have "\<dots> = wi_promise ` set rest"
  proof -
    have "Some p \<notin> wi_promise ` set rest" using dist assms(3) by (simp flip: set_map)
    then show ?thesis using all by blast
  qed
  finally show ?thesis using dist assms(4) by (simp add: promises_ok_def)
qed

lemma pending_promise:
  assumes "promises_ok R" and "item \<in> set (pending_items R)"
  obtains p where "wi_promise item = Some p" "p < length (promises_m R)" "promises_m R ! p = None"
proof (cases "wi_promise item")
  case None
  then show thesis using assms unanswered_iff(2) [of R] by (force simp: promises_ok_def)
next
  case (Some p)
  then have "Some p \<in> unanswered R" using assms by (force simp: promises_ok_def)
  with Some that show thesis by (simp add: unanswered_iff)
qed

lemma head_state_inv:
  "promises_ok (S\<lparr>worker_thread_m := LoopHead\<rparr>) \<Longrightarrow> framed S \<Longrightarrow>
     connected_m S = (socket_fd_m S \<noteq> INVALID_SOCKET_FD) \<Longrightarrow>
     robot_inv (S\<lparr>worker_thread_m := LoopHead\<rparr>)"
  by (simp add: robot_inv_def framed_def connection_ok_def)

lemma framed_closed:
  "framed (close_connection R)" "framed ((close_connection R)\<lparr>promises_m := ps\<rparr>)"
  by (simp_all add: framed_def)

lemma framed_promises: "framed (R\<lparr>promises_m := ps\<rparr>) = framed R"
  by (simp add: framed_def)

lemma pending_head: "pending_items (S\<lparr>worker_thread_m := LoopHead\<rparr>) = request_queue_m S"
  by (simp add: pending_items_def serving_def)

lemma attempt_inv:
  assumes "robot_inv R" and "\<not> connected_m R" and "worker_thread_m R = LoopHead"
  shows "robot_inv (worker_loop_step io R)"
proof (cases "running_m R")
  case False
  with assms show ?thesis
    by (auto simp: robot_inv_def worker_loop_step_def framed_def connection_ok_def
        pending_items_def serving_def intro: promises_ok_cong [of _ R])
next
  case True
  have inv: "socket_fd_m R = INVALID_SOCKET_FD" using assms by (simp add: robot_inv_def connection_ok_def)
  obtain fd k where c: "connect_tcp (io_os io) (host_m R) (port_m R) (socket_timeout_ms_m R)
      (kernel_m R) = (fd, k)" by fastforce
  have "\<exists>rs. [] = concat (map bytes_RapidRequest rs)" by (rule exI [of _ "[]"]) simp
  with True inv c assms show ?thesis
    by (cases "fd = INVALID_SOCKET_FD")
      (simp_all add: robot_inv_def worker_loop_step_def attempt_connection_def framed_def
        connection_ok_def pending_items_def serving_def Let_def
        promises_ok_cong [of _ R])
qed

lemma head_inv:
  assumes "robot_inv R" and "connected_m R" and "worker_thread_m R = LoopHead"
  shows "robot_inv (worker_loop_step io R)"
  using assms
  by (simp add: robot_inv_def worker_loop_step_def framed_def connection_ok_def
      pending_items_def serving_def promises_ok_cong [of _ R])

lemma take_inv:
  assumes "robot_inv R" and "worker_thread_m R = TakeWork"
  shows "robot_inv (worker_loop_step io R)"
  using assms
  by (cases "request_queue_m R")
    (auto simp: robot_inv_def worker_loop_step_def framed_def connection_ok_def pop_request_def
      pending_items_def serving_def promises_ok_cong [of _ R])

lemma serve_inv:
  assumes "robot_inv R" and "worker_thread_m R = Serve item hb" and "io_documented io"
  shows "robot_inv (worker_loop_step io R)"
proof -
  have ok: "promises_ok R" "framed R" "connected_m R = (socket_fd_m R \<noteq> INVALID_SOCKET_FD)"
    using assms(1) by (simp_all add: robot_inv_def connection_ok_def)
  have step: "worker_loop_step io R = S\<lparr>worker_thread_m := LoopHead\<rparr>"
    if "serve io item hb R = (Inr (), S)" for S
    using that assms(2) by (simp add: worker_loop_step_def)
  show ?thesis
  proof (cases hb)
    case True
    have pend: "pending_items R = request_queue_m R"
      using assms(2) True by (simp add: pending_items_def serving_def)
    have "\<exists>S w. serve io item hb R = (Inr (), S) \<and>
        (S = R\<lparr>wire_m := w\<rparr> \<and> framed S \<or> S = close_connection (R\<lparr>wire_m := w\<rparr>))"
      using serve_heartbeat [OF assms(3) ok(2), of item] True by auto
    then obtain S w where S: "serve io item hb R = (Inr (), S)"
      and "S = R\<lparr>wire_m := w\<rparr> \<and> framed S \<or> S = close_connection (R\<lparr>wire_m := w\<rparr>)"
      by blast
    then have "promises_m S = promises_m R" "request_queue_m S = request_queue_m R" "framed S"
      "connected_m S = (socket_fd_m S \<noteq> INVALID_SOCKET_FD)"
      using ok(3) by (auto simp: framed_closed)
    then show ?thesis
      unfolding step [OF S] by (intro head_state_inv promises_ok_cong [OF _ _ ok(1)])
        (simp_all add: pending_head pend)
  next
    case False
    have pend: "pending_items R = item # request_queue_m R"
      using assms(2) False by (simp add: pending_items_def serving_def)
    with ok(1) obtain p where p: "wi_promise item = Some p" "promises_m R ! p = None"
      by (metis list.set_intros(1) pending_promise)
    have "\<exists>S v w. serve io item hb R = (Inr (), S) \<and>
      (S = R\<lparr>wire_m := w, promises_m := (promises_m R)[p := Some v]\<rparr> \<and> framed (R\<lparr>wire_m := w\<rparr>)
       \<or> S = (close_connection (R\<lparr>wire_m := w\<rparr>))\<lparr>promises_m := (promises_m R)[p := Some v]\<rparr>)"
      using serve_item [OF assms(3) ok(2) p] False by auto
    then obtain S v w where
      S: "serve io item hb R = (Inr (), S)" and
      "S = R\<lparr>wire_m := w, promises_m := (promises_m R)[p := Some v]\<rparr> \<and> framed (R\<lparr>wire_m := w\<rparr>)
       \<or> S = (close_connection (R\<lparr>wire_m := w\<rparr>))\<lparr>promises_m := (promises_m R)[p := Some v]\<rparr>"
      by blast
    then have "promises_m S = (promises_m R)[p := Some v]" "request_queue_m S = request_queue_m R"
      "framed S" "connected_m S = (socket_fd_m S \<noteq> INVALID_SOCKET_FD)"
      using ok(3) by (auto simp: framed_closed framed_promises)
    then show ?thesis
      unfolding step [OF S] by (intro head_state_inv answered_ok [OF ok(1) pend p(1)])
        (simp_all add: pending_head)
  qed
qed

lemma worker_inv:
  assumes "robot_inv R" and "io_documented io"
  shows "robot_inv (worker_loop_step io R)"
proof (cases "worker_thread_m R")
  case LoopHead
  with assms attempt_inv head_inv show ?thesis by blast
next
  case TakeWork
  with assms take_inv show ?thesis by blast
next
  case (Serve item hb)
  with assms serve_inv show ?thesis by blast
qed (use assms in \<open>simp_all add: worker_loop_step_def\<close>)

lemma start_inv: "robot_inv R \<Longrightarrow> worker_thread_m R = NotStarted \<Longrightarrow> robot_inv (start_session R)"
  by (auto simp: robot_inv_def start_session_def framed_def connection_ok_def pending_items_def
      serving_def intro: promises_ok_cong [of _ R])

lemma stop_inv: "robot_inv R \<Longrightarrow> robot_inv (stop_session_signal R)"
  by (cases "worker_thread_m R")
    (auto simp: robot_inv_def stop_session_signal_def framed_def connection_ok_def
      pending_items_def serving_def intro: promises_ok_cong [of _ R])

lemma finish_inv:
  assumes "robot_inv R" and "\<not> running_m R" and "stop_session_finish R = Some S"
  shows "robot_inv S"
proof -
  from assms(3) have S: "S = close_connection (R\<lparr>worker_thread_m := NotStarted\<rparr>)"
    and idle: "worker_thread_m R \<in> {NotStarted, Exited}"
    by (auto simp: stop_session_finish_def joinable_done_def split: if_splits)
  have "pending_items S = pending_items R" "promises_m S = promises_m R"
    using idle unfolding S by (auto simp: pending_items_def serving_def)
  with assms(1) have "promises_ok S" by (auto simp: robot_inv_def intro: promises_ok_cong)
  moreover have "framed S" unfolding S by (rule framed_closed)
  moreover have "connection_ok S" unfolding S using assms(2) by (simp add: connection_ok_def)
  ultimately show ?thesis by (simp add: robot_inv_def)
qed

interpretation rb: invariant_of "\<lambda>R. \<exists>host port ms k. R = Robot_new host port ms k" robot_step robot_inv
proof unfold_locales
  fix R assume "\<exists>host port ms k. R = Robot_new host port ms k"
  then show "robot_inv R"
    by (auto simp: robot_inv_def Robot_new_def promises_ok_def pending_items_def serving_def
        unanswered_def framed_def connection_ok_def)
next
  fix R S assume "robot_step R S" and inv: "robot_inv R"
  then show "robot_inv S"
  proof (cases rule: robot_step.cases)
    case (robot_queue request p)
    then have "S = snd (enqueue_request request R)" by (auto simp: queue_request_def split: if_splits)
    with inv show ?thesis by (simp add: enqueue_inv)
  next
    case (robot_stopped)
    with inv show ?thesis by (auto intro: finish_inv)
  qed (use inv in \<open>auto intro: worker_inv start_inv stop_inv\<close>)
qed

section \<open>Interfaces\<close>

interpretation rq: fifo request_queue_m enqueue_request pop_request
  by unfold_locales (auto simp: enqueue_request_def pop_request_def Let_def split: list.split)

section \<open>Properties\<close>

text \<open>
  C13. Futures are answered at most once and none is lost while the session lives: in every
  reachable state a promise that has been made is either answered, or its item is pending (queued,
  or with the worker) exactly once; no two pending items share a promise; the worker thread has
  not died of an exception; and the connected flag tells whether there is a socket.
\<close>

theorem robot_promises:
  assumes "reach (\<lambda>R. \<exists>host port ms k. R = Robot_new host port ms k) robot_step R"
  shows "(\<forall>p < length (promises_m R).
      (promises_m R ! p = None) = (Some p \<in> wi_promise ` set (pending_items R))) \<and>
    distinct (map wi_promise (pending_items R)) \<and> worker_thread_m R \<noteq> Crashed \<and>
    is_connected R = (socket_fd_m R \<noteq> INVALID_SOCKET_FD)"
proof -
  have inv: "robot_inv R" using assms by (rule rb.reach_inv)
  then have "worker_thread_m R \<noteq> Crashed" by (auto simp: robot_inv_def connection_ok_def)
  with inv show ?thesis
    by (simp add: robot_inv_def promises_ok_def unanswered_iff connection_ok_def is_connected_def)
qed

definition demo_robot :: Robot where
  "demo_robot = start_session (Robot_new ''10.0.0.2'' 5000 5000 \<lparr>open_fds = [], live_addrinfos = 0\<rparr>)"

lemma demo_robot_reach:
  "reach (\<lambda>R. \<exists>host port ms k. R = Robot_new host port ms k) robot_step demo_robot"
  unfolding demo_robot_def
  by (rule reach_step, rule reach_start, blast, rule robot_start) (simp add: Robot_new_def)

theorem robot_promises_witness:
  "wi_promise ` set (pending_items (snd (queue_request zero_request demo_robot))) = {Some 0}"
proof -
  let ?R = "snd (queue_request zero_request demo_robot)"
  have "queue_request zero_request demo_robot = (Inr 0, ?R)"
    by (simp add: queue_request_def demo_robot_def start_session_def Robot_new_def)
  then have "reach (\<lambda>R. \<exists>host port ms k. R = Robot_new host port ms k) robot_step ?R"
    by (blast intro: reach_step demo_robot_reach robot_queue)
  from robot_promises [OF this] have
    "(\<forall>p < length (promises_m ?R). (promises_m ?R ! p = None) = (Some p \<in> wi_promise ` set (pending_items ?R)))"
    by blast
  then show ?thesis
    by (auto simp: queue_request_def enqueue_request_def demo_robot_def start_session_def
        Robot_new_def pending_items_def serving_def Let_def)
qed

text \<open>
  C24. Framing: in every reachable state with a socket, what the kernel has taken on the current
  connection is a sequence of whole 188-byte requests. A request cut short by an error is never
  followed by another one on the same connection.
\<close>

theorem robot_stream_framed:
  assumes "reach (\<lambda>R. \<exists>host port ms k. R = Robot_new host port ms k) robot_step R"
    and "socket_fd_m R \<noteq> INVALID_SOCKET_FD"
  shows "\<exists>rs. wire_m R = concat (map bytes_RapidRequest rs) \<and> length (wire_m R) = 188 * length rs"
proof -
  have "framed R" using rb.reach_inv [OF assms(1)] by (simp add: robot_inv_def)
  with assms(2) obtain rs where "wire_m R = concat (map bytes_RapidRequest rs)"
    by (auto simp: framed_def)
  moreover have "length (concat (map bytes_RapidRequest rs)) = 188 * length rs"
    by (induction rs) simp_all
  ultimately show ?thesis by metis
qed

definition demo_io :: robot_io where
  "demo_io =
     \<lparr>io_os = demo_os, io_send = (\<lambda>d. int (min 100 (length d))),
      io_recv = (\<lambda>n. Some (bytes_of_string ''ACK'')), io_junk = zero_request\<rparr>"

theorem robot_stream_framed_witness:
  "\<exists>rs. wire_m (worker_loop_step demo_io demo_robot) = concat (map bytes_RapidRequest rs)"
proof -
  have "0 \<le> n" for n :: nat by simp
  have "reach (\<lambda>R. \<exists>host port ms k. R = Robot_new host port ms k) robot_step
      (worker_loop_step (demo_io\<lparr>io_recv := (\<lambda>n. None)\<rparr>) demo_robot)"
    by (rule reach_step [OF demo_robot_reach robot_worker])
      (simp add: io_documented_def demo_io_def)
  moreover have "socket_fd_m (worker_loop_step (demo_io\<lparr>io_recv := (\<lambda>n. None)\<rparr>) demo_robot) = 3"
    "worker_loop_step (demo_io\<lparr>io_recv := (\<lambda>n. None)\<rparr>) demo_robot = worker_loop_step demo_io demo_robot"
    by (simp_all add: worker_loop_step_def demo_robot_def start_session_def Robot_new_def
        attempt_connection_def connect_tcp_def getaddrinfo_def socket_open_def demo_io_def
        demo_os_def INVALID_SOCKET_FD_def Let_def)
  ultimately show ?thesis
    using robot_stream_framed [of "worker_loop_step demo_io demo_robot"]
    by (auto simp: INVALID_SOCKET_FD_def)
qed

text \<open>
  C35. The send loop: if every \<^verbatim>\<open>send\<close> takes between one byte and all it is given, it
  returns, with success, and has put exactly the bytes of the request on the connection, however
  the kernel split them; if some \<^verbatim>\<open>send\<close> takes nothing it returns failure or success with
  a prefix of them.
\<close>

theorem send_request_complete:
  assumes "io_documented io" and "send_request io r R = (ok, R')"
  shows "(\<exists>n. wire_m R' = wire_m R @ take n (bytes_RapidRequest r)) \<and>
    (ok \<longrightarrow> wire_m R' = wire_m R @ bytes_RapidRequest r) \<and>
    ((\<forall>d. d \<noteq> [] \<longrightarrow> 0 < io_send io d) \<longrightarrow> ok) \<and>
    length (bytes_RapidRequest r) = 188"
proof -
  have "ok" if "\<forall>d. d \<noteq> [] \<longrightarrow> 0 < io_send io d"
    using that assms(2) send_loop_completes [of "io_send io" "bytes_RapidRequest r" 0 "[]"]
    by (auto simp: send_request_def split: prod.splits)
  moreover from send_request_wire [OF assms] obtain n where
    n: "R' = R\<lparr>wire_m := wire_m R @ take n (bytes_RapidRequest r)\<rparr>" and
    all: "ok \<longrightarrow> R' = R\<lparr>wire_m := wire_m R @ bytes_RapidRequest r\<rparr>" by blast
  from n have "wire_m R' = wire_m R @ take n (bytes_RapidRequest r)" by simp
  moreover from all have "ok \<longrightarrow> wire_m R' = wire_m R @ bytes_RapidRequest r" by auto
  ultimately show ?thesis by auto
qed

theorem send_request_complete_witness:
  "fst (send_request (demo_io\<lparr>io_recv := (\<lambda>n. None)\<rparr>) zero_request demo_robot)"
proof -
  let ?io = "demo_io\<lparr>io_recv := (\<lambda>n. None)\<rparr>"
  obtain ok R where S: "send_request ?io zero_request demo_robot = (ok, R)" by fastforce
  have "io_documented ?io" by (simp add: io_documented_def demo_io_def)
  from send_request_complete [OF this S] S show ?thesis by (simp add: demo_io_def)
qed

text \<open>
  Serving a client's request answers its future, whatever the network does, and only that one:
  with the bytes received when the exchange completes (the connection stays up), otherwise with
  \<open>ERR: \<close> and the reason, the socket closed and the robot marked disconnected. The queue is left
  alone, so the requests behind it wait for the next connection.
\<close>

lemma worker_answers:
  assumes "robot_inv R" and "worker_thread_m R = Serve item False" and "io_documented io"
    and "S = worker_loop_step io R"
  shows "\<exists>p v. wi_promise item = Some p \<and> promises_m S = (promises_m R)[p := Some v] \<and>
    worker_thread_m S = LoopHead \<and> request_queue_m S = request_queue_m R \<and>
    (fst (send_and_receive io (wi_command item) R) = Inr v \<and> v \<noteq> [] \<and> is_connected S
     \<or> (\<exists>e. fst (send_and_receive io (wi_command item) R) = Inl (Exn e) \<and>
         v = bytes_of_string (''ERR: '' @ e) \<and> \<not> is_connected S \<and>
         socket_fd_m S = INVALID_SOCKET_FD))"
proof -
  have ok: "promises_ok R" "framed R" "connected_m R"
    using assms(1,2) by (auto simp: robot_inv_def connection_ok_def)
  have "item \<in> set (pending_items R)" using assms(2) by (simp add: pending_items_def serving_def)
  with ok(1) obtain p where p: "wi_promise item = Some p" "promises_m R ! p = None"
    by (rule pending_promise)
  have nonempty: "v \<noteq> []" if "fst (send_and_receive io (wi_command item) R) = Inr v" for v
    using that by (auto simp: send_and_receive_def receive_buffer_def
        split: if_splits option.splits prod.splits)
  from serve_item [OF assms(3) ok(2) p] show ?thesis
    using assms(2,4) ok(3) p nonempty by (auto simp: worker_loop_step_def is_connected_def)
qed

definition demo_item :: RobotWorkItem where
  "demo_item = \<lparr>wi_command = zero_request, wi_promise = Some 0\<rparr>"

definition demo_serving :: Robot where
  "demo_serving =
     (Robot_new ''10.0.0.2'' 5000 5000 \<lparr>open_fds = [3], live_addrinfos = 0\<rparr>)
       \<lparr>socket_fd_m := 3, connected_m := True, running_m := True, promises_m := [None, None],
        worker_thread_m := Serve demo_item False,
        request_queue_m := [\<lparr>wi_command = zero_request, wi_promise = Some 1\<rparr>]\<rparr>"

lemma demo_serving_inv: "robot_inv demo_serving"
proof -
  have "\<exists>rs. [] = concat (map bytes_RapidRequest rs)" by (rule exI [of _ "[]"]) simp
  moreover have "unanswered demo_serving = {Some 0, Some 1}"
    by (auto simp: unanswered_def demo_serving_def less_Suc_eq)
  ultimately show ?thesis
    by (auto simp: robot_inv_def promises_ok_def framed_def connection_ok_def pending_items_def
        serving_def demo_serving_def Robot_new_def demo_item_def INVALID_SOCKET_FD_def)
qed

lemma worker_answers_witness:
  "promises_m (worker_loop_step (demo_io\<lparr>io_recv := (\<lambda>n. None)\<rparr>) demo_serving) \<noteq> [None, None]"
proof -
  let ?io = "demo_io\<lparr>io_recv := (\<lambda>n. None)\<rparr>"
  have "io_documented ?io" by (simp add: io_documented_def demo_io_def)
  moreover have "worker_thread_m demo_serving = Serve demo_item False"
    by (simp add: demo_serving_def)
  ultimately obtain p v where "wi_promise demo_item = Some p"
    "promises_m (worker_loop_step ?io demo_serving) = (promises_m demo_serving)[p := Some v]"
    using worker_answers [OF demo_serving_inv, of demo_item ?io] by blast
  then show ?thesis by (simp add: demo_item_def demo_serving_def)
qed

text \<open>
  The robot's queue hands work to its worker in the order in which \<^verbatim>\<open>queue_request\<close>
  accepted it, every item once: what was accepted is what was taken followed by what is queued.
\<close>

lemma robot_queue_order:
  assumes "fifo_run enqueue_request pop_request cs R = (ins, outs, R')"
    and "request_queue_m R = []"
  shows "ins = outs @ request_queue_m R' \<and>
    (\<forall>r. running_m R \<longrightarrow> queue_request r R = (Inr (length (promises_m R)), snd (enqueue_request r R)))"
  using rq.fifo_order [OF assms(1)] assms(2) by (simp add: queue_request_def)

lemma robot_queue_order_witness:
  "\<exists>R'. fifo_run enqueue_request pop_request [Put zero_request, Take, Put zero_request] demo_robot =
     ([demo_item, demo_item\<lparr>wi_promise := Some 1\<rparr>], [demo_item], R') \<and>
     request_queue_m R' = [demo_item\<lparr>wi_promise := Some 1\<rparr>]"
proof -
  let ?cs = "[Put zero_request, Take, Put zero_request]"
  have "\<exists>R'. fifo_run enqueue_request pop_request ?cs demo_robot =
     ([demo_item, demo_item\<lparr>wi_promise := Some 1\<rparr>], [demo_item], R')"
    by (simp add: enqueue_request_def pop_request_def demo_robot_def start_session_def Robot_new_def
        demo_item_def Let_def)
  then obtain R' where run: "fifo_run enqueue_request pop_request ?cs demo_robot =
     ([demo_item, demo_item\<lparr>wi_promise := Some 1\<rparr>], [demo_item], R')" by blast
  have "request_queue_m demo_robot = []"
    by (simp add: demo_robot_def start_session_def Robot_new_def)
  from robot_queue_order [OF run this] run show ?thesis by auto
qed

text \<open>
  C37. Stopping a session abandons its queue: from the moment \<^verbatim>\<open>stop_session\<close> clears the
  running flag, no step of the worker, however many, answers the future of a queued request or
  takes the request out of the queue (whoever waits for it waits for its own timeout).
\<close>

theorem stop_abandons_queue:
  assumes "robot_inv R" and "item \<in> set (request_queue_m R)" and "wi_promise item = Some p"
    and "\<forall>io \<in> set ios. io_documented io"
    and "S = fold worker_loop_step ios (stop_session_signal R)"
  shows "promises_m S ! p = None \<and> request_queue_m S = request_queue_m R"
proof -
  have quiet: "robot_inv T \<Longrightarrow> \<not> running_m T \<Longrightarrow> item \<in> set (request_queue_m T) \<Longrightarrow>
      \<forall>io \<in> set ios. io_documented io \<Longrightarrow>
      promises_m (fold worker_loop_step ios T) ! p = None \<and>
      request_queue_m (fold worker_loop_step ios T) = request_queue_m T" for T
  proof (induction ios arbitrary: T)
    case Nil
    then have "item \<in> set (pending_items T)" by (simp add: pending_items_def)
    moreover have "promises_ok T" using Nil(1) by (simp add: robot_inv_def)
    ultimately show ?case using assms(3) by (auto elim: pending_promise)
  next
    case (Cons io ios)
    have keep: "\<not> running_m (worker_loop_step io T) \<and>
        request_queue_m (worker_loop_step io T) = request_queue_m T"
    proof (cases "worker_thread_m T")
      case (Serve it hb)
      obtain r U where U: "serve io it hb T = (r, U)" by fastforce
      have "running_m U = running_m T \<and> request_queue_m U = request_queue_m T"
        using U serve_frame by blast
      with Serve U Cons.prems(2) show ?thesis by (simp add: worker_loop_step_def split: sum.split)
    qed (use Cons.prems(2) in \<open>simp_all add: worker_loop_step_def\<close>)
    with Cons.prems Cons.IH [of "worker_loop_step io T"] worker_inv [of T io] show ?case by simp
  qed
  have "robot_inv (stop_session_signal R)" using assms(1) by (rule stop_inv)
  with quiet [of "stop_session_signal R"] assms(2,4,5) show ?thesis
    by (simp add: stop_session_signal_def)
qed

theorem stop_abandons_queue_witness:
  "promises_m (fold worker_loop_step [demo_io\<lparr>io_recv := (\<lambda>n. None)\<rparr>] (stop_session_signal demo_serving)) ! 1
     = None"
  using stop_abandons_queue [OF demo_serving_inv,
      of "\<lparr>wi_command = zero_request, wi_promise = Some 1\<rparr>" 1 "[demo_io\<lparr>io_recv := (\<lambda>n. None)\<rparr>]"]
  by (simp add: demo_serving_def io_documented_def demo_io_def)

end
