(* ===== verification/Handler.thy ===== *)
theory Handler
  imports Session Tasker Decoder Robot
begin

text \<open>
  The request handler: \<^verbatim>\<open>src/server/request_handler.hpp\<close> and
  \<^verbatim>\<open>request_handler.cpp\<close>. It keeps references to the server's session manager, task
  registry and robot; the state here is those three. A response is the record of the fields a
  handler has set (the message type is generated).
\<close>

section \<open>Responses and state\<close>

datatype ResponseStatus = SUCCESS | WARNING | ERROR

datatype TaskStatus = TASK_PENDING | TASK_IN_PROGRESS | TASK_COMPLETED | TASK_FAILED

text \<open>
  \<open>res_robot_status\<close>: not touched, \<open>Some None\<close> when only made present, \<open>Some (Some st)\<close> when filled.
\<close>

record ServerResponse =
  res_status :: "ResponseStatus option"
  res_error_message :: "string option"
  res_text_payload :: "string option"
  res_task_status :: "TaskStatus option"
  res_task_id :: "task_id_t option"
  res_robot_status :: "RobotStatus option option"

definition ServerResponse_new :: ServerResponse where
  "ServerResponse_new =
     \<lparr>res_status = None, res_error_message = None, res_text_payload = None,
      res_task_status = None, res_task_id = None, res_robot_status = None\<rparr>"

definition set_error :: "string \<Rightarrow> ServerResponse \<Rightarrow> ServerResponse" where
  "set_error msg res = res\<lparr>res_status := Some ERROR, res_error_message := Some msg\<rparr>"

definition set_success :: "string \<Rightarrow> ServerResponse \<Rightarrow> ServerResponse" where
  "set_success msg res = res\<lparr>res_status := Some SUCCESS, res_text_payload := Some msg\<rparr>"

record ServerState =
  session_manager_s :: SessionManager
  tasker_s :: Tasker
  robot_s :: "Robot option"

definition with_sessions :: "(SessionManager, 'a) cxx \<Rightarrow> (ServerState, 'a) cxx" where
  "with_sessions = cxx_part session_manager_s (\<lambda>p s. s\<lparr>session_manager_s := p\<rparr>)"

definition with_tasker :: "(Tasker \<Rightarrow> 'a \<times> Tasker) \<Rightarrow> (ServerState, 'a) cxx" where
  "with_tasker f = cxx_part tasker_s (\<lambda>p s. s\<lparr>tasker_s := p\<rparr>) (\<lambda>T. case f T of (a, T) \<Rightarrow> (Inr a, T))"

definition lift_sum :: "cxx_error + 'a \<Rightarrow> ('s, 'a) cxx" where
  "lift_sum r = (case r of Inl e \<Rightarrow> cxx_throw e | Inr a \<Rightarrow> cxx_return a)"

definition value_or_empty :: "string option \<Rightarrow> string" where
  "value_or_empty v = (case v of Some s \<Rightarrow> s | None \<Rightarrow> [])"

definition token_of :: "DecodedRequest \<Rightarrow> string" where
  "token_of req = value_or_empty (session_token req)"

text \<open>
  What a request meets outside: the clock when the session is touched and when a task is created,
  and the draws of a token.
\<close>

record handler_env =
  touch_time :: int
  task_time :: int
  draws :: "nat \<Rightarrow> nat"

section \<open>Validation\<close>

definition validate_token :: "handler_env \<Rightarrow> DecodedRequest \<Rightarrow> (ServerState, bool) cxx" where
  "validate_token env req =
     cxx_bind (with_sessions (is_valid_token (token_of req))) (\<lambda>v.
       if v then cxx_then (with_sessions (touch_session (touch_time env) (token_of req)))
                   (cxx_return True)
       else cxx_return False)"

definition validate_hardware_lock :: "DecodedRequest \<Rightarrow> (ServerState, bool) cxx" where
  "validate_hardware_lock req = with_sessions (has_lock (token_of req))"

section \<open>Handlers\<close>

definition handle_login :: "handler_env \<Rightarrow> DecodedRequest \<Rightarrow> ServerResponse \<Rightarrow> (ServerState, ServerResponse) cxx"
  where
  "handle_login env req res =
     cxx_bind (with_sessions (login (draws env) (value_or_empty (username req))
                (value_or_empty (password req)))) (\<lambda>t.
       let token = value_or_empty t in
       if token = [] then cxx_return (set_error ''Invalid credentials'' res)
       else cxx_return (set_success token res))"

definition handle_logout :: "handler_env \<Rightarrow> DecodedRequest \<Rightarrow> ServerResponse \<Rightarrow> (ServerState, ServerResponse) cxx"
  where
  "handle_logout env req res =
     (if token_of req = [] then cxx_return (set_error ''No token provided'' res)
      else cxx_bind (validate_token env req) (\<lambda>valid.
        if \<not> valid then cxx_return (set_error ''Invalid token'' res)
        else cxx_bind (validate_hardware_lock req) (\<lambda>locked.
          cxx_then
            (if locked then cxx_then (with_sessions (release_lock (token_of req))) (cxx_return ())
             else cxx_return ())
            (cxx_then (with_sessions (logout (token_of req)))
              (cxx_return (set_success ''Logged out successfully'' res))))))"

definition handle_acquire :: "handler_env \<Rightarrow> DecodedRequest \<Rightarrow> ServerResponse \<Rightarrow> (ServerState, ServerResponse) cxx"
  where
  "handle_acquire env req res =
     cxx_bind (validate_token env req) (\<lambda>valid.
       if \<not> valid then cxx_return (set_error ''Invalid token'' res)
       else cxx_bind (validate_hardware_lock req) (\<lambda>locked.
         if locked then
           cxx_return (res\<lparr>res_status := Some WARNING,
             res_error_message := Some ''You already have a hardware lock''\<rparr>)
         else if token_of req = [] then cxx_return (set_error ''No token provided'' res)
         else cxx_bind (with_sessions (acquire_lock (token_of req))) (\<lambda>acquired.
           if \<not> acquired then
             cxx_return (set_error ''Failed to acquire lock. Someone else may have it locked.'' res)
           else cxx_return (set_success ''Lock acquired successfully'' res))))"

definition handle_release :: "handler_env \<Rightarrow> DecodedRequest \<Rightarrow> ServerResponse \<Rightarrow> (ServerState, ServerResponse) cxx"
  where
  "handle_release env req res =
     cxx_bind (validate_token env req) (\<lambda>valid.
       if \<not> valid then cxx_return (set_error ''Invalid token'' res)
       else cxx_bind (validate_hardware_lock req) (\<lambda>locked.
         if \<not> locked then cxx_return (set_error ''Hardware lock not acquired'' res)
         else cxx_then (with_sessions (release_lock (token_of req)))
           (cxx_return (set_success ''Lock released successfully'' res))))"

text \<open>The response to a poll of a completed task: telemetry is unpacked into the status.\<close>

definition completed_response :: "Task \<Rightarrow> ServerResponse \<Rightarrow> cxx_error + ServerResponse" where
  "completed_response task res =
     (let res = res\<lparr>res_status := Some SUCCESS, res_task_status := Some TASK_COMPLETED\<rparr> in
      if command_id (m_request task) = cmd_code GETSTATUS then
        sum_bind (unpack_robot_status (bytes_of_string (m_response task))) (\<lambda>st.
          let res = res\<lparr>res_robot_status := Some st\<rparr> in
          if st = None then Inr (set_error ''Failed to unpack telemetry payload'' res) else Inr res)
      else Inr (res\<lparr>res_text_payload := Some (m_response task)\<rparr>))"

definition handle_check_task :: "handler_env \<Rightarrow> DecodedRequest \<Rightarrow> ServerResponse \<Rightarrow> (ServerState, ServerResponse) cxx"
  where
  "handle_check_task env req res =
     cxx_bind (validate_token env req) (\<lambda>valid.
       if \<not> valid then cxx_return (set_error ''Invalid token'' res)
       else cxx_bind (validate_hardware_lock req) (\<lambda>locked.
         if \<not> locked then cxx_return (set_error ''Hardware lock not acquired'' res)
         else (case task_id req of
           None \<Rightarrow> cxx_throw (Exn ''bad optional access'')
         | Some tid \<Rightarrow>
             cxx_bind (with_tasker (\<lambda>T. (getTask tid T, T))) (\<lambda>found.
               case found of
                 None \<Rightarrow> cxx_return (set_error ''Task ID not found in registry'' res)
               | Some task \<Rightarrow>
                   (case m_state task of
                      COMPLETED \<Rightarrow>
                        cxx_bind (lift_sum (completed_response task res)) (\<lambda>res.
                          cxx_then (with_tasker (removeTask tid)) (cxx_return res))
                    | PENDING \<Rightarrow>
                        cxx_return (res\<lparr>res_status := Some SUCCESS, res_task_status := Some TASK_PENDING\<rparr>)
                    | IN_PROGRESS \<Rightarrow>
                        cxx_return (res\<lparr>res_status := Some SUCCESS,
                          res_task_status := Some TASK_IN_PROGRESS\<rparr>)
                    | FAILED \<Rightarrow>
                        cxx_then (with_tasker (removeTask tid))
                          (cxx_return (res\<lparr>res_status := Some SUCCESS,
                            res_task_status := Some TASK_FAILED,
                            res_error_message := Some
                              (if m_response task = []
                               then ''Task execution failed at robot controller''
                               else m_response task)\<rparr>)))))))"

text \<open>
  When the conversion of the speed is undefined behaviour, the model stops there; what the program
  does from then on is open, and no property says anything of the state after it.
\<close>

definition handle_robot_command :: "handler_env \<Rightarrow> DecodedRequest \<Rightarrow> ServerResponse \<Rightarrow> (ServerState, ServerResponse) cxx"
  where
  "handle_robot_command env req res =
     cxx_bind (cxx_read robot_s) (\<lambda>robot.
       case robot of
         None \<Rightarrow> cxx_return (set_error ''Robot is nullptr. Call skibidi toilet to fix it :c'' res)
       | Some R \<Rightarrow>
     cxx_bind (validate_token env req) (\<lambda>valid.
       if \<not> valid then cxx_return (set_error ''Invalid token'' res)
       else cxx_bind (validate_hardware_lock req) (\<lambda>locked.
         if \<not> locked then cxx_return (set_error ''Hardware lock not acquired'' res)
         else if \<not> is_connected R then cxx_return (set_error ''Robot not connected'' res)
         else cxx_bind (lift_sum (create_rapid_request req)) (\<lambda>robot_req.
           cxx_bind (with_tasker (addTask (task_time env) robot_req)) (\<lambda>new_task_id.
             cxx_return (res\<lparr>res_status := Some SUCCESS, res_task_status := Some TASK_PENDING,
               res_task_id := Some new_task_id,
               res_text_payload := Some ''TaskAdded.uwunyanichan''\<rparr>))))))"

definition handle_exit :: "handler_env \<Rightarrow> DecodedRequest \<Rightarrow> ServerResponse \<Rightarrow> (ServerState, ServerResponse) cxx"
  where
  "handle_exit env req res =
     cxx_bind (validate_token env req) (\<lambda>valid.
       cxx_bind (if valid then validate_hardware_lock req else cxx_return False) (\<lambda>granted.
         if granted then cxx_return (set_success ''OKISUWU'' res)
         else cxx_return (set_error ''Invalid token'' res)))"

text \<open>
  \<^verbatim>\<open>handle\<close>: every request but a poll is logged first, with the user of its token. The
  running flag it is given is not changed (the assignment is commented out).
\<close>

definition handle :: "handler_env \<Rightarrow> DecodedRequest \<Rightarrow> (ServerState, ServerResponse) cxx" where
  "handle env req =
     cxx_then
       (if cmd_type req \<noteq> CHECK_TASK
        then cxx_then (with_sessions (token_to_username (token_of req))) (cxx_return ())
        else cxx_return ())
       (let response = ServerResponse_new in
        case cmd_type req of
          UNKNOWN \<Rightarrow> cxx_return (set_error ''Unknown command'' response)
        | LOGIN \<Rightarrow> handle_login env req response
        | LOGOUT \<Rightarrow> handle_logout env req response
        | ACQUIRE \<Rightarrow> handle_acquire env req response
        | RELEASE \<Rightarrow> handle_release env req response
        | CHECK_TASK \<Rightarrow> handle_check_task env req response
        | EXIT \<Rightarrow> handle_exit env req response
        | PING \<Rightarrow> cxx_return (set_success ''PONGUWU'' response)
        | _ \<Rightarrow> handle_robot_command env req response)"

section \<open>Handlers with the session mutex free\<close>

abbreviation mutex_free :: "ServerState \<Rightarrow> bool" where
  "mutex_free s \<equiv> \<not> mutex_m (session_manager_s s)"

definition live_token :: "DecodedRequest \<Rightarrow> ServerState \<Rightarrow> bool" where
  "live_token req s \<longleftrightarrow> token_of req \<in> tokens (session_manager_s s)"

definition lock_held :: "DecodedRequest \<Rightarrow> ServerState \<Rightarrow> bool" where
  "lock_held req s \<longleftrightarrow> current_lock_m (session_manager_s s) = Some (token_of req)"

definition touched :: "handler_env \<Rightarrow> DecodedRequest \<Rightarrow> ServerState \<Rightarrow> ServerState" where
  "touched env req s =
     s\<lparr>session_manager_s := snd (touch_session (touch_time env) (token_of req) (session_manager_s s))\<rparr>"

named_theorems handler_free \<open>handler operations when no one holds the session mutex\<close>

lemma touched_fields [simp]:
  assumes "mutex_free s"
  shows "mutex_m (session_manager_s (touched env req s)) = False"
    and "tokens (session_manager_s (touched env req s)) = tokens (session_manager_s s)"
    and "current_lock_m (session_manager_s (touched env req s)) = current_lock_m (session_manager_s s)"
    and "users_m (session_manager_s (touched env req s)) = users_m (session_manager_s s)"
    and "tasker_s (touched env req s) = tasker_s s" and "robot_s (touched env req s) = robot_s s"
  using assms ac.touch_usable [of "session_manager_s s"] ac.touch_live [of "session_manager_s s"]
    ac.touch_holder [of "session_manager_s s"]
  by (simp_all add: touched_def) (simp add: touch_session_free)

lemma with_sessions_at:
  "m (session_manager_s s) = (r, p) \<Longrightarrow> with_sessions m s = (r, s\<lparr>session_manager_s := p\<rparr>)"
  by (simp add: with_sessions_def cxx_part_def)

lemma with_sessions_read:
  "m (session_manager_s s) = (r, session_manager_s s) \<Longrightarrow> with_sessions m s = (r, s)"
  by (simp add: with_sessions_def cxx_part_def)

lemma validate_token_free [handler_free]:
  assumes "mutex_free s"
  shows "validate_token env req s =
    (Inr (live_token req s), if live_token req s then touched env req s else s)"
proof -
  have v: "with_sessions (is_valid_token (token_of req)) s = (Inr (live_token req s), s)"
    using ac.valid_result [of "session_manager_s s" "token_of req"] assms
    by (simp add: with_sessions_read live_token_def)
  obtain r p where t: "touch_session (touch_time env) (token_of req) (session_manager_s s) = (r, p)"
    by fastforce
  then have "r = Inr ()"
    using ac.touch_returns [of "session_manager_s s" "touch_time env" "token_of req"] assms by simp
  with v t show ?thesis
    by (simp add: validate_token_def cxx_bind_def cxx_then_def cxx_return_def
        with_sessions_at touched_def)
qed

lemma validate_hardware_lock_free [handler_free]:
  "mutex_free s \<Longrightarrow> validate_hardware_lock req s = (Inr (lock_held req s), s)"
  using ac.has_result [of "session_manager_s s" "token_of req"]
  by (simp add: validate_hardware_lock_def with_sessions_read lock_held_def)

lemma live_touched [simp]: "mutex_free s \<Longrightarrow> live_token req (touched env req' s) = live_token req s"
  by (simp add: live_token_def)

lemma lock_touched [simp]: "mutex_free s \<Longrightarrow> lock_held req (touched env req' s) = lock_held req s"
  by (simp add: lock_held_def)

text \<open>What a command handler checks before it acts: a live session that holds the lock.\<close>

definition granted :: "DecodedRequest \<Rightarrow> ServerState \<Rightarrow> bool" where
  "granted req s \<longleftrightarrow> live_token req s \<and> lock_held req s"

definition refusal :: "DecodedRequest \<Rightarrow> ServerState \<Rightarrow> string" where
  "refusal req s = (if live_token req s then ''Hardware lock not acquired'' else ''Invalid token'')"

definition refreshed :: "handler_env \<Rightarrow> DecodedRequest \<Rightarrow> ServerState \<Rightarrow> ServerState" where
  "refreshed env req s = (if live_token req s then touched env req s else s)"

lemma robot_command_free [handler_free]:
  assumes "mutex_free s"
  shows "handle_robot_command env req res s =
    (case robot_s s of
       None \<Rightarrow> (Inr (set_error ''Robot is nullptr. Call skibidi toilet to fix it :c'' res), s)
     | Some R \<Rightarrow>
         if \<not> granted req s then (Inr (set_error (refusal req s) res), refreshed env req s)
         else if \<not> is_connected R
         then (Inr (set_error ''Robot not connected'' res), refreshed env req s)
         else (case create_rapid_request req of
             Inl e \<Rightarrow> (Inl e, refreshed env req s)
           | Inr r \<Rightarrow>
               (Inr (res\<lparr>res_status := Some SUCCESS, res_task_status := Some TASK_PENDING,
                  res_task_id := Some (m_next_task_counter (tasker_s s)),
                  res_text_payload := Some ''TaskAdded.uwunyanichan''\<rparr>),
                (refreshed env req s)\<lparr>tasker_s := snd (addTask (task_time env) r (tasker_s s))\<rparr>)))"
  using assms addTask_fields(2) [where T = "tasker_s s"]
  by (auto simp: handle_robot_command_def cxx_defs handler_free granted_def refusal_def
      refreshed_def with_tasker_def lift_sum_def split: option.split sum.split prod.split)
    (metis fst_conv)+

lemma check_task_free [handler_free]:
  assumes "mutex_free s" and "task_id req = Some tid"
  shows "handle_check_task env req res s =
    (if \<not> granted req s then (Inr (set_error (refusal req s) res), refreshed env req s)
     else (case getTask tid (tasker_s s) of
         None \<Rightarrow> (Inr (set_error ''Task ID not found in registry'' res), refreshed env req s)
       | Some task \<Rightarrow>
           (case m_state task of
              COMPLETED \<Rightarrow>
                (case completed_response task res of
                   Inl e \<Rightarrow> (Inl e, refreshed env req s)
                 | Inr res \<Rightarrow> (Inr res,
                    (refreshed env req s)\<lparr>tasker_s := snd (removeTask tid (tasker_s s))\<rparr>))
            | PENDING \<Rightarrow> (Inr (res\<lparr>res_status := Some SUCCESS, res_task_status := Some TASK_PENDING\<rparr>),
                refreshed env req s)
            | IN_PROGRESS \<Rightarrow> (Inr (res\<lparr>res_status := Some SUCCESS,
                res_task_status := Some TASK_IN_PROGRESS\<rparr>), refreshed env req s)
            | FAILED \<Rightarrow> (Inr (res\<lparr>res_status := Some SUCCESS, res_task_status := Some TASK_FAILED,
                res_error_message := Some
                  (if m_response task = [] then ''Task execution failed at robot controller''
                   else m_response task)\<rparr>),
                (refreshed env req s)\<lparr>tasker_s := snd (removeTask tid (tasker_s s))\<rparr>))))"
  using assms
  by (auto simp: handle_check_task_def cxx_defs handler_free granted_def refusal_def refreshed_def
      with_tasker_def lift_sum_def split: option.split sum.split prod.split TaskState.split)

abbreviation on_sessions :: "(SessionManager \<Rightarrow> SessionManager) \<Rightarrow> ServerState \<Rightarrow> ServerState" where
  "on_sessions f s \<equiv> s\<lparr>session_manager_s := f (session_manager_s s)\<rparr>"

lemma login_handler_free [handler_free]:
  assumes "mutex_free s"
  shows "handle_login env req res s =
    (case login (draws env) (value_or_empty (username req)) (value_or_empty (password req))
        (session_manager_s s) of
       (r, p) \<Rightarrow> (Inr (case projr r of
           Some t \<Rightarrow> if t = [] then set_error ''Invalid credentials'' res else set_success t res
         | None \<Rightarrow> set_error ''Invalid credentials'' res), s\<lparr>session_manager_s := p\<rparr>))"
proof -
  have "\<exists>t p. login d u pw (session_manager_s s) = (Inr t, p)" for d u pw
    using assms by (simp add: login_free split: option.split prod.split)
  then obtain t p where "login (draws env) (value_or_empty (username req))
      (value_or_empty (password req)) (session_manager_s s) = (Inr t, p)" by blast
  then show ?thesis
    by (simp add: handle_login_def cxx_defs with_sessions_def Let_def value_or_empty_def
        split: option.split)
qed

lemma logout_handler_free [handler_free]:
  assumes "mutex_free s"
  shows "handle_logout env req res s =
    (if token_of req = [] then (Inr (set_error ''No token provided'' res), s)
     else if \<not> live_token req s then (Inr (set_error ''Invalid token'' res), s)
     else (Inr (set_success ''Logged out successfully'' res),
       on_sessions (\<lambda>p. snd (logout (token_of req)
         (if lock_held req s then snd (release_lock (token_of req) p) else p))) (touched env req s)))"
  using assms
  by (auto simp: handle_logout_def cxx_defs handler_free with_sessions_def lock_held_def
      release_lock_free logout_free split: prod.split sum.split)

lemma acquire_handler_free [handler_free]:
  assumes "mutex_free s"
  shows "handle_acquire env req res s =
    (if \<not> live_token req s then (Inr (set_error ''Invalid token'' res), s)
     else if lock_held req s
     then (Inr (res\<lparr>res_status := Some WARNING,
             res_error_message := Some ''You already have a hardware lock''\<rparr>), touched env req s)
     else if token_of req = []
     then (Inr (set_error ''No token provided'' res), touched env req s)
     else if current_lock_m (session_manager_s s) \<noteq> None
     then (Inr (set_error ''Failed to acquire lock. Someone else may have it locked.'' res),
           touched env req s)
     else (Inr (set_success ''Lock acquired successfully'' res),
           on_sessions (\<lambda>p. p\<lparr>current_lock_m := Some (token_of req)\<rparr>) (touched env req s)))"
  using assms
  by (auto simp: handle_acquire_def cxx_defs handler_free with_sessions_def acquire_lock_free
      split: prod.split sum.split)

lemma release_handler_free [handler_free]:
  assumes "mutex_free s"
  shows "handle_release env req res s =
    (if \<not> granted req s then (Inr (set_error (refusal req s) res), refreshed env req s)
     else (Inr (set_success ''Lock released successfully'' res),
           on_sessions (\<lambda>p. p\<lparr>current_lock_m := None\<rparr>) (touched env req s)))"
  using assms
  by (auto simp: handle_release_def cxx_defs handler_free with_sessions_def release_lock_free
      granted_def refusal_def refreshed_def lock_held_def split: prod.split sum.split)

lemma exit_handler_free [handler_free]:
  assumes "mutex_free s"
  shows "handle_exit env req res s =
    (Inr (if granted req s then set_success ''OKISUWU'' res else set_error ''Invalid token'' res),
     refreshed env req s)"
  using assms
  by (simp add: handle_exit_def cxx_defs handler_free granted_def refreshed_def)

lemma log_free: "mutex_free s \<Longrightarrow>
    cxx_then (with_sessions (token_to_username t)) (cxx_return ()) s = (Inr (), s)"
  by (simp add: cxx_defs with_sessions_def token_to_username_free)

definition serves_robot :: "RapidCommandType \<Rightarrow> bool" where
  "serves_robot c \<longleftrightarrow> c \<notin> {UNKNOWN, LOGIN, LOGOUT, ACQUIRE, RELEASE, CHECK_TASK, EXIT, PING}"

lemma handle_free [handler_free]:
  assumes "mutex_free s"
  shows "handle env req s =
    (let res = ServerResponse_new in
     case cmd_type req of
       UNKNOWN \<Rightarrow> (Inr (set_error ''Unknown command'' res), s)
     | LOGIN \<Rightarrow> handle_login env req res s
     | LOGOUT \<Rightarrow> handle_logout env req res s
     | ACQUIRE \<Rightarrow> handle_acquire env req res s
     | RELEASE \<Rightarrow> handle_release env req res s
     | CHECK_TASK \<Rightarrow> handle_check_task env req res s
     | EXIT \<Rightarrow> handle_exit env req res s
     | PING \<Rightarrow> (Inr (set_success ''PONGUWU'' res), s)
     | _ \<Rightarrow> handle_robot_command env req res s)"
  using log_free [OF assms]
  by (cases "cmd_type req") (simp_all add: handle_def cxx_then_def cxx_bind_def cxx_return_def Let_def)

lemma handle_robot: "mutex_free s \<Longrightarrow> serves_robot (cmd_type req) \<Longrightarrow>
    handle env req s = handle_robot_command env req ServerResponse_new s"
  by (cases "cmd_type req") (simp_all add: handle_free serves_robot_def)

section \<open>Invariant\<close>

definition handler_inv :: "ServerState \<Rightarrow> bool" where
  "handler_inv s \<longleftrightarrow>
     mutex_free s \<and> wf_sessions (session_manager_s s) \<and> lock_live (session_manager_s s)"

lemma touched_inv:
  assumes "handler_inv s"
  shows "handler_inv (touched env req s)"
proof -
  have "wf_sessions (session_manager_s (touched env req s))"
    using assms touch_wf by (simp add: handler_inv_def touched_def)
  with assms show ?thesis by (simp add: handler_inv_def lock_live_def)
qed

lemma refreshed_inv: "handler_inv s \<Longrightarrow> handler_inv (refreshed env req s)"
  by (simp add: refreshed_def touched_inv)

lemma tasker_inv_irrelevant: "handler_inv s \<Longrightarrow> handler_inv (s\<lparr>tasker_s := T\<rparr>)"
  by (simp add: handler_inv_def)

lemma tokens_logout: "\<not> mutex_m p \<Longrightarrow> tokens (snd (logout t p)) = tokens p - {t}"
  by (auto simp: logout_free tokens_def AList.delete_eq)

lemma tokens_login:
  "\<not> mutex_m p \<Longrightarrow> tokens p \<subseteq> tokens (snd (login d u pw p)) \<and>
     current_lock_m (snd (login d u pw p)) = current_lock_m p \<and> \<not> mutex_m (snd (login d u pw p))"
  by (auto simp: login_free tokens_def tokens_update split: option.split)

text \<open>The two session calls of a logout, in their order.\<close>

definition logout_calls :: "string \<Rightarrow> SessionManager \<Rightarrow> SessionManager" where
  "logout_calls t p =
     snd (logout t (if current_lock_m p = Some t then snd (release_lock t p) else p))"

lemma logout_calls_result:
  assumes "\<not> mutex_m p"
  shows "\<not> mutex_m (logout_calls t p)" and "tokens (logout_calls t p) = tokens p - {t}"
    and "current_lock_m (logout_calls t p) =
      (if current_lock_m p = Some t then None else current_lock_m p)"
    and "wf_sessions p \<Longrightarrow> wf_sessions (logout_calls t p)"
proof -
  let ?q = "if current_lock_m p = Some t then snd (release_lock t p) else p"
  have q: "\<not> mutex_m ?q" "tokens ?q = tokens p"
    "current_lock_m ?q = (if current_lock_m p = Some t then None else current_lock_m p)"
    using assms by (simp_all add: release_lock_free tokens_def)
  then show "\<not> mutex_m (logout_calls t p)" "tokens (logout_calls t p) = tokens p - {t}"
    "current_lock_m (logout_calls t p) =
      (if current_lock_m p = Some t then None else current_lock_m p)"
    using tokens_logout [OF q(1), of t] by (simp_all add: logout_calls_def logout_free)
  show "wf_sessions (logout_calls t p)" if "wf_sessions p"
    using that q(1) assms release_wf unfolding logout_calls_def by (intro logout_wf) auto
qed

lemma logout_calls_live: "\<not> mutex_m p \<Longrightarrow> lock_live p \<Longrightarrow> lock_live (logout_calls t p)"
  by (auto simp: lock_live_def logout_calls_result)

lemma logout_handler_calls:
  assumes "mutex_free s" and "token_of req \<noteq> []" and "live_token req s"
  shows "handle_logout env req res s = (Inr (set_success ''Logged out successfully'' res),
    on_sessions (logout_calls (token_of req)) (touched env req s))"
  using assms by (simp add: logout_handler_free logout_calls_def lock_held_def)

lemma login_inv:
  assumes "handler_inv s"
  shows "handler_inv (on_sessions (\<lambda>p. snd (login d u pw p)) s)"
  using assms tokens_login [of "session_manager_s s" d u pw] login_wf
  by (auto simp: handler_inv_def lock_live_def)

lemma set_lock_fields [simp]:
  "tokens (p\<lparr>current_lock_m := l\<rparr>) = tokens p"
  "wf_sessions (p\<lparr>current_lock_m := l\<rparr>) = wf_sessions p"
  by (simp_all add: tokens_def wf_sessions_def)

lemma handle_inv:
  assumes inv: "handler_inv s" and tid: "cmd_type req = CHECK_TASK \<longrightarrow> task_id req \<noteq> None"
  shows "handler_inv (snd (handle env req s))"
proof -
  have free: "mutex_free s" using inv by (simp add: handler_inv_def)
  note t = touched_inv [OF inv, of env req] and r = refreshed_inv [OF inv, of env req]
  have robot: "handler_inv (snd (handle_robot_command env req res s))" for res
    using inv r free by (auto simp: handler_free tasker_inv_irrelevant split: option.split sum.split)
  show ?thesis
  proof (cases "cmd_type req")
    case LOGIN
    with free login_inv [OF inv] show ?thesis
      by (simp add: handle_free login_handler_free split: prod.split) (metis snd_conv)
  next
    case LOGOUT
    have p: "\<not> mutex_m (session_manager_s (touched env req s))"
      "lock_live (session_manager_s (touched env req s))"
      "wf_sessions (session_manager_s (touched env req s))"
      using t by (simp_all add: handler_inv_def)
    have "handler_inv (on_sessions (logout_calls (token_of req)) (touched env req s))"
      using logout_calls_result(1,4) [OF p(1)] logout_calls_live [OF p(1,2)] p(3)
      by (simp add: handler_inv_def)
    with LOGOUT free inv show ?thesis
      by (cases "token_of req = []"; cases "live_token req s")
        (simp_all add: handle_free logout_handler_calls logout_handler_free [of s])
  next
    case ACQUIRE
    with free t inv show ?thesis
      by (auto simp: handle_free acquire_handler_free handler_inv_def lock_live_def live_token_def)
  next
    case RELEASE
    with free t r inv show ?thesis
      by (auto simp: handle_free release_handler_free handler_inv_def lock_live_def)
  next
    case CHECK_TASK
    with tid obtain k where "task_id req = Some k" by auto
    with CHECK_TASK free r show ?thesis
      by (auto simp: handle_free check_task_free tasker_inv_irrelevant
          split: option.split TaskState.split sum.split)
  next
    case EXIT
    with free r show ?thesis by (simp add: handle_free exit_handler_free)
  qed (use free inv robot in \<open>simp_all add: handle_free\<close>)
qed

lemma handle_wedged:
  assumes "mutex_m (session_manager_s s)" and "cmd_type req = CHECK_TASK \<longrightarrow> task_id req \<noteq> None"
  shows "handle env req s = (Inl Deadlock, s)"
proof -
  have "with_sessions (token_to_username t) s = (Inl Deadlock, s)"
    "with_sessions (is_valid_token t) s = (Inl Deadlock, s)" for t
    using assms(1) by (simp_all add: with_sessions_read session_ops_blocked)
  then show ?thesis
    by (cases "cmd_type req")
      (simp_all add: handle_def cxx_then_def cxx_bind_def cxx_return_def handle_check_task_def
        validate_token_def)
qed

section \<open>Properties\<close>

definition demo_server :: ServerState where
  "demo_server =
     \<lparr>session_manager_s = demo_manager, tasker_s = Tasker_default, robot_s = Some demo_serving\<rparr>"

lemma demo_server_inv: "handler_inv demo_server" "task_ids_ok (tasker_s demo_server)"
  by (simp_all add: handler_inv_def demo_server_def demo_manager_wf lock_live_def task_ids_ok_def
      getTask_def Tasker_default_def) (simp add: demo_manager_def tokens_def)

text \<open>A request of the user who holds the lock, for the command \<open>c\<close>.\<close>

definition demo_request :: "RapidCommandType \<Rightarrow> DecodedRequest" where
  "demo_request c =
     DecodedRequest_default\<lparr>cmd_type := c, session_token := Some ''t1'', task_id := Some 1\<rparr>"

definition demo_env :: handler_env where
  "demo_env = \<lparr>touch_time = 7, task_time = 8, draws = (\<lambda>_. 9)\<rparr>"

lemma demo_granted: "granted (demo_request c) demo_server"
  by (simp add: granted_def live_token_def lock_held_def token_of_def value_or_empty_def
      demo_request_def demo_server_def demo_manager_def tokens_def)

text \<open>
  C7. A robot command becomes a task exactly when its token names a live session that holds the
  hardware lock, the robot is connected, and the payload the command needs is there: then it is
  appended to the queue under a fresh number, waiting with the translated request, and the client
  gets the number. When all that is missing is a speed that fits 16 bits, the behaviour of the
  conversion is undefined and nothing is claimed of what follows. In every other case the registry is
  untouched and a response, if there is one, is an error without a task number.
\<close>

theorem robot_command_enqueues:
  assumes "handler_inv s" and "task_ids_ok (tasker_s s)" and "serves_robot (cmd_type req)"
    and "robot_s s = Some R" and "k = m_next_task_counter (tasker_s s)"
    and "handle env req s = (r, s')"
  shows "if granted req s \<and> is_connected R \<and> complete_request req
    then (\<exists>res. r = Inr res \<and> res_status res = Some SUCCESS \<and> res_task_id res = Some k) \<and>
      getTask k (tasker_s s) = None \<and>
      getTask k (tasker_s s') = Some (Task_new (task_time env) k (request_spec req)) \<and>
      m_task_queue (tasker_s s') = m_task_queue (tasker_s s) @ [k]
    else if granted req s \<and> is_connected R \<and> cmd_type req = SET_SPEED then r = Inl UB
    else tasker_s s' = tasker_s s \<and> r \<noteq> Inl UB \<and>
      (\<forall>res. r = Inr res \<longrightarrow> res_status res = Some ERROR \<and> res_task_id res = None)"
proof -
  have free: "mutex_free s" using assms(1) by (simp add: handler_inv_def)
  have new: "getTask k (tasker_s s) = None"
    using assms(2) unfolding assms(5) task_ids_ok_def by (metis less_irrefl not_None_eq)
  have h: "handle_robot_command env req ServerResponse_new s = (r, s')"
    using assms(3,6) by (simp add: handle_robot [OF free])
  have t: "tasker_s (refreshed env req s) = tasker_s s"
    using free by (simp add: refreshed_def)
  have err: "res_status (set_error m ServerResponse_new) = Some ERROR"
    "res_task_id (set_error m ServerResponse_new) = None" for m
    by (simp_all add: set_error_def ServerResponse_new_def)
  show ?thesis
  proof (cases "granted req s \<and> is_connected R \<and> complete_request req")
    case True
    then have "create_rapid_request req = Inr (request_spec req)"
      by (simp add: create_rapid_request_complete)
    with True h assms(4,5) free new show ?thesis
      by (auto simp: robot_command_free addTask_get addTask_fields)
  next
    case False
    then consider "\<not> granted req s" | "granted req s" "\<not> is_connected R"
      | "granted req s" "is_connected R" "\<not> complete_request req"
      by blast
    then show ?thesis
      using False h assms(4) t err create_rapid_request_incomplete [of req] create_rapid_request_UB [of req]
      by cases (auto simp: robot_command_free [OF free] split: if_splits)
  qed
qed

theorem robot_command_enqueues_witness:
  "getTask 1 (tasker_s (snd (handle demo_env (demo_request ZERO) demo_server))) =
     Some (Task_new 8 1 (request_spec (demo_request ZERO)))"
proof -
  obtain r s' where h: "handle demo_env (demo_request ZERO) demo_server = (r, s')" by fastforce
  have "serves_robot (cmd_type (demo_request ZERO))" "robot_s demo_server = Some demo_serving"
    "1 = m_next_task_counter (tasker_s demo_server)" "is_connected demo_serving"
    "complete_request (demo_request ZERO)"
    by (simp_all add: serves_robot_def demo_request_def demo_server_def Tasker_default_def
        is_connected_def demo_serving_def complete_request_def uses_target_def)
  with robot_command_enqueues [OF demo_server_inv _ _ _ h, of demo_serving 1] demo_granted h
  show ?thesis by (simp add: demo_env_def)
qed

lemma demo_command_added:
  "tasker_s (snd (handle demo_env (demo_request ZERO) demo_server)) \<noteq> tasker_s demo_server"
proof -
  have free: "mutex_free demo_server" using demo_server_inv(1) by (simp add: handler_inv_def)
  have "create_rapid_request (demo_request ZERO) = Inr (request_spec (demo_request ZERO))"
    by (rule create_rapid_request_complete)
      (simp add: complete_request_def demo_request_def uses_target_def)
  moreover have "robot_s demo_server = Some demo_serving" "is_connected demo_serving"
    by (simp_all add: demo_server_def is_connected_def demo_serving_def)
  moreover have "serves_robot (cmd_type (demo_request ZERO))"
    by (simp add: serves_robot_def demo_request_def)
  ultimately have "m_next_task_counter (tasker_s (snd (handle demo_env (demo_request ZERO) demo_server))) =
      m_next_task_counter (tasker_s demo_server) + 1"
    using demo_granted by (simp add: handle_robot [OF free] robot_command_free [OF free] addTask_fields)
  then show ?thesis by auto
qed

text \<open>
  C11. Only the holder of the hardware lock reaches the robot's tasks: a request that changes the
  registry (adds a task, or collects one by polling it) carries a live token that holds the lock,
  so of two requests that could do so in the same state both carry the same token.
\<close>

theorem only_lock_holder_acts:
  assumes "handler_inv s" and "cmd_type req = CHECK_TASK \<longrightarrow> task_id req \<noteq> None"
    and "tasker_s (snd (handle env req s)) \<noteq> tasker_s s"
  shows "token_of req \<in> tokens (session_manager_s s) \<and>
    current_lock_m (session_manager_s s) = Some (token_of req) \<and>
    (cmd_type req = CHECK_TASK \<or> serves_robot (cmd_type req))"
proof (rule ccontr)
  assume not: "\<not> ?thesis"
  have free: "mutex_free s" using assms(1) by (simp add: handler_inv_def)
  have t: "tasker_s (refreshed env req s) = tasker_s s" using free by (simp add: refreshed_def)
  show False
  proof (cases "granted req s")
    case True
    with not have "cmd_type req \<in> {UNKNOWN, LOGIN, LOGOUT, ACQUIRE, RELEASE, EXIT, PING}"
      by (auto simp: granted_def live_token_def lock_held_def serves_robot_def)
    with assms(3) free t show False
      by (auto simp: handle_free login_handler_free logout_handler_free acquire_handler_free
          release_handler_free exit_handler_free split: prod.splits if_splits)
  next
    case False
    have robot: "tasker_s (snd (handle_robot_command env req res s)) = tasker_s s" for res
      using False t by (simp add: robot_command_free [OF free] split: option.split)
    have poll: "tasker_s (snd (handle_check_task env req res s)) = tasker_s s"
      if "task_id req = Some k" for res k
      using False t that by (simp add: check_task_free [OF free])
    from assms(2,3) free t robot poll show False
      by (cases "cmd_type req")
        (auto simp: handle_free login_handler_free logout_handler_free acquire_handler_free
          release_handler_free exit_handler_free split: prod.splits if_splits)
  qed
qed

theorem only_lock_holder_acts_witness:
  "current_lock_m (session_manager_s demo_server) = Some ''t1''"
proof -
  have "tasker_s (snd (handle demo_env (demo_request ZERO) demo_server)) \<noteq> tasker_s demo_server"
    by (rule demo_command_added)
  from only_lock_holder_acts [OF demo_server_inv(1) _ this] show ?thesis
    by (simp add: demo_request_def token_of_def value_or_empty_def)
qed

text \<open>The server's requests, one after the other, as the request thread serves them.\<close>

inductive handler_step :: "ServerState \<Rightarrow> ServerState \<Rightarrow> bool" where
  handled: "(cmd_type req = CHECK_TASK \<longrightarrow> task_id req \<noteq> None) \<Longrightarrow>
    handler_step s (snd (handle env req s))"

interpretation hd: invariant_of "\<lambda>s :: ServerState. \<exists>us. session_manager_s s = snd (load_users us SessionManager_default)"
  handler_step handler_inv
proof unfold_locales
  fix s :: ServerState assume "\<exists>us. session_manager_s s = snd (load_users us SessionManager_default)"
  then obtain us where "session_manager_s s = snd (load_users us SessionManager_default)" by blast
  with load_users_wf [of SessionManager_default us] wf_SessionManager_default show "handler_inv s"
    by (simp add: handler_inv_def lock_live_def load_users_free) (simp add: SessionManager_default_def)
next
  fix s t assume "handler_step s t" and "handler_inv s"
  then show "handler_inv t" by (auto elim: handler_step.cases intro: handle_inv)
qed

text \<open>
  C14. Whatever requests come after the users are loaded, in every state reached by serving them the
  hardware lock is free or held by the token of a live session (logging out gives it back first),
  no two sessions belong to one user, and the session mutex is free.
\<close>

theorem requests_keep_lock_live:
  assumes "reach (\<lambda>s. \<exists>us. session_manager_s s = snd (load_users us SessionManager_default))
    handler_step s"
  shows "(\<forall>t. current_lock_m (session_manager_s s) = Some t \<longrightarrow>
      map_of (sessions_m (session_manager_s s)) t \<noteq> None) \<and>
    distinct (map (sess_username \<circ> snd) (sessions_m (session_manager_s s))) \<and> mutex_free s"
  using hd.reach_inv [OF assms]
  by (auto simp: handler_inv_def lock_live_def tokens_iff wf_sessions_def dest: map_of_SomeD)

theorem requests_keep_lock_live_witness:
  "mutex_free (snd (handle demo_env (demo_request ACQUIRE)
     \<lparr>session_manager_s = snd (load_users [] SessionManager_default), tasker_s = Tasker_default,
      robot_s = None\<rparr>))"
proof -
  let ?s = "\<lparr>session_manager_s = snd (load_users [] SessionManager_default),
    tasker_s = Tasker_default, robot_s = None\<rparr>"
  have "handler_step ?s (snd (handle demo_env (demo_request ACQUIRE) ?s))"
    by (rule handled) (simp add: demo_request_def)
  then have "reach (\<lambda>s. \<exists>us. session_manager_s s = snd (load_users us SessionManager_default))
      handler_step (snd (handle demo_env (demo_request ACQUIRE) ?s))"
    by (rule reach_step [rotated]) (rule reach_start, auto)
  from requests_keep_lock_live [OF this] show ?thesis by blast
qed

text \<open>
  Once the session mutex is stuck (as a sweep of an expired session leaves it), every request a
  client can send, a ping included, blocks for ever and changes nothing.
\<close>

lemma wedged_manager_stops_service:
  assumes "mutex_m (session_manager_s s)"
  shows "handle env (decode_buffer P Z parse raw) s = (Inl Deadlock, s)"
  using assms decode_task_id [of P Z parse raw] by (intro handle_wedged) simp_all

text \<open>
  C33. A finished task is reported once: a poll by the lock holder that gets a response says whether
  the task completed or failed and removes it, no other task is touched, and the next poll for the
  same number answers that it is not in the registry.
\<close>

theorem poll_reports_once:
  assumes "handler_inv s" and "cmd_type req = CHECK_TASK" and "task_id req = Some tid"
    and "granted req s" and "getTask tid (tasker_s s) = Some task"
    and "m_state task \<in> {COMPLETED, FAILED}" and "handle env req s = (Inr res, s')"
  shows "res_task_status res = Some (if m_state task = FAILED then TASK_FAILED else TASK_COMPLETED) \<and>
    getTask tid (tasker_s s') = None \<and>
    (\<forall>j. j \<noteq> tid \<longrightarrow> getTask j (tasker_s s') = getTask j (tasker_s s)) \<and>
    fst (handle env' req s') =
      Inr (set_error ''Task ID not found in registry'' ServerResponse_new)"
proof -
  have free: "mutex_free s" using assms(1) by (simp add: handler_inv_def)
  have h: "handle_check_task env req ServerResponse_new s = (Inr res, s')"
    using assms(2,7) by (simp add: handle_free [OF free])
  have st: "res_task_status r = Some TASK_COMPLETED"
    if "completed_response task ServerResponse_new = Inr r" for r
    using that by (auto simp: completed_response_def Let_def sum_bind_Inr_iff set_error_def
        split: if_splits)
  have s': "s' = (touched env req s)\<lparr>tasker_s := snd (removeTask tid (tasker_s s))\<rparr>"
    and status: "res_task_status res =
      Some (if m_state task = FAILED then TASK_FAILED else TASK_COMPLETED)"
    using h assms(4-6)
    by (auto simp: check_task_free [OF free assms(3)] refreshed_def granted_def
        split: sum.splits dest: st)
  have free': "mutex_free s'" and gr: "granted req s'"
    using free assms(4) by (simp_all add: s' granted_def live_token_def lock_held_def)
  have get: "getTask j (tasker_s s') = (if j = tid then None else getTask j (tasker_s s))" for j
    by (simp add: s' removeTask_get)
  then have "fst (handle env' req s') =
      Inr (set_error ''Task ID not found in registry'' ServerResponse_new)"
    using gr assms(2) by (simp add: handle_free [OF free'] check_task_free [OF free' assms(3)])
  with status get show ?thesis by simp
qed

definition demo_finished :: ServerState where
  "demo_finished = demo_server\<lparr>tasker_s := Tasker_default\<lparr>m_task_map :=
     [(1, (Task_new 0 1 zero_request)\<lparr>m_state := COMPLETED, m_response := ''ACK''\<rparr>)]\<rparr>\<rparr>"

theorem poll_reports_once_witness:
  "getTask 1 (tasker_s (snd (handle demo_env (demo_request CHECK_TASK) demo_finished))) = None"
proof -
  have inv: "handler_inv demo_finished"
    using demo_server_inv(1) by (simp add: demo_finished_def handler_inv_def)
  have g: "granted (demo_request CHECK_TASK) demo_finished"
    using demo_granted by (simp add: demo_finished_def granted_def live_token_def lock_held_def)
  have req: "cmd_type (demo_request CHECK_TASK) = CHECK_TASK" "task_id (demo_request CHECK_TASK) = Some 1"
    by (simp_all add: demo_request_def)
  have get: "getTask 1 (tasker_s demo_finished) =
      Some ((Task_new 0 1 zero_request)\<lparr>m_state := COMPLETED, m_response := ''ACK''\<rparr>)"
    by (simp add: demo_finished_def getTask_def)
  have "\<exists>res s'. handle demo_env (demo_request CHECK_TASK) demo_finished = (Inr res, s')"
    using inv g get req by (simp add: handler_inv_def handle_free check_task_free
        completed_response_def Task_new_def zero_request_def Let_def)
  then obtain res s' where
    h: "handle demo_env (demo_request CHECK_TASK) demo_finished = (Inr res, s')" by blast
  from poll_reports_once [OF inv req g get _ h] h show ?thesis by simp
qed

text \<open>
  Logging out with a live token is final and complete: the token is no longer valid, the lock
  is free if the token held it and otherwise stays where it was, every other session remains, no
  task is touched, and every later robot command or poll under the token is refused.
\<close>

lemma logout_ends_session:
  assumes "handler_inv s" and "cmd_type req = LOGOUT" and "live_token req s"
    and "handle env req s = (r, s')"
  shows "(\<exists>res. r = Inr res \<and> res_status res = Some SUCCESS) \<and>
    tokens (session_manager_s s') = tokens (session_manager_s s) - {token_of req} \<and>
    current_lock_m (session_manager_s s') =
      (if lock_held req s then None else current_lock_m (session_manager_s s)) \<and>
    tasker_s s' = tasker_s s \<and>
    (\<forall>req' env'. token_of req' = token_of req \<longrightarrow> robot_s s \<noteq> None \<longrightarrow>
       serves_robot (cmd_type req') \<longrightarrow>
       handle env' req' s' = (Inr (set_error ''Invalid token'' ServerResponse_new), s'))"
proof -
  have free: "mutex_free s" and wf: "wf_sessions (session_manager_s s)"
    using assms(1) by (simp_all add: handler_inv_def)
  have ne: "token_of req \<noteq> []" using assms(3) wf by (auto simp: live_token_def wf_sessions_def)
  let ?p = "session_manager_s (touched env req s)"
  have p: "\<not> mutex_m ?p" using free by simp
  have h: "r = Inr (set_success ''Logged out successfully'' ServerResponse_new)"
    "s' = on_sessions (logout_calls (token_of req)) (touched env req s)"
    using assms(2,4) logout_handler_calls [OF free ne assms(3)] by (simp_all add: handle_free [OF free])
  have s': "mutex_free s'" "tokens (session_manager_s s') = tokens (session_manager_s s) - {token_of req}"
    "current_lock_m (session_manager_s s') =
      (if lock_held req s then None else current_lock_m (session_manager_s s))"
    "tasker_s s' = tasker_s s" "robot_s s' = robot_s s"
    using logout_calls_result(1-3) [OF p, of "token_of req"] free
    by (simp_all add: h(2) lock_held_def)
  have "handle env' req' s' = (Inr (set_error ''Invalid token'' ServerResponse_new), s')"
    if "token_of req' = token_of req" "robot_s s \<noteq> None" "serves_robot (cmd_type req')" for req' env'
  proof -
    have "\<not> live_token req' s'" using that(1) s'(2) by (simp add: live_token_def)
    then show ?thesis
      using that(2,3) s'(5)
      by (auto simp: handle_robot [OF s'(1)] robot_command_free [OF s'(1)] granted_def refusal_def
          refreshed_def)
  qed
  with h(1) s' show ?thesis by (simp add: set_success_def)
qed

lemma logout_ends_session_witness:
  "tokens (session_manager_s (snd (handle demo_env (demo_request LOGOUT) demo_server))) =
     tokens demo_manager - {''t1''}"
proof -
  obtain r s' where h: "handle demo_env (demo_request LOGOUT) demo_server = (r, s')" by fastforce
  have "live_token (demo_request LOGOUT) demo_server" using demo_granted by (simp add: granted_def)
  from logout_ends_session [OF demo_server_inv(1) _ this h] h show ?thesis
    by (simp add: demo_request_def token_of_def value_or_empty_def demo_server_def)
qed

text \<open>The task a request polls, if it is allowed to.\<close>

definition polled_task :: "DecodedRequest \<Rightarrow> ServerState \<Rightarrow> Task option" where
  "polled_task req s =
     (if granted req s then (case task_id req of Some k \<Rightarrow> getTask k (tasker_s s) | None \<Rightarrow> None)
      else None)"

definition telemetry_unreadable :: "Task \<Rightarrow> bool" where
  "telemetry_unreadable t \<longleftrightarrow>
     m_state t = COMPLETED \<and> command_id (m_request t) = cmd_code GETSTATUS \<and>
     162 \<le> length (m_response t) \<and>
     (length (m_response t) < 171 \<or> telemetry_zone (bytes_of_string (m_response t)) = None)"

lemma completed_response_error:
  assumes "completed_response t res = Inl e" and "m_state t = COMPLETED"
  shows "e = UB \<and> telemetry_unreadable t"
proof -
  let ?raw = "bytes_of_string (m_response t)"
  have g: "command_id (m_request t) = cmd_code GETSTATUS" "unpack_robot_status ?raw = Inl e"
    using assms(1) by (auto simp: completed_response_def Let_def sum_bind_Inl_iff split: if_splits)
  then have len: "162 \<le> length (m_response t)"
    using unpack_short [of ?raw] by (cases "length (m_response t) < 162") simp_all
  from unpack_long [of ?raw] unpack_succeeds [of ?raw] g(2) len
  have "e = UB \<and> (length (m_response t) < 171 \<or> telemetry_zone ?raw = None)"
    by (fastforce split: option.splits if_splits)
  with g(1) len assms(2) show ?thesis by (simp add: telemetry_unreadable_def)
qed

lemma handle_outcomes:
  assumes "mutex_free s" and "req = decode_buffer P Z parse raw"
    and "fst (handle env req s) = Inl e"
  shows "(serves_robot (cmd_type req) \<and> granted req s \<and> \<not> complete_request req \<and>
      create_rapid_request req = Inl e \<and> e \<noteq> Deadlock)
    \<or> (cmd_type req = CHECK_TASK \<and> e = UB \<and>
      (\<exists>t. polled_task req s = Some t \<and> telemetry_unreadable t))"
proof (cases "cmd_type req = CHECK_TASK")
  case True
  with assms(2) decode_task_id [of P Z parse raw] obtain k where k: "task_id req = Some k" by auto
  with True assms(1,3) have "\<exists>t. granted req s \<and> getTask k (tasker_s s) = Some t \<and>
      m_state t = COMPLETED \<and> completed_response t ServerResponse_new = Inl e"
    by (auto simp: handle_free check_task_free split: if_splits option.splits TaskState.splits sum.splits)
  then obtain t where t: "granted req s" "getTask k (tasker_s s) = Some t" "m_state t = COMPLETED"
    "completed_response t ServerResponse_new = Inl e" by blast
  from completed_response_error [OF t(4,3)] t k True show ?thesis by (simp add: polled_task_def)
next
  case False
  show ?thesis
  proof (cases "serves_robot (cmd_type req)")
    case True
    then have "fst (handle_robot_command env req ServerResponse_new s) = Inl e"
      using assms(1,3) by (simp add: handle_robot)
    then have "granted req s" "create_rapid_request req = Inl e"
      using assms(1) by (auto simp: robot_command_free split: option.splits if_splits sum.splits)
    moreover from this have "\<not> complete_request req"
      using create_rapid_request_complete [of req] by auto
    moreover from this have "e \<noteq> Deadlock"
      using create_rapid_request_incomplete [of req] \<open>create_rapid_request req = Inl e\<close> by auto
    ultimately show ?thesis using True by blast
  next
    case no: False
    then show ?thesis
      using assms(1,3) \<open>cmd_type req \<noteq> CHECK_TASK\<close>
      by (cases "cmd_type req")
        (auto simp: handle_free serves_robot_def login_handler_free logout_handler_free
          acquire_handler_free release_handler_free exit_handler_free split: prod.splits if_splits)
  qed
qed

text \<open>
  C28. Error paths: with the session mutex free, serving a request decoded from any bytes ends with a
  response unless it is a robot command by the lock holder whose payload is missing (an exception)
  or whose speed does not fit (undefined behaviour), or a poll of a completed status request whose
  telemetry is cut between 162 and 171 bytes or has no zone number (undefined behaviour). It
  never blocks and never reads the task number of a request that has none.
\<close>

theorem handle_error_paths:
  assumes "mutex_free s" and "req = decode_buffer P Z parse raw"
    and "fst (handle env req s) = Inl e"
  shows "(serves_robot (cmd_type req) \<and> granted req s \<and> \<not> complete_request req \<and>
      create_rapid_request req = Inl e \<and> e \<noteq> Deadlock)
    \<or> (cmd_type req = CHECK_TASK \<and> e = UB \<and>
      (\<exists>t. polled_task req s = Some t \<and> telemetry_unreadable t))"
  using assms by (rule handle_outcomes)

text \<open>A linear move without a target.\<close>

definition demo_move :: ClientRequest where
  "demo_move =
     \<lparr>cr_command = 0, cr_target = None, cr_extra_target = None, cr_joint_target = None,
      cr_speed = 0, cr_zone = 0, cr_task_id = 0, cr_session_token = ''t1'', cr_username = [],
      cr_password = []\<rparr>"

theorem handle_error_paths_witness:
  "\<not> complete_request (decode_buffer demo_labels demo_zones (\<lambda>_. Some demo_move) [])"
proof -
  let ?req = "decode_buffer demo_labels demo_zones (\<lambda>_. Some demo_move) []"
  have req: "cmd_type ?req = MOVE_L" "target ?req = None" "session_token ?req = Some ''t1''"
    by (simp_all add: decode_buffer_def demo_labels_def demo_move_def Let_def nonempty_def
        proto_cmd_enum2rapid_cmd_enum_def DecodedRequest_default_def)
  have free: "mutex_free demo_server" using demo_server_inv(1) by (simp add: handler_inv_def)
  have "granted ?req demo_server"
    using req(3) by (simp add: granted_def live_token_def lock_held_def token_of_def
        value_or_empty_def demo_server_def demo_manager_def tokens_def)
  moreover have "robot_s demo_server = Some demo_serving" "is_connected demo_serving"
    by (simp_all add: demo_server_def is_connected_def demo_serving_def)
  ultimately have "fst (handle demo_env ?req demo_server) =
      Inl (Exn ''MoveL, MoveJ, and MoveC commands require target data.'')"
    using req(1,2) by (simp add: handle_robot [OF free] serves_robot_def robot_command_free [OF free]
        create_rapid_request_def Let_def)
  from handle_error_paths [OF free refl this] req(1) show ?thesis by simp
qed

end
