(* ===== verification/Conf.thy ===== *)
theory Conf
  imports Session
begin

text \<open>
  The configuration of \<^verbatim>\<open>src/core/conf_parser.hpp\<close> and
  \<^verbatim>\<open>conf_parser.cpp\<close>, and the string helper of \<^verbatim>\<open>src/utils.cpp\<close>. The
  YAML library is a parameter: \<open>LoadFile\<close> gives the results of the conversions the parser asks
  for, each of which may throw.
\<close>

section \<open>Configuration\<close>

record RobotInfo =
  ri_name :: string
  ri_ip :: string
  ri_port :: u16
  ri_timeout :: u16

record Conf =
  conf_robot :: RobotInfo
  conf_users :: "UserInfo list"

text \<open>What the node accessors and conversions return for one file.\<close>

record yaml_conf =
  y_robot_name :: "cxx_error + string"
  y_robot_ip :: "cxx_error + string"
  y_robot_port :: "cxx_error + int"
  y_robot_timeout :: "cxx_error + int"
  y_users :: "((cxx_error + string) \<times> (cxx_error + string)) list"

text \<open>The loop over the users: it stops at the first conversion that throws.\<close>

fun parse_users :: "((cxx_error + string) \<times> (cxx_error + string)) list \<Rightarrow> UserInfo list \<Rightarrow>
    cxx_error + UserInfo list" where
  "parse_users [] acc = Inr acc"
| "parse_users ((n, p) # rest) acc =
     sum_bind n (\<lambda>user_name.
     sum_bind p (\<lambda>user_password.
       parse_users rest (acc @ [\<lparr>ui_username = user_name, ui_password = user_password\<rparr>])))"

text \<open>
  Port and timeout are read as \<^verbatim>\<open>int\<close> and assigned to \<^verbatim>\<open>uint16_t\<close> members, which
  keeps the value modulo \<open>2 ^ 16\<close>.
\<close>

definition parse_conf :: "(string \<Rightarrow> cxx_error + yaml_conf) \<Rightarrow> string \<Rightarrow> cxx_error + Conf" where
  "parse_conf LoadFile path =
     sum_bind (LoadFile path) (\<lambda>node.
     sum_bind (y_robot_name node) (\<lambda>robot_name.
     sum_bind (y_robot_ip node) (\<lambda>robot_ip.
     sum_bind (y_robot_port node) (\<lambda>robot_port.
     sum_bind (y_robot_timeout node) (\<lambda>robot_timeout.
     sum_bind (parse_users (y_users node) []) (\<lambda>users.
       Inr \<lparr>conf_robot = \<lparr>ri_name = robot_name, ri_ip = robot_ip,
              ri_port = word_of_int robot_port, ri_timeout = word_of_int robot_timeout\<rparr>,
            conf_users = users\<rparr>))))))"

definition conf_newline :: string where
  "conf_newline = [char_of (10 :: nat)]"

definition get_conf_str :: "Conf \<Rightarrow> string" where
  "get_conf_str conf =
     ''robot: '' @ ri_name (conf_robot conf) @ '' ('' @ ri_ip (conf_robot conf) @ '':'' @
       dec_nat (unat (ri_port (conf_robot conf))) @ '')'' @ conf_newline @
     ''users:'' @ conf_newline @
     concat (map (\<lambda>user. ''  - '' @ ui_username user @ conf_newline) (conf_users conf))"

section \<open>Trimming\<close>

text \<open>\<^verbatim>\<open>std::isspace\<close> in the C locale.\<close>

definition isspace :: "char \<Rightarrow> bool" where
  "isspace c \<longleftrightarrow> of_char c = (32 :: nat) \<or> 9 \<le> (of_char c :: nat) \<and> of_char c \<le> (13 :: nat)"

definition trim_copy :: "string \<Rightarrow> string" where
  "trim_copy text = (let value = dropWhile isspace text in rev (dropWhile isspace (rev value)))"

section \<open>Properties\<close>

lemma parse_users_ok:
  "parse_users us acc = Inr r \<Longrightarrow>
     r = acc @ map (\<lambda>(n, p). \<lparr>ui_username = projr n, ui_password = projr p\<rparr>) us"
  by (induction us acc arbitrary: r rule: parse_users.induct) (auto simp: sum_bind_Inr_iff)

text \<open>
  A configuration that loads has every user of the file, in order; its port and timeout are the
  numbers of the file exactly when these lie between 0 and 65535, and otherwise silently their
  remainders modulo 65536 (a timeout of 70000 ms becomes 4464 ms).
\<close>

lemma parse_conf_values:
  assumes "parse_conf LoadFile path = Inr c" and "LoadFile path = Inr node"
    and "y_robot_port node = Inr port" and "y_robot_timeout node = Inr ms"
  shows "(int (unat (ri_port (conf_robot c))) = port \<longleftrightarrow> 0 \<le> port \<and> port < 65536) \<and>
    int (unat (ri_timeout (conf_robot c))) = ms mod 65536 \<and>
    map (\<lambda>u. (Inr (ui_username u), Inr (ui_password u))) (conf_users c) = y_users node"
proof -
  have mod: "int (unat (word_of_int z :: u16)) = z mod 65536" for z
    by (simp add: uint_word_of_int_eq take_bit_eq_mod)
  have users: "map (\<lambda>u. (Inr (ui_username u), Inr (ui_password u))) r = us"
    if "parse_users us [] = Inr r" for us r
  proof -
    have "parse_users us acc = Inr q \<Longrightarrow>
        map (\<lambda>u. (Inr (ui_username u), Inr (ui_password u))) q =
        map (\<lambda>u. (Inr (ui_username u), Inr (ui_password u))) acc @ us" for acc q
      by (induction us acc arbitrary: q rule: parse_users.induct) (auto simp: sum_bind_Inr_iff)
    from this [OF that] show ?thesis by simp
  qed
  from assms have c: "ri_port (conf_robot c) = word_of_int port"
    "ri_timeout (conf_robot c) = word_of_int ms" "parse_users (y_users node) [] = Inr (conf_users c)"
    by (auto simp: parse_conf_def sum_bind_Inr_iff)
  have "(port mod 65536 = port) = (0 \<le> port \<and> port < 65536)"
    using pos_mod_bound [of 65536 port] pos_mod_sign [of 65536 port] by auto
  with c users mod show ?thesis by simp
qed

definition demo_yaml :: yaml_conf where
  "demo_yaml =
     \<lparr>y_robot_name = Inr ''irb'', y_robot_ip = Inr ''10.0.0.2'', y_robot_port = Inr 5000,
      y_robot_timeout = Inr 70000, y_users = [(Inr ''ana'', Inr ''pw1'')]\<rparr>"

lemma parse_conf_values_witness:
  "\<exists>c. parse_conf (\<lambda>_. Inr demo_yaml) ''conf.yaml'' = Inr c \<and>
     int (unat (ri_timeout (conf_robot c))) = 4464"
proof -
  have "\<exists>c. parse_conf (\<lambda>_. Inr demo_yaml) ''conf.yaml'' = Inr c"
    by (simp add: parse_conf_def demo_yaml_def)
  then obtain c where c: "parse_conf (\<lambda>_. Inr demo_yaml) ''conf.yaml'' = Inr c" by blast
  from parse_conf_values [OF c refl, of 5000 70000] c show ?thesis by (simp add: demo_yaml_def)
qed

text \<open>
  Trimming removes exactly the surrounding white space: the text is white space, the result,
  and white space again; the result neither starts nor ends with it, and trimming again changes
  nothing.
\<close>

lemma trim_copy_exact:
  "(\<exists>pre post. text = pre @ trim_copy text @ post \<and> filter isspace pre = pre \<and> filter isspace post = post) \<and>
   (trim_copy text \<noteq> [] \<longrightarrow>
      \<not> isspace (hd (trim_copy text)) \<and> \<not> isspace (last (trim_copy text))) \<and>
   trim_copy (trim_copy text) = trim_copy text"
proof -
  define v where "v = dropWhile isspace text"
  define w where "w = rev (dropWhile isspace (rev v))"
  have w: "trim_copy text = w" by (simp add: trim_copy_def v_def w_def)
  have pre: "text = takeWhile isspace text @ v" by (simp add: v_def)
  have post: "v = w @ rev (takeWhile isspace (rev v))"
    unfolding w_def by (metis rev_append rev_rev_ident takeWhile_dropWhile_id)
  have ends: "\<not> isspace (hd w)" "\<not> isspace (last w)" if "w \<noteq> []"
  proof -
    have ne: "dropWhile isspace (rev v) \<noteq> []" using that by (simp add: w_def)
    from hd_dropWhile [OF this] show "\<not> isspace (last w)"
      using ne by (simp add: w_def last_rev)
    have "v \<noteq> []" using ne by auto
    then have "\<not> isspace (hd v)" using hd_dropWhile unfolding v_def by blast
    moreover have "hd v = hd w" using post that by (metis hd_append)
    ultimately show "\<not> isspace (hd w)" by simp
  qed
  have "dropWhile isspace w = w"
    using ends(1) by (cases w) auto
  moreover have "dropWhile isspace (rev w) = rev w"
    using ends(2) by (cases w rule: rev_cases) auto
  ultimately have "trim_copy w = w" by (simp add: trim_copy_def)
  moreover have "filter isspace (takeWhile isspace text) = takeWhile isspace text"
    "filter isspace (rev (takeWhile isspace (rev v))) = rev (takeWhile isspace (rev v))"
    by (auto simp: filter_id_conv dest: set_takeWhileD)
  ultimately show ?thesis
    using pre post ends unfolding w by (metis append.assoc)
qed

lemma trim_copy_exact_witness:
  "trim_copy (trim_copy ''  move L '') = ''move L'' \<and> \<not> isspace (hd (trim_copy ''  move L ''))"
proof -
  have "trim_copy ''  move L '' = ''move L''" by (simp add: trim_copy_def isspace_def)
  with trim_copy_exact [of "''  move L ''"] show ?thesis by simp
qed

end
