(* ===== verification/Server.thy ===== *)
theory Server
  imports Handler Conf
begin

text \<open>
  The server: \<^verbatim>\<open>src/server/server.hpp\<close> and \<^verbatim>\<open>server.cpp\<close>. Four threads share
  its state: the request loop, the robot worker, the sweeper, and the worker of the robot object.
  A thread is its control point; one step runs a thread to the next point where others can see or
  change what it uses. The messaging library and the serialiser are parameters.
\<close>

section \<open>The request loop\<close>

text \<open>\<^verbatim>\<open>EAGAIN\<close> on Linux.\<close>

definition EAGAIN :: nat where
  "EAGAIN = 11"

text \<open>
  One iteration: nothing to do, one reply sent, or an end that is not a reply: an exception that
  leaves the thread function (which terminates the program), a thread blocked for ever, undefined
  behaviour.
\<close>

datatype loop_result = NoMessage | Reply "byte list" | Terminate string | Stuck | Undefined

record message_io =
  mio_commands :: ProtoCommands
  mio_zones :: ProtoZones
  mio_parse :: "byte list \<Rightarrow> ClientRequest option"
  mio_serialize :: "ServerResponse \<Rightarrow> byte list option"

definition exception_response :: "string \<Rightarrow> ServerResponse" where
  "exception_response what =
     ServerResponse_new\<lparr>res_status := Some ERROR,
       res_error_message := Some (''ERR_SERVER_EXCEPTION: '' @ what)\<rparr>"

definition send_reply :: "message_io \<Rightarrow> ServerResponse \<Rightarrow> loop_result" where
  "send_reply io pb_response =
     (case mio_serialize io pb_response of
        None \<Rightarrow> Reply (bytes_of_string ''ERR_SERIALIZATION_FAILED'')
      | Some binary_payload \<Rightarrow> Reply binary_payload)"

text \<open>
  \<open>msg\<close> is what \<^verbatim>\<open>recv\<close> delivered: nothing before its timeout, or its result value and
  the bytes of the message.
\<close>

definition loop_iteration ::
    "message_io \<Rightarrow> handler_env \<Rightarrow> (nat \<times> byte list) option \<Rightarrow> ServerState \<Rightarrow> loop_result \<times> ServerState"
  where
  "loop_iteration io env msg s =
     (case msg of
        None \<Rightarrow> (NoMessage, s)
      | Some (res, buffer) \<Rightarrow>
          if res = EAGAIN then (Terminate ''[ERROR] There is an error with the recv'', s)
          else
            (case handle env (decode_buffer (mio_commands io) (mio_zones io) (mio_parse io) buffer) s of
               (Inr pb_response, s) \<Rightarrow> (send_reply io pb_response, s)
             | (Inl (Exn what), s) \<Rightarrow> (send_reply io (exception_response what), s)
             | (Inl Deadlock, s) \<Rightarrow> (Stuck, s)
             | (Inl UB, s) \<Rightarrow> (Undefined, s)))"

section \<open>Server object and its other threads\<close>

text \<open>
  Control points of \<^verbatim>\<open>robot_worker_loop_\<close>: the loop test, the wait for a task, and the
  calls it makes for the task it took; in \<open>Await\<close> it waits for the future of the promise.
\<close>

datatype task_worker =
    RwNotStarted | RwHead | RwWait | RwStart task_id_t | RwFetch task_id_t
  | RwSubmit task_id_t RapidRequest | RwAwait task_id_t nat | RwExited | RwCrashed

datatype server_thread = ThNotStarted | ThRunning | ThExited | ThStuck | ThCrashed

record Server =
  sv :: ServerState
  sv_running :: bool
  sv_loop :: server_thread
  sv_worker :: task_worker
  sv_sweeper :: server_thread

text \<open>
  The constructor: reads the configuration, makes the robot, loads the users. Setting up the
  socket is the library's.
\<close>

definition Server_new ::
    "(string \<Rightarrow> cxx_error + yaml_conf) \<Rightarrow> string \<Rightarrow> kernel \<Rightarrow> cxx_error + Server" where
  "Server_new LoadFile conf_filepath k =
     sum_bind (parse_conf LoadFile conf_filepath) (\<lambda>conf.
     sum_bind (fst (load_users (conf_users conf) SessionManager_default)) (\<lambda>_.
       Inr \<lparr>sv = \<lparr>session_manager_s = snd (load_users (conf_users conf) SessionManager_default),
              tasker_s = Tasker_default,
              robot_s = Some (Robot_new (ri_ip (conf_robot conf))
                (int (unat (ri_port (conf_robot conf)))) (int (unat (ri_timeout (conf_robot conf)))) k)\<rparr>,
            sv_running = False, sv_loop = ThNotStarted, sv_worker = RwNotStarted,
            sv_sweeper = ThNotStarted\<rparr>))"

definition with_robot :: "(Robot \<Rightarrow> Robot) \<Rightarrow> Server \<Rightarrow> Server" where
  "with_robot f s = s\<lparr>sv := (sv s)\<lparr>robot_s := map_option f (robot_s (sv s))\<rparr>\<rparr>"

text \<open>The count of users takes the session mutex; it is free while the server is being started.\<close>

definition start :: "Server \<Rightarrow> Server" where
  "start s =
     (if sv_running s then s
      else if robot_s (sv s) = None then s
      else if fst (num_users (session_manager_s (sv s))) = Inr 0 then s
      else (with_robot start_session s)
             \<lparr>sv_running := True, sv_loop := ThRunning, sv_worker := RwHead, sv_sweeper := ThRunning\<rparr>)"

definition on_tasker :: "(Tasker \<Rightarrow> Tasker) \<Rightarrow> Server \<Rightarrow> Server" where
  "on_tasker f s = s\<lparr>sv := (sv s)\<lparr>tasker_s := f (tasker_s (sv s))\<rparr>\<rparr>"

text \<open>
  \<^verbatim>\<open>stop\<close> up to the first join inside \<^verbatim>\<open>stop_session\<close>: three steps between which the
  other threads run, and the three together.
\<close>

definition stop_running :: "Server \<Rightarrow> Server" where
  "stop_running s = s\<lparr>sv_running := False\<rparr>"

definition stop_tasks :: "Server \<Rightarrow> Server" where
  "stop_tasks s = on_tasker stop_tasker s"

definition stop_robot :: "Server \<Rightarrow> Server" where
  "stop_robot s = with_robot stop_session_signal s"

definition stop :: "Server \<Rightarrow> Server" where
  "stop s = (if \<not> sv_running s then s else stop_robot (stop_tasks (stop_running s)))"

definition starts_with :: "string \<Rightarrow> string \<Rightarrow> bool" where
  "starts_with prefix s = (take (length prefix) s = prefix)"

text \<open>What the worker does with the bytes of a resolved future.\<close>

definition finish_task :: "int \<Rightarrow> task_id_t \<Rightarrow> byte list \<Rightarrow> Tasker \<Rightarrow> Tasker" where
  "finish_task now tid raw_response T =
     (let response = string_of_bytes raw_response in
      if starts_with ''ERR:'' response \<or> starts_with ''NACK'' response
      then snd (failTask now tid (''Robot error: '' @ response) T)
      else snd (completeTask now tid response T))"

text \<open>
  A step of the robot worker. \<open>timed_out\<close>: the 90 seconds of \<^verbatim>\<open>wait_for\<close> have passed.
\<close>

definition robot_worker_step :: "int \<Rightarrow> bool \<Rightarrow> Server \<Rightarrow> Server" where
  "robot_worker_step now timed_out s =
     (case sv_worker s of
        RwHead \<Rightarrow> if sv_running s then s\<lparr>sv_worker := RwWait\<rparr> else s\<lparr>sv_worker := RwExited\<rparr>
      | RwWait \<Rightarrow>
          (case waitForNextTask (tasker_s (sv s)) of
             (Waiting, T) \<Rightarrow> s
           | (Next None, T) \<Rightarrow> s\<lparr>sv_worker := RwExited\<rparr>
           | (Next (Some tid), T) \<Rightarrow> (on_tasker (\<lambda>_. T) s)\<lparr>sv_worker := RwStart tid\<rparr>)
      | RwStart tid \<Rightarrow>
          (case startTask now tid (tasker_s (sv s)) of
             (found, T) \<Rightarrow> (on_tasker (\<lambda>_. T) s)\<lparr>sv_worker := (if found then RwFetch tid else RwHead)\<rparr>)
      | RwFetch tid \<Rightarrow>
          (case getTask tid (tasker_s (sv s)) of
             None \<Rightarrow> s\<lparr>sv_worker := RwHead\<rparr>
           | Some task \<Rightarrow>
               if \<not> (case robot_s (sv s) of Some R \<Rightarrow> is_connected R | None \<Rightarrow> False)
               then (on_tasker (\<lambda>T. snd (failTask now tid ''Robot disconnected'' T)) s)
                      \<lparr>sv_worker := RwHead\<rparr>
               else s\<lparr>sv_worker := RwSubmit tid (m_request task)\<rparr>)
      | RwSubmit tid req \<Rightarrow>
          (case robot_s (sv s) of
             None \<Rightarrow> s\<lparr>sv_worker := RwCrashed\<rparr>
           | Some R \<Rightarrow>
               (case queue_request req R of
                  (Inl e, R) \<Rightarrow> s\<lparr>sv_worker := RwCrashed\<rparr>
                | (Inr p, R) \<Rightarrow> (with_robot (\<lambda>_. R) s)\<lparr>sv_worker := RwAwait tid p\<rparr>))
      | RwAwait tid p \<Rightarrow>
          (case robot_s (sv s) of
             None \<Rightarrow> s
           | Some R \<Rightarrow>
               (case promises_m R ! p of
                  Some raw \<Rightarrow> (on_tasker (finish_task now tid raw) s)\<lparr>sv_worker := RwHead\<rparr>
                | None \<Rightarrow>
                    if timed_out
                    then (on_tasker (\<lambda>T. snd (failTask now tid ''Robot disconnected'' T)) s)
                           \<lparr>sv_worker := RwHead\<rparr>
                    else s))
      | _ \<Rightarrow> s)"

text \<open>One round of the sweeper after its sleep: sessions after 60 seconds, then tasks.\<close>

definition sweeper_step :: "int \<Rightarrow> Server \<Rightarrow> Server" where
  "sweeper_step now s =
     (if sv_sweeper s \<noteq> ThRunning then s
      else if \<not> sv_running s then s\<lparr>sv_sweeper := ThExited\<rparr>
      else (case sweep_expired_sessions now 60 (session_manager_s (sv s)) of
              (Inr _, m) \<Rightarrow>
                on_tasker (sweepExpiredTasks now 300) (s\<lparr>sv := (sv s)\<lparr>session_manager_s := m\<rparr>\<rparr>)
            | (Inl e, m) \<Rightarrow>
                s\<lparr>sv := (sv s)\<lparr>session_manager_s := m\<rparr>, sv_sweeper := ThStuck\<rparr>))"

definition request_step :: "message_io \<Rightarrow> handler_env \<Rightarrow> (nat \<times> byte list) option \<Rightarrow> Server \<Rightarrow> Server"
  where
  "request_step io env msg s =
     (if sv_loop s \<noteq> ThRunning then s
      else if \<not> sv_running s then s\<lparr>sv_loop := ThExited\<rparr>
      else (case loop_iteration io env msg (sv s) of
              (r, t) \<Rightarrow> s\<lparr>sv := t, sv_loop := (case r of Stuck \<Rightarrow> ThStuck | Terminate _ \<Rightarrow> ThCrashed
                | Undefined \<Rightarrow> ThCrashed | _ \<Rightarrow> ThRunning)\<rparr>))"

text \<open>
  Steps of the whole program, in any order of the threads. (The program ends when a thread crashes;
  the relation lets the others go on, which only adds behaviours.)
\<close>

inductive server_step :: "Server \<Rightarrow> Server \<Rightarrow> bool" where
  step_request: "unat (m_next_task_counter (tasker_s (sv s))) < 2 ^ 64 - 1 \<Longrightarrow>
    server_step s (request_step io env msg s)"
| step_worker: "server_step s (robot_worker_step now timed_out s)"
| step_sweeper: "server_step s (sweeper_step now s)"
| step_robot: "io_documented io \<Longrightarrow> server_step s (with_robot (worker_loop_step io) s)"
| step_stop_running: "server_step s (stop_running s)"
| step_stop_tasks: "\<not> sv_running s \<Longrightarrow> server_step s (stop_tasks s)"
| step_stop_robot: "\<not> sv_running s \<Longrightarrow> server_step s (stop_robot s)"
| step_stopped: "robot_s (sv s) = Some R \<Longrightarrow> \<not> running_m R \<Longrightarrow> stop_session_finish R = Some R' \<Longrightarrow>
    server_step s (with_robot (\<lambda>_. R') s)"

text \<open>\<^verbatim>\<open>stop\<close> returns when every thread it joins has ended.\<close>

definition stop_returns :: "Server \<Rightarrow> bool" where
  "stop_returns s \<longleftrightarrow>
     sv_loop s \<in> {ThNotStarted, ThExited} \<and> sv_worker s \<in> {RwNotStarted, RwExited} \<and>
     sv_sweeper s \<in> {ThNotStarted, ThExited} \<and>
     (case robot_s (sv s) of Some R \<Rightarrow> worker_thread_m R = NotStarted | None \<Rightarrow> True)"

text \<open>
  The destructor: \<^verbatim>\<open>stop\<close> once more, which does nothing after the first, and then the
  robot's own destructor, which stops its session.
\<close>

definition Server_destroy :: "Server \<Rightarrow> Server option" where
  "Server_destroy s =
     (let s = stop s in
      case robot_s (sv s) of
        None \<Rightarrow> Some s
      | Some R \<Rightarrow> map_option (\<lambda>R. with_robot (\<lambda>_. R) s) (Robot_destroy R))"

section \<open>What a request does to the rest of the state\<close>

text \<open>A request that a robot command can register: the translation of a complete one.\<close>

definition valid_request :: "RapidRequest \<Rightarrow> bool" where
  "valid_request r \<longleftrightarrow>
     (\<exists>req. serves_robot (cmd_type req) \<and> complete_request req \<and> r = request_spec req)"

definition tasker_effect :: "Tasker \<Rightarrow> Tasker \<Rightarrow> bool" where
  "tasker_effect T T' \<longleftrightarrow>
     T' = T \<or> (\<exists>now r. valid_request r \<and> T' = snd (addTask now r T)) \<or>
     (\<exists>k t. getTask k T = Some t \<and> m_state t \<in> {COMPLETED, FAILED} \<and> T' = snd (removeTask k T))"

lemma created_valid:
  "serves_robot (cmd_type req) \<Longrightarrow> create_rapid_request req = Inr r \<Longrightarrow> valid_request r"
  using create_rapid_request_complete [of req] create_rapid_request_incomplete [of req]
  by (cases "complete_request req") (auto simp: valid_request_def)

lemma robot_command_effect:
  assumes "mutex_free s" and "serves_robot (cmd_type req)"
  shows "tasker_effect (tasker_s s) (tasker_s (snd (handle_robot_command env req res s))) \<and>
    robot_s (snd (handle_robot_command env req res s)) = robot_s s"
  using assms created_valid
  by (fastforce simp: robot_command_free tasker_effect_def refreshed_def split: option.split sum.split)

lemma check_task_effect:
  assumes "mutex_free s" and "task_id req = Some k"
  shows "tasker_effect (tasker_s s) (tasker_s (snd (handle_check_task env req res s))) \<and>
    robot_s (snd (handle_check_task env req res s)) = robot_s s"
proof (cases "getTask k (tasker_s s)")
  case None
  with assms show ?thesis by (simp add: check_task_free tasker_effect_def refreshed_def)
next
  case (Some t)
  with assms show ?thesis
    by (cases "m_state t")
      (auto simp: check_task_free tasker_effect_def refreshed_def split: sum.split)
qed

lemma handle_effect:
  assumes "cmd_type req = CHECK_TASK \<longrightarrow> task_id req \<noteq> None"
  shows "tasker_effect (tasker_s s) (tasker_s (snd (handle env req s))) \<and>
    robot_s (snd (handle env req s)) = robot_s s"
proof (cases "mutex_m (session_manager_s s)")
  case True
  with handle_wedged [OF True assms] show ?thesis by (simp add: tasker_effect_def)
next
  case free: False
  note robot = robot_command_effect [OF free, of req env ServerResponse_new]
  show ?thesis
  proof (cases "cmd_type req")
    case CHECK_TASK
    with assms obtain k where "task_id req = Some k" by auto
    from check_task_effect [OF free this] CHECK_TASK free show ?thesis by (simp add: handle_free)
  qed (use free robot in \<open>auto simp: handle_free login_handler_free logout_handler_free
      acquire_handler_free release_handler_free exit_handler_free tasker_effect_def refreshed_def
      serves_robot_def split: prod.splits\<close>)
qed

lemma loop_effect:
  "tasker_effect (tasker_s s) (tasker_s (snd (loop_iteration io env msg s))) \<and>
     robot_s (snd (loop_iteration io env msg s)) = robot_s s"
proof (cases msg)
  case None
  then show ?thesis by (simp add: loop_iteration_def tasker_effect_def)
next
  case (Some m)
  obtain res buffer where m: "m = (res, buffer)" by (cases m)
  define req where "req = decode_buffer (mio_commands io) (mio_zones io) (mio_parse io) buffer"
  have "cmd_type req = CHECK_TASK \<longrightarrow> task_id req \<noteq> None"
    using decode_task_id [of "mio_commands io" "mio_zones io" "mio_parse io" buffer]
    by (simp add: req_def)
  note eff = handle_effect [OF this, of s env]
  obtain r t where h: "handle env req s = (r, t)" by fastforce
  with eff Some m show ?thesis
    by (cases r) (auto simp: loop_iteration_def tasker_effect_def simp flip: req_def
        split: cxx_error.split)
qed

section \<open>One task at a time\<close>

text \<open>The task the worker has taken from the queue, and the one it has started.\<close>

fun current_task :: "task_worker \<Rightarrow> task_id_t option" where
  "current_task (RwStart k) = Some k"
| "current_task (RwFetch k) = Some k"
| "current_task (RwSubmit k req) = Some k"
| "current_task (RwAwait k p) = Some k"
| "current_task w = None"

fun active_task :: "task_worker \<Rightarrow> task_id_t option" where
  "active_task (RwStart k) = None"
| "active_task w = current_task w"

fun submitted :: "task_worker \<Rightarrow> RapidRequest option" where
  "submitted (RwSubmit k req) = Some req"
| "submitted w = None"

definition worker_ok :: "task_worker \<Rightarrow> Tasker \<Rightarrow> bool" where
  "worker_ok w T \<longleftrightarrow>
     (\<forall>j t. getTask j T = Some t \<longrightarrow> m_state t = IN_PROGRESS \<longrightarrow> active_task w = Some j) \<and>
     (\<forall>j. active_task w = Some j \<longrightarrow> (\<exists>t. getTask j T = Some t \<and> m_state t = IN_PROGRESS \<and>
        (\<forall>req. submitted w = Some req \<longrightarrow> m_request t = req))) \<and>
     (\<forall>j t. getTask j T = Some t \<longrightarrow> j \<in> set (m_task_queue T) \<or> w = RwStart j \<longrightarrow> m_state t = PENDING) \<and>
     (\<forall>c. current_task w = Some c \<longrightarrow> unat c < unat (m_next_task_counter T) \<and>
        (\<forall>k \<in> set (m_task_queue T). unat c < unat k))"

definition tasks_ok :: "task_worker \<Rightarrow> Tasker \<Rightarrow> bool" where
  "tasks_ok w T \<longleftrightarrow> task_ids_ok T \<and> worker_ok w T"

lemma tasks_ok_ids: "tasks_ok w T \<Longrightarrow> task_ids_ok T"
  by (simp add: tasks_ok_def)

lemma add_tasks_ok:
  assumes "tasks_ok w T" and "unat (m_next_task_counter T) < 2 ^ 64 - 1"
  shows "tasks_ok w (snd (addTask now r T))"
proof -
  let ?n = "m_next_task_counter T" and ?T = "snd (addTask now r T)"
  have ids: "task_ids_ok T" and w: "worker_ok w T" using assms(1) by (simp_all add: tasks_ok_def)
  have "getTask ?n T = None"
    using ids unfolding task_ids_ok_def by (metis less_irrefl not_None_eq)
  then have get: "getTask k ?T = (if k = ?n then Some (Task_new now k r) else getTask k T)" for k
    by (simp add: addTask_get)
  have q: "m_task_queue ?T = m_task_queue T @ [?n]" and c: "m_next_task_counter ?T = ?n + 1"
    by (simp_all add: addTask_fields)
  have n: "unat (?n + 1) = unat ?n + 1" using assms(2) by (rule counter_next)
  have lt: "unat k < unat ?n" if "getTask k T = Some t" for k t
    using that ids unfolding task_ids_ok_def by blast
  have new: "m_state (Task_new now k r) = PENDING" for k by (simp add: Task_new_def)
  have old: "getTask j T = Some t \<or> j = ?n \<and> m_state t = PENDING" if "getTask j ?T = Some t" for j t
    using that new by (auto simp: get split: if_splits)
  have "worker_ok w ?T"
    unfolding worker_ok_def q c n
  proof (intro conjI allI impI)
    fix j t assume "getTask j ?T = Some t" "m_state t = IN_PROGRESS"
    with old have "getTask j T = Some t" by fastforce
    with w \<open>m_state t = IN_PROGRESS\<close> show "active_task w = Some j" unfolding worker_ok_def by blast
  next
    fix j assume "active_task w = Some j"
    with w obtain t where t: "getTask j T = Some t" "m_state t = IN_PROGRESS"
      "\<forall>req. submitted w = Some req \<longrightarrow> m_request t = req" unfolding worker_ok_def by blast
    with lt have "j \<noteq> ?n" by blast
    with t get show "\<exists>t. getTask j ?T = Some t \<and> m_state t = IN_PROGRESS \<and>
        (\<forall>req. submitted w = Some req \<longrightarrow> m_request t = req)" by simp
  next
    fix j t assume jt: "getTask j ?T = Some t" and "j \<in> set (m_task_queue T @ [?n]) \<or> w = RwStart j"
    then have "m_state t = PENDING \<or> getTask j T = Some t \<and> (j \<in> set (m_task_queue T) \<or> w = RwStart j)"
      using old [OF jt] lt by auto
    with w show "m_state t = PENDING" unfolding worker_ok_def by blast
  next
    fix k assume "current_task w = Some k"
    with w show "unat k < unat ?n + 1" unfolding worker_ok_def by fastforce
  next
    fix k assume "current_task w = Some k"
    with w show "\<forall>j \<in> set (m_task_queue T @ [?n]). unat k < unat j" unfolding worker_ok_def by auto
  qed
  with add_ids_ok [OF ids assms(2)] show ?thesis by (simp add: tasks_ok_def)
qed

lemma less_tasks_ok:
  assumes "tasks_ok w T" and "task_ids_ok T'"
    and "m_task_queue T' = m_task_queue T" and "m_next_task_counter T' = m_next_task_counter T"
    and sub: "\<And>k t. getTask k T' = Some t \<Longrightarrow> getTask k T = Some t"
    and keep: "\<And>k t. getTask k T = Some t \<Longrightarrow> m_state t = IN_PROGRESS \<Longrightarrow> getTask k T' = Some t"
  shows "tasks_ok w T'"
proof -
  have w: "worker_ok w T" using assms(1) by (simp add: tasks_ok_def)
  have "worker_ok w T'"
    unfolding worker_ok_def assms(3,4)
  proof (intro conjI allI impI)
    fix j t assume "getTask j T' = Some t" "m_state t = IN_PROGRESS"
    with w sub show "active_task w = Some j" unfolding worker_ok_def by blast
  next
    fix j assume "active_task w = Some j"
    with w keep show "\<exists>t. getTask j T' = Some t \<and> m_state t = IN_PROGRESS \<and>
        (\<forall>req. submitted w = Some req \<longrightarrow> m_request t = req)"
      unfolding worker_ok_def by blast
  next
    fix j t assume "getTask j T' = Some t" "j \<in> set (m_task_queue T) \<or> w = RwStart j"
    with w sub show "m_state t = PENDING" unfolding worker_ok_def by blast
  next
    fix c assume "current_task w = Some c"
    with w show "unat c < unat (m_next_task_counter T)" unfolding worker_ok_def by blast
  next
    fix c assume "current_task w = Some c"
    with w show "\<forall>k \<in> set (m_task_queue T). unat c < unat k" unfolding worker_ok_def by blast
  qed
  with assms(2) show ?thesis by (simp add: tasks_ok_def)
qed

lemma effect_tasks_ok:
  assumes "tasks_ok w T" and "tasker_effect T T'" and "unat (m_next_task_counter T) < 2 ^ 64 - 1"
  shows "tasks_ok w T'"
proof -
  from assms(2) consider "T' = T" | now r where "T' = snd (addTask now r T)"
    | k t where "getTask k T = Some t" "m_state t \<in> {COMPLETED, FAILED}" "T' = snd (removeTask k T)"
    unfolding tasker_effect_def by blast
  then show ?thesis
  proof cases
    case 3
    note ids = tasks_ok_ids [OF assms(1)]
    show ?thesis
      unfolding 3(3)
    proof (rule less_tasks_ok [OF assms(1) remove_ids_ok [OF ids]])
      show "getTask j T = Some u" if "getTask j (snd (removeTask k T)) = Some u" for j u
        using that by (simp add: removeTask_get split: if_splits)
      show "getTask j (snd (removeTask k T)) = Some u"
        if "getTask j T = Some u" "m_state u = IN_PROGRESS" for j u
        using that 3(1,2) by (auto simp: removeTask_get)
    qed (simp_all add: remove_rest)
  qed (use assms add_tasks_ok in blast)+
qed

lemma sweep_tasks_ok: "tasks_ok w T \<Longrightarrow> tasks_ok w (sweepExpiredTasks now x T)"
proof (rule less_tasks_ok)
  assume ok: "tasks_ok w T"
  note ids = tasks_ok_ids [OF ok]
  then have d: "distinct (map fst (m_task_map T))" by (simp add: task_ids_ok_def)
  show "task_ids_ok (sweepExpiredTasks now x T)" using ids by (rule sweep_ids_ok)
  show "getTask k T = Some t" if "getTask k (sweepExpiredTasks now x T) = Some t" for k t
    using that by (simp add: sweep_get [OF d] split: option.splits if_splits)
  show "getTask k (sweepExpiredTasks now x T) = Some t"
    if "getTask k T = Some t" "m_state t = IN_PROGRESS" for k t
    using that by (simp add: sweep_get [OF d] isExpired_def)
qed (simp_all add: sweep_rest)

lemma stop_rest:
  "m_task_queue (stop_tasker T) = m_task_queue T"
  "m_next_task_counter (stop_tasker T) = m_next_task_counter T"
  by (simp_all add: stop_tasker_def)

lemma stop_tasks_ok: "tasks_ok w T \<Longrightarrow> tasks_ok w (stop_tasker T)"
  by (rule less_tasks_ok) (simp_all add: stop_ids_ok tasks_ok_ids stop_get stop_rest)

lemma idle_tasks_ok:
  "tasks_ok w T \<Longrightarrow> active_task w = None \<Longrightarrow> active_task v = None \<Longrightarrow> current_task v = None \<Longrightarrow> tasks_ok v T"
  by (cases v) (auto simp: tasks_ok_def worker_ok_def)

lemma take_tasks_ok:
  assumes "tasks_ok RwWait T" and "waitForNextTask T = (Next (Some k), T')"
  shows "tasks_ok (RwStart k) T'"
proof -
  note ids = tasks_ok_ids [OF assms(1)]
  obtain ks where q: "m_task_queue T = k # ks" and T': "T' = T\<lparr>m_task_queue := ks\<rparr>"
    using assms(2) by (cases "m_task_queue T") (auto simp: waitForNextTask_def split: if_splits)
  have "task_ids_ok T'" using wait_ids_ok [OF ids] assms(2) by simp
  moreover have get: "getTask j T' = getTask j T" for j by (simp add: T' getTask_def)
  have lt: "\<forall>j \<in> set ks. unat k < unat j" "unat k < unat (m_next_task_counter T)"
    using ids q by (simp_all add: task_ids_ok_def)
  have "worker_ok (RwStart k) T'"
    using assms(1) lt q unfolding tasks_ok_def worker_ok_def get by (auto simp: T')
  ultimately show ?thesis by (simp add: tasks_ok_def)
qed

lemma update_call_rest:
  "m_next_task_counter (snd (startTask now k T)) = m_next_task_counter T"
  "m_next_task_counter (snd (completeTask now k s T)) = m_next_task_counter T"
  "m_next_task_counter (snd (failTask now k s T)) = m_next_task_counter T"
  by (simp_all add: startTask_def completeTask_def failTask_def update_task_rest)

lemma update_call_ids:
  assumes "task_ids_ok T"
  shows "task_ids_ok (snd (startTask now k T))" and "task_ids_ok (snd (completeTask now k s T))"
    and "task_ids_ok (snd (failTask now k s T))"
  using assms
  by (simp_all add: startTask_def completeTask_def failTask_def update_ids_ok setResponse_def)

lemma start_tasks_ok:
  assumes "tasks_ok (RwStart k) T" and "startTask now k T = (found, T')"
  shows "tasks_ok (if found then RwFetch k else RwHead) T'"
proof -
  note ids = tasks_ok_ids [OF assms(1)]
  have w: "worker_ok (RwStart k) T" using assms(1) by (simp add: tasks_ok_def)
  have T': "T' = snd (startTask now k T)" "found = (getTask k T \<noteq> None)"
    using assms(2) update_calls(1) [of now k T] by simp_all
  have get: "getTask j T' = (if j = k then map_option (\<lambda>t. snd (markStarted now t)) (getTask k T)
      else getTask j T)" for j
    by (simp add: T'(1) startTask_get)
  have same: "m_task_queue T' = m_task_queue T" "m_next_task_counter T' = m_next_task_counter T"
    by (simp_all add: T'(1) update_calls update_call_rest)
  have none: "m_state t \<noteq> IN_PROGRESS" if "getTask j T = Some t" for j t
    using that w unfolding worker_ok_def by auto
  have notq: "k \<notin> set (m_task_queue T)" using w unfolding worker_ok_def by auto
  show ?thesis
  proof (cases "getTask k T")
    case None
    then have "worker_ok RwHead T'"
      using w none same unfolding worker_ok_def by (auto simp: get)
    with None update_call_ids(1) [OF ids] T' show ?thesis by (simp add: tasks_ok_def)
  next
    case (Some t)
    then have "m_state t = PENDING" using w unfolding worker_ok_def by blast
    then have "worker_ok (RwFetch k) T'"
      using w none notq same Some unfolding worker_ok_def
      by (auto simp: get markStarted_def split: if_splits)
    with Some update_call_ids(1) [OF ids] T' show ?thesis by (simp add: tasks_ok_def)
  qed
qed

lemma end_tasks_ok:
  assumes "tasks_ok w T" and "active_task w = Some k" and "task_ids_ok T'"
    and "m_task_queue T' = m_task_queue T" and "m_next_task_counter T' = m_next_task_counter T"
    and get: "\<And>j. getTask j T' = (if j = k then map_option f (getTask k T) else getTask j T)"
    and ended: "\<And>t. m_state t = IN_PROGRESS \<Longrightarrow> m_state (f t) \<noteq> IN_PROGRESS"
  shows "tasks_ok RwHead T'"
proof -
  have w: "worker_ok w T" using assms(1) by (simp add: tasks_ok_def)
  have "current_task w = Some k" using assms(2) by (cases w) simp_all
  then have notq: "k \<notin> set (m_task_queue T)" using w unfolding worker_ok_def by auto
  have pend: "m_state t = PENDING" if "getTask j T = Some t" "j \<in> set (m_task_queue T)" for j t
    using that w unfolding worker_ok_def by blast
  obtain u where u: "getTask k T = Some u" "m_state u = IN_PROGRESS"
    using w assms(2) unfolding worker_ok_def by blast
  have other: "m_state t \<noteq> IN_PROGRESS" if "getTask j T = Some t" "j \<noteq> k" for j t
    using that w assms(2) unfolding worker_ok_def by auto
  have "worker_ok RwHead T'"
    unfolding worker_ok_def assms(4)
    using u ended [OF u(2)] other pend notq by (auto simp: get split: if_splits)
  with assms(3) show ?thesis by (simp add: tasks_ok_def)
qed

lemma fail_tasks_ok:
  assumes "tasks_ok w T" and "active_task w = Some k"
  shows "tasks_ok RwHead (snd (failTask now k msg T))"
  using assms
  by (rule end_tasks_ok [where f = "\<lambda>t. (snd (markFailed now t))\<lparr>m_response := msg\<rparr>"])
    (use tasks_ok_ids [OF assms(1)] in \<open>simp_all add: update_call_ids update_calls update_call_rest
      failTask_get markFailed_def\<close>)

lemma complete_tasks_ok:
  assumes "tasks_ok w T" and "active_task w = Some k"
  shows "tasks_ok RwHead (snd (completeTask now k msg T))"
  using assms
  by (rule end_tasks_ok [where f = "\<lambda>t. (snd (markCompleted now t))\<lparr>m_response := msg\<rparr>"])
    (use tasks_ok_ids [OF assms(1)] in \<open>simp_all add: update_call_ids update_calls update_call_rest
      completeTask_get markCompleted_def\<close>)

lemma finish_tasks_ok:
  "tasks_ok w T \<Longrightarrow> active_task w = Some k \<Longrightarrow> tasks_ok RwHead (finish_task now k raw T)"
  by (simp add: finish_task_def Let_def fail_tasks_ok complete_tasks_ok)

lemma worker_ok_change:
  assumes "worker_ok w T" and "active_task v = active_task w" and "current_task v = current_task w"
    and sub: "\<And>j t req. active_task w = Some j \<Longrightarrow> getTask j T = Some t \<Longrightarrow>
      submitted v = Some req \<Longrightarrow> m_request t = req"
    and start: "\<And>j. v \<noteq> RwStart j"
  shows "worker_ok v T"
  unfolding worker_ok_def
proof (intro conjI allI impI)
  fix j t assume "getTask j T = Some t" "m_state t = IN_PROGRESS"
  with assms(1) show "active_task v = Some j" unfolding worker_ok_def assms(2) by blast
next
  fix j assume j: "active_task v = Some j"
  then have w: "active_task w = Some j" using assms(2) by simp
  with assms(1) obtain t where "getTask j T = Some t" "m_state t = IN_PROGRESS"
    unfolding worker_ok_def by blast
  with sub [OF w] show "\<exists>t. getTask j T = Some t \<and> m_state t = IN_PROGRESS \<and>
      (\<forall>req. submitted v = Some req \<longrightarrow> m_request t = req)"
    by blast
next
  fix j t assume "getTask j T = Some t" "j \<in> set (m_task_queue T) \<or> v = RwStart j"
  with assms(1) start show "m_state t = PENDING" unfolding worker_ok_def by blast
next
  fix c assume "current_task v = Some c"
  with assms(1) show "unat c < unat (m_next_task_counter T)"
    unfolding worker_ok_def assms(3) by blast
next
  fix c assume "current_task v = Some c"
  with assms(1) show "\<forall>k \<in> set (m_task_queue T). unat c < unat k"
    unfolding worker_ok_def assms(3) by blast
qed

lemma fetch_tasks_ok:
  assumes "tasks_ok (RwFetch k) T" and "getTask k T = Some t"
  shows "tasks_ok (RwSubmit k (m_request t)) T"
proof -
  have "worker_ok (RwSubmit k (m_request t)) T"
    by (rule worker_ok_change [of "RwFetch k"]) (use assms in \<open>simp_all add: tasks_ok_def\<close>)
  with assms show ?thesis by (simp add: tasks_ok_def)
qed

lemma await_tasks_ok: "tasks_ok (RwSubmit k req) T \<Longrightarrow> tasks_ok (RwAwait k p) T"
  unfolding tasks_ok_def by (auto intro: worker_ok_change [of "RwSubmit k req"])

section \<open>The invariant of the program\<close>

definition server_inv :: "Server \<Rightarrow> bool" where
  "server_inv s \<longleftrightarrow>
     (sv_worker s \<noteq> RwCrashed \<longrightarrow> tasks_ok (sv_worker s) (tasker_s (sv s))) \<and>
     (\<forall>R. robot_s (sv s) = Some R \<longrightarrow> robot_inv R)"

lemma on_tasker_fields [simp]:
  "tasker_s (sv (on_tasker f s)) = f (tasker_s (sv s))" "robot_s (sv (on_tasker f s)) = robot_s (sv s)"
  "session_manager_s (sv (on_tasker f s)) = session_manager_s (sv s)"
  "sv_worker (on_tasker f s) = sv_worker s" "sv_loop (on_tasker f s) = sv_loop s"
  "sv_sweeper (on_tasker f s) = sv_sweeper s" "sv_running (on_tasker f s) = sv_running s"
  by (simp_all add: on_tasker_def)

lemma with_robot_fields [simp]:
  "robot_s (sv (with_robot f s)) = map_option f (robot_s (sv s))"
  "tasker_s (sv (with_robot f s)) = tasker_s (sv s)"
  "session_manager_s (sv (with_robot f s)) = session_manager_s (sv s)"
  "sv_worker (with_robot f s) = sv_worker s" "sv_loop (with_robot f s) = sv_loop s"
  "sv_sweeper (with_robot f s) = sv_sweeper s" "sv_running (with_robot f s) = sv_running s"
  by (simp_all add: with_robot_def)

lemma request_inv:
  assumes "server_inv s" and "unat (m_next_task_counter (tasker_s (sv s))) < 2 ^ 64 - 1"
  shows "server_inv (request_step io env msg s)"
proof -
  obtain r t where l: "loop_iteration io env msg (sv s) = (r, t)" by fastforce
  with loop_effect [of "sv s" io env msg]
  have eff: "tasker_effect (tasker_s (sv s)) (tasker_s t)" and rob: "robot_s t = robot_s (sv s)"
    by simp_all
  have "tasks_ok (sv_worker s) (tasker_s t)" if "sv_worker s \<noteq> RwCrashed"
    using that assms(1) by (intro effect_tasks_ok [OF _ eff assms(2)]) (simp add: server_inv_def)
  with assms(1) l rob show ?thesis by (simp add: server_inv_def request_step_def)
qed

lemma sweeper_inv: "server_inv s \<Longrightarrow> server_inv (sweeper_step now s)"
  by (auto simp: server_inv_def sweeper_step_def sweep_tasks_ok split: prod.split sum.split)

lemma robot_step_inv: "server_inv s \<Longrightarrow> io_documented io \<Longrightarrow> server_inv (with_robot (worker_loop_step io) s)"
  by (auto simp: server_inv_def worker_inv)

lemmas stop_parts = stop_running_def stop_tasks_def stop_robot_def

lemma stop_server_inv:
  "server_inv s \<Longrightarrow> server_inv (stop_running s)" "server_inv s \<Longrightarrow> server_inv (stop_tasks s)"
  "server_inv s \<Longrightarrow> server_inv (stop_robot s)"
  by (auto simp: server_inv_def stop_parts stop_tasks_ok stop_inv)

lemma stop_steps: "server_step\<^sup>*\<^sup>* s (stop s)"
proof (cases "sv_running s")
  case True
  have "server_step s (stop_running s)" by (rule step_stop_running)
  moreover have "server_step (stop_running s) (stop_tasks (stop_running s))"
    by (rule step_stop_tasks) (simp add: stop_parts)
  moreover have "server_step (stop_tasks (stop_running s)) (stop_robot (stop_tasks (stop_running s)))"
    by (rule step_stop_robot) (simp add: stop_parts)
  ultimately show ?thesis using True by (simp add: stop_def)
qed (simp add: stop_def)

lemma task_worker_inv:
  assumes "server_inv s"
  shows "server_inv (robot_worker_step now timed_out s)"
proof (cases "sv_worker s")
  case RwHead
  with assms show ?thesis
    by (auto simp: server_inv_def robot_worker_step_def intro: idle_tasks_ok [of RwHead])
next
  case RwWait
  obtain w T where wt: "waitForNextTask (tasker_s (sv s)) = (w, T)" by fastforce
  show ?thesis
  proof (cases w)
    case (Next nx)
    with RwWait assms wt show ?thesis
      by (cases nx) (auto simp: server_inv_def robot_worker_step_def take_tasks_ok
          intro: idle_tasks_ok [of RwWait])
  qed (use RwWait assms wt in \<open>simp add: robot_worker_step_def\<close>)
next
  case (RwStart k)
  obtain found T where st: "startTask now k (tasker_s (sv s)) = (found, T)" by fastforce
  have "tasks_ok (if found then RwFetch k else RwHead) T"
    using RwStart assms st by (intro start_tasks_ok) (simp_all add: server_inv_def)
  with RwStart assms st show ?thesis by (simp add: server_inv_def robot_worker_step_def)
next
  case (RwFetch k)
  then have ok: "tasks_ok (RwFetch k) (tasker_s (sv s))" using assms by (simp add: server_inv_def)
  then obtain t where "getTask k (tasker_s (sv s)) = Some t" by (auto simp: tasks_ok_def worker_ok_def)
  with RwFetch assms ok fetch_tasks_ok [OF ok this] fail_tasks_ok [OF ok, of k now] show ?thesis
    by (simp add: server_inv_def robot_worker_step_def)
next
  case (RwSubmit k req)
  then have ok: "tasks_ok (RwSubmit k req) (tasker_s (sv s))" using assms by (simp add: server_inv_def)
  note next_ok = await_tasks_ok [OF ok]
  have "robot_inv R \<Longrightarrow> queue_request req R = (Inr p, R') \<Longrightarrow> robot_inv R'" for R R' p
    using enqueue_inv [of R req] by (auto simp: queue_request_def split: if_splits)
  with RwSubmit assms next_ok show ?thesis
    by (auto simp: server_inv_def robot_worker_step_def split: option.split sum.split prod.split)
next
  case (RwAwait k p)
  then have ok: "tasks_ok (RwAwait k p) (tasker_s (sv s))" using assms by (simp add: server_inv_def)
  with RwAwait assms finish_tasks_ok [OF ok, of k] fail_tasks_ok [OF ok, of k] show ?thesis
    by (auto simp: server_inv_def robot_worker_step_def split: option.split)
qed (use assms in \<open>simp_all add: robot_worker_step_def\<close>)

definition server_started :: "Server \<Rightarrow> bool" where
  "server_started s \<longleftrightarrow> (\<exists>LoadFile path k s0. Server_new LoadFile path k = Inr s0 \<and> s = start s0)"

lemma empty_tasks_ok: "tasks_ok w Tasker_default" if "current_task w = None"
  using that by (cases w) (auto simp: tasks_ok_def worker_ok_def task_ids_ok_def getTask_def Tasker_default_def)

lemma new_robot_inv: "robot_inv (Robot_new host port ms k)"
  by (rule rb.inv_start) blast

lemma start_server_inv:
  assumes "Server_new LoadFile path k = Inr s0"
  shows "server_inv (start s0)"
proof -
  from assms obtain h p m where s0: "robot_s (sv s0) = Some (Robot_new h p m k)"
    "tasker_s (sv s0) = Tasker_default" "sv_worker s0 = RwNotStarted"
    by (auto simp: Server_new_def sum_bind_Inr_iff)
  have "robot_inv (start_session (Robot_new h p m k))" for h p m
    using new_robot_inv by (rule start_inv) (simp add: Robot_new_def)
  with s0 new_robot_inv show ?thesis
    by (auto simp: start_def server_inv_def intro: empty_tasks_ok)
qed

interpretation srv: invariant_of server_started server_step server_inv
proof unfold_locales
  fix s assume "server_started s"
  then show "server_inv s" by (auto simp: server_started_def start_server_inv)
next
  fix s t assume "server_step s t" and inv: "server_inv s"
  then show "server_inv t"
  proof (cases rule: server_step.cases)
    case (step_stopped R R')
    have "robot_inv R'" using step_stopped inv finish_inv by (auto simp: server_inv_def)
    with step_stopped inv show ?thesis by (auto simp: server_inv_def)
  qed (auto intro: inv request_inv task_worker_inv sweeper_inv robot_step_inv stop_server_inv)
qed

section \<open>Properties\<close>

definition demo_load :: "string \<Rightarrow> cxx_error + yaml_conf" where
  "demo_load path = Inr demo_yaml"

definition demo_kernel :: kernel where
  "demo_kernel = \<lparr>open_fds = [], live_addrinfos = 0\<rparr>"

definition demo_start :: Server where
  "demo_start = start (projr (Server_new demo_load ''conf.yaml'' demo_kernel))"

lemma demo_start_started: "server_started demo_start"
proof -
  have "\<exists>s0. Server_new demo_load ''conf.yaml'' demo_kernel = Inr s0"
    using wf_SessionManager_default
    by (simp add: Server_new_def demo_load_def parse_conf_def demo_yaml_def load_users_free)
  then show ?thesis unfolding server_started_def demo_start_def by (metis sum.sel(2))
qed

text \<open>
  C8. One task at a time: in every state of the running program, under every interleaving of its
  threads, at most one task is in progress, it is the one the robot worker has taken, and the
  request that worker is about to hand to the robot is the request that task was created with.
\<close>

theorem one_task_at_a_time:
  assumes "reach server_started server_step s" and "sv_worker s \<noteq> RwCrashed"
  shows "(\<forall>j t. getTask j (tasker_s (sv s)) = Some t \<and> m_state t = IN_PROGRESS \<longrightarrow>
      active_task (sv_worker s) = Some j) \<and>
    (\<forall>j req. sv_worker s = RwSubmit j req \<longrightarrow>
      (\<exists>t. getTask j (tasker_s (sv s)) = Some t \<and> m_state t = IN_PROGRESS \<and> m_request t = req))"
proof -
  have "tasks_ok (sv_worker s) (tasker_s (sv s))"
    using srv.reach_inv [OF assms(1)] assms(2) by (simp add: server_inv_def)
  then have w: "worker_ok (sv_worker s) (tasker_s (sv s))" by (simp add: tasks_ok_def)
  then have "active_task (sv_worker s) = Some j"
    if "getTask j (tasker_s (sv s)) = Some t" "m_state t = IN_PROGRESS" for j t
    using that unfolding worker_ok_def by blast
  moreover have "\<exists>t. getTask j (tasker_s (sv s)) = Some t \<and> m_state t = IN_PROGRESS \<and> m_request t = req"
    if "sv_worker s = RwSubmit j req" for j req
  proof -
    have "active_task (sv_worker s) = Some j" "submitted (sv_worker s) = Some req"
      using that by simp_all
    with w show ?thesis unfolding worker_ok_def by blast
  qed
  ultimately show ?thesis by blast
qed

theorem one_task_at_a_time_witness:
  "\<not> (\<exists>t. getTask 1 (tasker_s (sv demo_start)) = Some t \<and> m_state t = IN_PROGRESS)"
proof -
  have "sv_worker demo_start = RwHead \<or> sv_worker demo_start = RwNotStarted"
    using wf_SessionManager_default
    by (simp add: demo_start_def start_def Server_new_def demo_load_def parse_conf_def demo_yaml_def
        load_users_free)
  moreover have "reach server_started server_step demo_start"
    by (rule reach_start) (rule demo_start_started)
  ultimately show ?thesis using one_task_at_a_time [of demo_start] by auto
qed

text \<open>
  C25. The request loop answers every message exactly once, with a reply or an error reply, while the
  session mutex is free, except for the three ways out the code leaves open: a message of exactly
  11 bytes, whose length is mistaken for \<^verbatim>\<open>EAGAIN\<close>, terminates the program with an
  uncaught exception; an unrepresentable speed and an unreadable telemetry packet are undefined
  behaviour.
\<close>

theorem request_loop_answers:
  assumes "mutex_free s"
    and "req = decode_buffer (mio_commands io) (mio_zones io) (mio_parse io) data"
    and "loop_iteration io env (Some (length data, data)) s = (r, s')"
  shows "if length data = 11
    then (\<exists>what. r = Terminate what) \<and> s' = s
    else (\<exists>bs. r = Reply bs) \<or>
      (r = Undefined \<and>
        (cmd_type req = SET_SPEED \<and> f32_to_u16 (speed req) = Inl UB \<or>
         (\<exists>t. polled_task req s = Some t \<and> telemetry_unreadable t)))"
proof (cases "length data = 11")
  case True
  with assms(3) show ?thesis by (auto simp: loop_iteration_def EAGAIN_def)
next
  case False
  obtain h t where h: "handle env req s = (h, t)" by fastforce
  have out: "(r, s') = (case h of Inr resp \<Rightarrow> (send_reply io resp, t)
      | Inl (Exn what) \<Rightarrow> (send_reply io (exception_response what), t)
      | Inl Deadlock \<Rightarrow> (Stuck, t) | Inl UB \<Rightarrow> (Undefined, t))"
    using assms(3) False h
    by (auto simp: loop_iteration_def EAGAIN_def simp flip: assms(2) split: sum.splits cxx_error.splits)
  have reply: "\<exists>bs. send_reply io resp = Reply bs" for resp
    by (simp add: send_reply_def split: option.split)
  show ?thesis
  proof (cases h)
    case (Inr resp)
    with out reply False show ?thesis by auto
  next
    case (Inl e)
    then have e: "fst (handle env req s) = Inl e" by (simp add: h)
    have ub: "cmd_type req = SET_SPEED \<and> f32_to_u16 (speed req) = Inl UB"
      if "create_rapid_request req = Inl UB" "\<not> complete_request req"
      using that by (cases "cmd_type req"; cases "f32_to_u16 (speed req)")
        (auto simp: create_rapid_request_def complete_request_def uses_target_def Let_def
          dest: f32_to_u16_error split: option.splits)
    from handle_outcomes [OF assms(1,2) e] out Inl False reply ub show ?thesis
      by (cases e) auto
  qed
qed

definition demo_mio :: message_io where
  "demo_mio =
     \<lparr>mio_commands = demo_labels, mio_zones = demo_zones, mio_parse = (\<lambda>_. Some demo_move),
      mio_serialize = (\<lambda>_. Some [1])\<rparr>"

theorem request_loop_answers_witness:
  "\<exists>what. fst (loop_iteration demo_mio demo_env (Some (11, replicate 11 7)) demo_server) = Terminate what"
proof -
  obtain r s' where r: "loop_iteration demo_mio demo_env
      (Some (length (replicate 11 (7 :: byte)), replicate 11 7)) demo_server = (r, s')"
    by fastforce
  have "mutex_free demo_server" using demo_server_inv(1) by (simp add: handler_inv_def)
  from request_loop_answers [OF this refl r] r show ?thesis by simp
qed

text \<open>The state a self-deadlocked sweep leaves, and that nothing leaves it.\<close>

definition wedged :: "Server \<Rightarrow> bool" where
  "wedged s \<longleftrightarrow> mutex_m (session_manager_s (sv s)) \<and> sv_sweeper s = ThStuck"

lemma loop_wedged:
  assumes "mutex_m (session_manager_s s)"
  shows "loop_iteration io env (Some (res, buffer)) s =
    (if res = EAGAIN then Terminate ''[ERROR] There is an error with the recv'' else Stuck, s)"
proof -
  have "handle env (decode_buffer P Z parse buffer) s = (Inl Deadlock, s)" for P Z parse
    using assms decode_task_id [of P Z parse buffer] by (intro handle_wedged) simp_all
  then show ?thesis by (simp add: loop_iteration_def)
qed

lemma loop_wedged_sessions:
  "mutex_m (session_manager_s s) \<Longrightarrow> session_manager_s (snd (loop_iteration io env msg s)) = session_manager_s s"
  by (cases msg) (auto simp: loop_wedged, simp add: loop_iteration_def)

lemma worker_keeps_rest:
  "session_manager_s (sv (robot_worker_step now b s)) = session_manager_s (sv s) \<and>
   sv_sweeper (robot_worker_step now b s) = sv_sweeper s"
  by (cases "sv_worker s")
    (auto simp: robot_worker_step_def split: prod.split wait_result.split option.split sum.split)

lemma wedged_stays:
  assumes "server_step s t" and "wedged s"
  shows "wedged t"
  using assms(1)
proof (cases rule: server_step.cases)
  case (step_request io env msg)
  with assms(2) loop_wedged_sessions [of "sv s" io env msg] show ?thesis
    by (auto simp: wedged_def request_step_def split: prod.splits)
next
  case (step_worker now b)
  with assms(2) worker_keeps_rest show ?thesis by (simp add: wedged_def)
next
  case (step_sweeper now)
  with assms(2) show ?thesis by (simp add: wedged_def sweeper_step_def)
qed (use assms(2) in \<open>simp_all add: wedged_def stop_parts\<close>)

lemma wedged_for_ever: "server_step\<^sup>*\<^sup>* s t \<Longrightarrow> wedged s \<Longrightarrow> wedged t"
  by (induction rule: rtranclp_induct) (auto intro: wedged_stays)

text \<open>A request thread that is blocked or dead stays so.\<close>

lemma loop_ended_step:
  "server_step s t \<Longrightarrow> sv_loop s \<in> {ThStuck, ThCrashed} \<Longrightarrow> sv_loop t = sv_loop s"
proof (induction rule: server_step.induct)
  case (step_worker s now b)
  then show ?case
    by (cases "sv_worker s")
      (auto simp: robot_worker_step_def on_tasker_def with_robot_def
        split: prod.split wait_result.split option.split sum.split)
qed (auto simp: request_step_def sweeper_step_def stop_parts on_tasker_def with_robot_def
    split: prod.split sum.split)

lemma loop_ended:
  "server_step\<^sup>*\<^sup>* s t \<Longrightarrow> sv_loop s \<in> {ThStuck, ThCrashed} \<Longrightarrow> sv_loop t = sv_loop s"
  by (induction rule: rtranclp_induct) (auto dest: loop_ended_step)

text \<open>
  C15. The first sweep that finds an expired session ends the service: from then on, whatever the
  threads do, the session mutex stays locked; every further message, whatever it says, leaves the
  request thread blocked in that message with everything else as it was (or, when its length is 11,
  the program terminated); a request thread that is blocked or dead stays so; and
  \<^verbatim>\<open>stop\<close> never returns because the sweeper cannot be joined.
\<close>

theorem expired_session_ends_service:
  assumes "sv_sweeper s = ThRunning" and "sv_running s" and "mutex_free (sv s)"
    and "(tok, e) \<in> set (sessions_m (session_manager_s (sv s)))" and "expired now 60 e"
    and "server_step\<^sup>*\<^sup>* (sweeper_step now s) s'"
  shows "mutex_m (session_manager_s (sv s')) \<and> \<not> stop_returns s' \<and>
    (\<forall>io env len data. loop_iteration io env (Some (len, data)) (sv s') =
       (if len = 11 then Terminate ''[ERROR] There is an error with the recv'' else Stuck, sv s')) \<and>
    (\<forall>io env len data. sv_loop s' = ThRunning \<longrightarrow> sv_running s' \<longrightarrow>
       request_step io env (Some (len, data)) s' =
         s'\<lparr>sv_loop := (if len = 11 then ThCrashed else ThStuck)\<rparr>) \<and>
    (\<forall>t. sv_loop s' \<in> {ThStuck, ThCrashed} \<longrightarrow> server_step\<^sup>*\<^sup>* s' t \<longrightarrow> sv_loop t = sv_loop s')"
proof -
  have "wedged (sweeper_step now s)"
    using sweep_deadlocks [OF assms(3-5)] assms(1,2) by (simp add: wedged_def sweeper_step_def)
  with assms(6) have w: "wedged s'" by (rule wedged_for_ever)
  then have m: "mutex_m (session_manager_s (sv s'))" by (simp add: wedged_def)
  note it = loop_wedged [OF this]
  have "request_step io env (Some (len, data)) s' = s'\<lparr>sv_loop := (if len = 11 then ThCrashed else ThStuck)\<rparr>"
    if "sv_loop s' = ThRunning" "sv_running s'" for io env len data
    using that by (simp add: request_step_def it EAGAIN_def)
  with w m it loop_ended show ?thesis by (simp add: wedged_def stop_returns_def EAGAIN_def)
qed

lemma sweeper_keeps:
  "sv_loop (sweeper_step now s) = sv_loop s \<and> sv_running (sweeper_step now s) = sv_running s"
  by (simp add: sweeper_step_def on_tasker_def split: prod.split sum.split)

definition demo_running :: Server where
  "demo_running =
     \<lparr>sv = demo_server, sv_running = True, sv_loop = ThRunning, sv_worker = RwHead,
      sv_sweeper = ThRunning\<rparr>"

theorem expired_session_ends_service_witness:
  "\<not> stop_returns (stop (sweeper_step 100000000000 demo_running)) \<and>
   sv_loop (request_step demo_mio demo_env (Some (1, [0])) (sweeper_step 100000000000 demo_running)) = ThStuck"
proof -
  have "(''t1'', \<lparr>sess_username = ''ana'', last_seen = 0\<rparr>) \<in> set (sessions_m (session_manager_s (sv demo_running)))"
    "expired 100000000000 60 \<lparr>sess_username = ''ana'', last_seen = 0\<rparr>" "mutex_free (sv demo_running)"
    "sv_sweeper demo_running = ThRunning" "sv_running demo_running"
    by (simp_all add: demo_running_def demo_server_def demo_manager_def expired_def nanoseconds_def)
  note ends = expired_session_ends_service [OF this(4,5,3,1,2)]
  have "sv_loop (sweeper_step 100000000000 demo_running) = ThRunning"
    "sv_running (sweeper_step 100000000000 demo_running)"
    by (simp_all add: sweeper_keeps) (simp_all add: demo_running_def)
  moreover have "request_step io env (Some (len, data)) (sweeper_step 100000000000 demo_running) =
      (sweeper_step 100000000000 demo_running)\<lparr>sv_loop := (if len = 11 then ThCrashed else ThStuck)\<rparr>"
    if "sv_loop (sweeper_step 100000000000 demo_running) = ThRunning"
      "sv_running (sweeper_step 100000000000 demo_running)" for io env len data
    using ends [OF rtranclp.rtrancl_refl] that by blast
  moreover have "\<not> stop_returns (stop (sweeper_step 100000000000 demo_running))"
    using ends [OF stop_steps] by blast
  ultimately show ?thesis by simp
qed

text \<open>
  C31. The end of a task: when the future of the task's request is resolved, the worker's next step
  marks the task failed, with the reason, if the response starts with \<open>ERR:\<close> or \<open>NACK\<close>, and completed
  with the response otherwise; when 90 seconds pass first it is failed as disconnected. The worker is
  then free for the next task, and nothing else of the server changes: not the other entries, the
  queue, the counter or the shutdown flag of the registry, the sessions, the robot, the running flag
  or the other threads.
\<close>

theorem worker_reports:
  assumes "server_inv s" and "sv_worker s = RwAwait k p"
    and "robot_s (sv s) = Some R" and "s' = robot_worker_step now timed_out s"
    and "promises_m R ! p \<noteq> None \<or> timed_out"
  shows "\<exists>t t'. getTask k (tasker_s (sv s)) = Some t \<and> getTask k (tasker_s (sv s')) = Some t' \<and>
    t' = (case promises_m R ! p of
        None \<Rightarrow> t\<lparr>m_state := FAILED, m_end_time := now, m_response := ''Robot disconnected''\<rparr>
      | Some raw \<Rightarrow>
          if starts_with ''ERR:'' (string_of_bytes raw) \<or> starts_with ''NACK'' (string_of_bytes raw)
          then t\<lparr>m_state := FAILED, m_end_time := now,
                 m_response := ''Robot error: '' @ string_of_bytes raw\<rparr>
          else t\<lparr>m_state := COMPLETED, m_end_time := now, m_response := string_of_bytes raw\<rparr>) \<and>
    s' = s\<lparr>sv := (sv s)\<lparr>tasker_s := (tasker_s (sv s))\<lparr>m_task_map :=
        map (\<lambda>(j, u). (j, if j = k then t' else u)) (m_task_map (tasker_s (sv s)))\<rparr>\<rparr>,
      sv_worker := RwHead\<rparr>"
proof -
  let ?T = "tasker_s (sv s)"
  have ok: "tasks_ok (sv_worker s) ?T" using assms(1,2) by (simp add: server_inv_def)
  then obtain t where t: "getTask k ?T = Some t" "m_state t = IN_PROGRESS"
    using assms(2) by (auto simp: tasks_ok_def worker_ok_def)
  have "distinct (map fst (m_task_map ?T))" using ok by (simp add: tasks_ok_def task_ids_ok_def)
  with t(1) have unique: "u = t" if "(k, u) \<in> set (m_task_map ?T)" for u
    using that by (simp add: getTask_def)
  have upd: "snd (update_task k f ?T) =
      ?T\<lparr>m_task_map := map (\<lambda>(j, u). (j, if j = k then f t else u)) (m_task_map ?T)\<rparr>" for f
  proof -
    have "map (\<lambda>(j, u). (j, if j = k then f u else u)) (m_task_map ?T) =
        map (\<lambda>(j, u). (j, if j = k then f t else u)) (m_task_map ?T)"
      by (rule map_cong) (auto dest: unique)
    with t(1) show ?thesis by (simp add: update_task_def getTask_def)
  qed
  have get: "getTask k (?T\<lparr>m_task_map := map (\<lambda>(j, u). (j, if j = k then t' else u)) (m_task_map ?T)\<rparr>) = Some t'" for t'
    using upd [of "\<lambda>_. t'"] t(1) ts.modify_lookup [of k k "\<lambda>_. t'" ?T] by simp
  have marks: "snd (setResponse msg (snd (markFailed now t))) =
      t\<lparr>m_state := FAILED, m_end_time := now, m_response := msg\<rparr>"
    "snd (setResponse msg (snd (markCompleted now t))) =
      t\<lparr>m_state := COMPLETED, m_end_time := now, m_response := msg\<rparr>" for msg
    using t(2) by (simp_all add: setResponse_def markFailed_def markCompleted_def)
  have ends: "snd (failTask now k msg ?T) = ?T\<lparr>m_task_map := map (\<lambda>(j, u). (j, if j = k
      then t\<lparr>m_state := FAILED, m_end_time := now, m_response := msg\<rparr> else u)) (m_task_map ?T)\<rparr>"
    "snd (completeTask now k msg ?T) = ?T\<lparr>m_task_map := map (\<lambda>(j, u). (j, if j = k
      then t\<lparr>m_state := COMPLETED, m_end_time := now, m_response := msg\<rparr> else u)) (m_task_map ?T)\<rparr>" for msg
    unfolding failTask_def completeTask_def upd marks by (rule refl)+
  show ?thesis
  proof (cases "promises_m R ! p")
    case None
    with assms(2-5) t(1) get show ?thesis by (simp add: robot_worker_step_def ends on_tasker_def)
  next
    case (Some raw)
    with assms(2-4) t(1) get show ?thesis
      by (cases "starts_with ''ERR:'' (string_of_bytes raw)"; cases "starts_with ''NACK'' (string_of_bytes raw)")
        (simp_all add: robot_worker_step_def finish_task_def ends on_tasker_def)
  qed
qed

definition demo_tasker :: Tasker where
  "demo_tasker =
     Tasker_default\<lparr>m_next_task_counter := 2,
       m_task_map := [(1, (Task_new 0 1 zero_request)\<lparr>m_state := IN_PROGRESS\<rparr>)]\<rparr>"

definition demo_awaiting :: Server where
  "demo_awaiting =
     demo_running\<lparr>sv := demo_server\<lparr>tasker_s := demo_tasker\<rparr>, sv_worker := RwAwait 1 0\<rparr>"

lemma demo_awaiting_inv: "server_inv demo_awaiting"
proof -
  have get: "getTask j demo_tasker =
      (if j = 1 then Some ((Task_new 0 1 zero_request)\<lparr>m_state := IN_PROGRESS\<rparr>) else None)" for j
    by (simp add: getTask_def demo_tasker_def)
  have "task_ids_ok demo_tasker"
    unfolding task_ids_ok_def get by (simp add: demo_tasker_def Tasker_default_def Task_new_def)
  moreover have "worker_ok (RwAwait 1 0) demo_tasker"
    unfolding worker_ok_def get by (auto simp: demo_tasker_def Tasker_default_def)
  ultimately show ?thesis
    using demo_serving_inv
    by (simp add: server_inv_def demo_awaiting_def demo_server_def tasks_ok_def)
qed

theorem worker_reports_witness:
  "map_option m_state (getTask 1 (tasker_s (sv (robot_worker_step 90 True demo_awaiting)))) = Some FAILED"
proof -
  have "sv_worker demo_awaiting = RwAwait 1 0" "robot_s (sv demo_awaiting) = Some demo_serving"
    by (simp_all add: demo_awaiting_def demo_server_def)
  from worker_reports [OF demo_awaiting_inv this refl, of True 90] show ?thesis
    by (auto simp: demo_serving_def)
qed

lemma send_and_receive_wire:
  assumes "io_documented io" and "\<And>d. d \<noteq> [] \<Longrightarrow> 0 < io_send io d"
    and "socket_fd_m R \<noteq> INVALID_SOCKET_FD" and "send_and_receive io r R = (res, S)"
  shows "wire_m S = wire_m R @ bytes_RapidRequest r \<and> promises_m S = promises_m R \<and>
    (\<forall>e. res = Inl e \<longrightarrow> (\<exists>what. e = Exn what)) \<and> res \<noteq> Inr []"
proof -
  obtain ok T where T: "send_request io r R = (ok, T)" by fastforce
  have ok
    using T send_loop_completes [of "io_send io" "bytes_RapidRequest r" 0 "[]"] assms(2)
    by (auto simp: send_request_def split: prod.splits)
  with send_request_wire [OF assms(1) T] have "T = R\<lparr>wire_m := wire_m R @ bytes_RapidRequest r\<rparr>" by blast
  then have "wire_m T = wire_m R @ bytes_RapidRequest r" "promises_m T = promises_m R" by simp_all
  moreover have "S = T" "res = receive_buffer io"
    using assms(3,4) T \<open>ok\<close> by (simp_all add: send_and_receive_def)
  ultimately show ?thesis by (auto simp: receive_buffer_def split: option.splits if_splits)
qed

lemma close_connection_wire [simp]: "wire_m (close_connection R) = wire_m R"
  by (simp add: close_connection_def)

lemma serve_wire:
  assumes "send_and_receive io (wi_command item) R = (res, S)" and "wi_promise item = Some p"
    and "\<forall>e. res = Inl e \<longrightarrow> (\<exists>what. e = Exn what)" and "res \<noteq> Inr []"
    and "p < length (promises_m S)" and "promises_m S ! p = None"
  shows "\<exists>T. serve io item False R = (Inr (), T) \<and> wire_m T = wire_m S \<and> promises_m T ! p \<noteq> None"
proof (cases res)
  case (Inl e)
  with assms(3) obtain what where "e = Exn what" by blast
  with Inl assms(1,2,5,6) show ?thesis
    by (simp add: serve_def serve_try_def serve_catch_def cxx_defs set_value_open)
next
  case (Inr bs)
  with assms(1,2,4-6) show ?thesis
    by (simp add: serve_def serve_try_def cxx_defs set_value_open)
qed

text \<open>
  C34. A command can be executed after its task was reported failed. While the robot is disconnected
  a submitted request waits in its queue; after 90 seconds the task is marked failed, but the
  request stays queued, and as soon as the connection is back the worker of the robot takes it and
  sends all its bytes to the controller.
\<close>

theorem stale_command_executed:
  assumes "server_inv s" and "sv_worker s = RwAwait k p" and "robot_s (sv s) = Some R"
    and "request_queue_m R = item # rest" and "wi_promise item = Some p"
    and "promises_m R ! p = None" and "\<not> is_connected R" and "running_m R"
    and "worker_thread_m R = LoopHead" and "io_documented io"
    and "\<And>d. d \<noteq> [] \<Longrightarrow> 0 < io_send io d"
    and "fst (connect_tcp (io_os io) (host_m R) (port_m R) (socket_timeout_ms_m R) (kernel_m R))
      \<noteq> INVALID_SOCKET_FD"
    and "s1 = robot_worker_step now True s"
    and "s2 = (with_robot (worker_loop_step io) ^^ 3) s1"
  shows "map_option m_state (getTask k (tasker_s (sv s1))) = Some FAILED \<and>
    (\<exists>R2. robot_s (sv s2) = Some R2 \<and> wire_m R2 = bytes_RapidRequest (wi_command item) \<and>
      promises_m R2 ! p \<noteq> None) \<and>
    tasker_s (sv s2) = tasker_s (sv s1)"
proof -
  have "tasks_ok (RwAwait k p) (tasker_s (sv s))" and rinv: "robot_inv R"
    using assms(1-3) by (simp_all add: server_inv_def)
  then obtain t where t: "getTask k (tasker_s (sv s)) = Some t" "m_state t = IN_PROGRESS"
    by (auto simp: tasks_ok_def worker_ok_def)
  have s1: "s1 = (on_tasker (\<lambda>T. snd (failTask now k ''Robot disconnected'' T)) s)\<lparr>sv_worker := RwHead\<rparr>"
    using assms(2,3,6,13) by (simp add: robot_worker_step_def)
  have failed: "map_option m_state (getTask k (tasker_s (sv s1))) = Some FAILED"
    using t by (simp add: s1 failTask_get markFailed_def)
  have no_fd: "socket_fd_m R = INVALID_SOCKET_FD"
    using rinv assms(7) by (simp add: robot_inv_def connection_ok_def is_connected_def)
  obtain fd k' where c: "connect_tcp (io_os io) (host_m R) (port_m R) (socket_timeout_ms_m R)
      (kernel_m R) = (fd, k')" "fd \<noteq> INVALID_SOCKET_FD" using assms(12) by (metis prod.collapse)
  define R1 where "R1 = R\<lparr>socket_fd_m := fd, kernel_m := k', wire_m := [], connected_m := True,
      worker_thread_m := TakeWork\<rparr>"
  have 1: "worker_loop_step io R = R1"
    using assms(7-9) no_fd c
    by (simp add: worker_loop_step_def attempt_connection_def is_connected_def R1_def Let_def)
  define R2 where "R2 = R1\<lparr>request_queue_m := rest, worker_thread_m := Serve item False\<rparr>"
  have 2: "worker_loop_step io R1 = R2"
    using assms(4,8) by (simp add: worker_loop_step_def R1_def R2_def pop_request_def)
  have wire0: "wire_m R2 = []" "socket_fd_m R2 = fd" "promises_m R2 = promises_m R"
    "worker_thread_m R2 = Serve item False" by (simp_all add: R1_def R2_def)
  define R3 where "R3 = worker_loop_step io R2"
  have p: "p < length (promises_m R)"
  proof -
    have "item \<in> set (pending_items R)" using assms(4) by (simp add: pending_items_def)
    with rinv show ?thesis using pending_promise [of R item] assms(5) by (auto simp: robot_inv_def)
  qed
  obtain res S where S: "send_and_receive io (wi_command item) R2 = (res, S)" by fastforce
  have sr: "wire_m S = bytes_RapidRequest (wi_command item)" "promises_m S = promises_m R"
    "\<forall>e. res = Inl e \<longrightarrow> (\<exists>what. e = Exn what)" "res \<noteq> Inr []"
    using send_and_receive_wire [OF assms(10,11) _ S] wire0 c(2) by simp_all
  have "p < length (promises_m S)" "promises_m S ! p = None"
    using p assms(6) by (simp_all add: sr(2))
  from serve_wire [OF S assms(5) sr(3,4) this]
  have "wire_m R3 = wire_m S \<and> promises_m R3 ! p \<noteq> None"
    using wire0(4) by (auto simp: R3_def worker_loop_step_def)
  moreover have "(with_robot (worker_loop_step io) ^^ 3) s1 = with_robot (\<lambda>_. R3) s1"
    using assms(3) by (simp add: numeral_3_eq_3 with_robot_def s1 on_tasker_def 1 2 R3_def)
  ultimately show ?thesis
    using failed sr(1) assms(3,14) by (auto simp: s1)
qed

definition demo_offline :: Robot where
  "demo_offline =
     (Robot_new ''10.0.0.2'' 5000 5000 demo_kernel)
       \<lparr>running_m := True, worker_thread_m := LoopHead, promises_m := [None],
        request_queue_m := [demo_item]\<rparr>"

lemma demo_offline_inv: "robot_inv demo_offline"
proof -
  have "unanswered demo_offline = {Some 0}"
    by (auto simp: unanswered_def demo_offline_def)
  then show ?thesis
    by (simp add: robot_inv_def promises_ok_def framed_def connection_ok_def pending_items_def
        serving_def demo_offline_def Robot_new_def demo_item_def)
qed

definition demo_stale :: Server where
  "demo_stale = with_robot (\<lambda>_. demo_offline) demo_awaiting"

theorem stale_command_executed_witness:
  "map_option m_state (getTask 1 (tasker_s (sv (robot_worker_step 90 True demo_stale)))) = Some FAILED"
proof -
  let ?io = "demo_io\<lparr>io_recv := (\<lambda>n. None)\<rparr>"
  have inv: "server_inv demo_stale"
    using demo_awaiting_inv demo_offline_inv by (auto simp: server_inv_def demo_stale_def)
  have w: "sv_worker demo_stale = RwAwait 1 0" "robot_s (sv demo_stale) = Some demo_offline"
    by (simp_all add: demo_stale_def demo_awaiting_def demo_server_def)
  have r: "request_queue_m demo_offline = demo_item # []" "wi_promise demo_item = Some 0"
    "promises_m demo_offline ! 0 = None" "\<not> is_connected demo_offline" "running_m demo_offline"
    "worker_thread_m demo_offline = LoopHead"
    by (simp_all add: demo_offline_def Robot_new_def demo_item_def is_connected_def)
  have io: "io_documented ?io" "\<And>d. d \<noteq> [] \<Longrightarrow> 0 < io_send ?io d"
    by (simp_all add: io_documented_def demo_io_def)
  have c: "fst (connect_tcp (io_os ?io) (host_m demo_offline) (port_m demo_offline)
      (socket_timeout_ms_m demo_offline) (kernel_m demo_offline)) \<noteq> INVALID_SOCKET_FD"
    by (simp add: connect_tcp_def getaddrinfo_def socket_open_def demo_io_def demo_os_def
        INVALID_SOCKET_FD_def Let_def)
  from stale_command_executed [OF inv w r io c refl refl] show ?thesis by simp
qed

text \<open>
  C38. Shutdown race: \<^verbatim>\<open>stop\<close> clears the robot's running flag while the robot worker may
  still hold a task it is about to submit; the submission then throws, nothing catches it in the
  worker's thread, and the program terminates instead of stopping.
\<close>

theorem stop_may_crash_worker:
  assumes "sv_running s" and "sv_worker s = RwSubmit k req" and "robot_s (sv s) = Some R"
  shows "sv_worker (robot_worker_step now b (stop s)) = RwCrashed \<and>
    (running_m R \<longrightarrow> (\<exists>p. sv_worker (robot_worker_step now b s) = RwAwait k p))"
  using assms
  by (simp add: robot_worker_step_def stop_def stop_parts stop_session_signal_def queue_request_def)

theorem stop_may_crash_worker_witness:
  "sv_worker (robot_worker_step 5 False (stop (demo_awaiting\<lparr>sv_worker := RwSubmit 1 zero_request\<rparr>)))
     = RwCrashed"
proof -
  have "robot_s (sv (demo_awaiting\<lparr>sv_worker := RwSubmit 1 zero_request\<rparr>)) = Some demo_serving"
    "sv_running (demo_awaiting\<lparr>sv_worker := RwSubmit 1 zero_request\<rparr>)"
    by (simp_all add: demo_awaiting_def demo_running_def demo_server_def)
  from stop_may_crash_worker [OF this(2) _ this(1)] show ?thesis by simp
qed

lemma update_nonempty: "AList.update k v m \<noteq> []"
  by (cases m) auto

lemma fold_update_nonempty:
  "m \<noteq> [] \<Longrightarrow> fold (\<lambda>u m. AList.update (ui_username u) (ui_password u) m) us m \<noteq> []"
  by (induction us arbitrary: m) (simp_all add: update_nonempty)

lemma load_users_empty:
  "users_m (snd (load_users us SessionManager_default)) = [] \<longleftrightarrow> us = []"
proof (cases us)
  case (Cons a list)
  have "fold (\<lambda>u m. AList.update (ui_username u) (ui_password u) m) list
      [(ui_username a, ui_password a)] \<noteq> []"
    by (rule fold_update_nonempty) simp
  with Cons wf_SessionManager_default show ?thesis by (simp add: load_users_free)
qed (use wf_SessionManager_default in \<open>simp add: load_users_free\<close>)

text \<open>
  Starting: a server made from a configuration file starts its threads and the robot's worker
  exactly when the file names at least one user; a configuration that does not load makes no
  server, with the loader's exception.
\<close>

lemma server_start_decides:
  "case parse_conf LoadFile path of
     Inl e \<Rightarrow> Server_new LoadFile path k = Inl e
   | Inr c \<Rightarrow> (\<exists>s. Server_new LoadFile path k = Inr s \<and>
       (if conf_users c = [] then start s = s \<and> \<not> sv_running s
        else sv_running (start s) \<and> sv_loop (start s) = ThRunning \<and> sv_worker (start s) = RwHead \<and>
          sv_sweeper (start s) = ThRunning \<and>
          map_option worker_thread_m (robot_s (sv (start s))) = Some LoopHead))"
proof (cases "parse_conf LoadFile path")
  case (Inr c)
  let ?m = "snd (load_users (conf_users c) SessionManager_default)"
  have m: "fst (load_users (conf_users c) SessionManager_default) = Inr True" "\<not> mutex_m ?m"
    using wf_SessionManager_default by (simp_all add: load_users_free)
  have n: "(fst (num_users ?m) = Inr 0) = (conf_users c = [])"
    using load_users_empty [of "conf_users c"] m(2) by (simp add: num_users_free)
  show ?thesis
  proof (cases "conf_users c = []")
    case True
    with Inr m(1) n show ?thesis by (simp add: Server_new_def start_def)
  next
    case False
    with Inr m(1) n show ?thesis
      by (simp add: Server_new_def start_def with_robot_def start_session_def Robot_new_def)
  qed
qed (simp add: Server_new_def)

end
