(* ===== verification/Program.thy ===== *)
theory Program
  imports Server
begin

text \<open>
  The entry point, \<^verbatim>\<open>src/main.cpp\<close>: the main thread makes and starts the server, waits
  for a signal on a condition variable, and stops the server. The signal handler sets a flag and
  notifies the variable without taking its mutex. Debug output is left out.
\<close>

section \<open>The main thread\<close>

text \<open>
  Control points: before \<^verbatim>\<open>argc\<close> is tested; in \<^verbatim>\<open>wait\<close>, about to test the
  predicate, having found it false and about to block, or blocked; after the wait, at the three
  steps of \<^verbatim>\<open>stop\<close> and at its joins; at the destruction of the server; returned; ended by
  an exception nobody catches.
\<close>

datatype main_point =
    MainBegin | WaitTest | WaitEnter | WaitBlocked | MainStop | MainStopTasks | MainStopRobot
  | MainJoin | MainDestroy | MainReturned int | MainTerminated string

record Program =
  g_shutdown_requested :: bool
  main_at :: main_point
  server_of :: "Server option"

definition Program_new :: Program where
  "Program_new = \<lparr>g_shutdown_requested = False, main_at = MainBegin, server_of = None\<rparr>"

definition what_of :: "cxx_error \<Rightarrow> string" where
  "what_of e = (case e of Exn what \<Rightarrow> what | Deadlock \<Rightarrow> ''deadlock'' | UB \<Rightarrow> ''undefined'')"

text \<open>From the start of \<^verbatim>\<open>main\<close> to the wait; \<open>argv\<close> has the program's name first.\<close>

definition main_setup :: "string list \<Rightarrow> (string \<Rightarrow> cxx_error + yaml_conf) \<Rightarrow> kernel \<Rightarrow> Program \<Rightarrow> Program"
  where
  "main_setup argv LoadFile k P =
     (if length argv \<noteq> 2 then P\<lparr>main_at := MainTerminated ''Usage: program conf_filepath''\<rparr>
      else if \<not> initialize then P\<lparr>main_at := MainReturned 1\<rparr>
      else (case Server_new LoadFile (argv ! 1) k of
              Inl e \<Rightarrow> P\<lparr>main_at := MainTerminated (what_of e)\<rparr>
            | Inr s \<Rightarrow> P\<lparr>server_of := Some (start s), main_at := WaitTest\<rparr>))"

text \<open>\<^verbatim>\<open>stop\<close> returns at once when the server is not running, otherwise after its joins.\<close>

definition main_step :: "Program \<Rightarrow> Program" where
  "main_step P =
     (case main_at P of
        WaitTest \<Rightarrow>
          if g_shutdown_requested P then P\<lparr>main_at := MainStop\<rparr> else P\<lparr>main_at := WaitEnter\<rparr>
      | WaitEnter \<Rightarrow> P\<lparr>main_at := WaitBlocked\<rparr>
      | MainStop \<Rightarrow>
          (case server_of P of
             None \<Rightarrow> P
           | Some s \<Rightarrow>
               if \<not> sv_running s then P\<lparr>main_at := MainDestroy\<rparr>
               else P\<lparr>server_of := Some (stop_running s), main_at := MainStopTasks\<rparr>)
      | MainStopTasks \<Rightarrow>
          P\<lparr>server_of := map_option stop_tasks (server_of P), main_at := MainStopRobot\<rparr>
      | MainStopRobot \<Rightarrow>
          P\<lparr>server_of := map_option stop_robot (server_of P), main_at := MainJoin\<rparr>
      | MainJoin \<Rightarrow>
          (case server_of P of
             None \<Rightarrow> P
           | Some s \<Rightarrow> if stop_returns s then P\<lparr>main_at := MainDestroy\<rparr> else P)
      | MainDestroy \<Rightarrow>
          (case server_of P of
             None \<Rightarrow> P
           | Some s \<Rightarrow>
               (case Server_destroy s of
                  None \<Rightarrow> P
                | Some s \<Rightarrow> P\<lparr>server_of := Some s, main_at := MainReturned 0\<rparr>))
      | _ \<Rightarrow> P)"

text \<open>\<^verbatim>\<open>notify_all\<close> wakes a thread that is blocked, and no other.\<close>

definition wake :: "Program \<Rightarrow> Program" where
  "wake P = (if main_at P = WaitBlocked then P\<lparr>main_at := WaitTest\<rparr> else P)"

definition signal_handler :: "Program \<Rightarrow> Program" where
  "signal_handler P = wake (P\<lparr>g_shutdown_requested := True\<rparr>)"

definition with_server :: "Server \<Rightarrow> Program \<Rightarrow> Program" where
  "with_server s P = P\<lparr>server_of := Some s\<rparr>"

text \<open>
  The steps of the program: the main thread's, signals, spurious wake-ups, and the steps of the
  server's threads, which do not touch its running flag (only \<^verbatim>\<open>stop\<close> does, and only
  \<^verbatim>\<open>main\<close> calls it).
\<close>

inductive program_step :: "Program \<Rightarrow> Program \<Rightarrow> bool" where
  prog_setup: "main_at P = MainBegin \<Longrightarrow> program_step P (main_setup argv LoadFile k P)"
| prog_main: "program_step P (main_step P)"
| prog_signal: "main_at P \<noteq> MainBegin \<Longrightarrow> program_step P (signal_handler P)"
| prog_spurious: "program_step P (wake P)"
| prog_server: "server_of P = Some s \<Longrightarrow> server_step s t \<Longrightarrow> sv_running t = sv_running s \<Longrightarrow>
    program_step P (with_server t P)"

section \<open>Threads that have ended stay ended\<close>

lemma robot_stays_off:
  "worker_thread_m R = NotStarted \<Longrightarrow> worker_thread_m (worker_loop_step io R) = NotStarted"
  by (simp add: worker_loop_step_def)

lemma with_robot_returns:
  assumes "stop_returns s"
    and "\<And>R. robot_s (sv s) = Some R \<Longrightarrow> worker_thread_m R = NotStarted \<Longrightarrow> worker_thread_m (f R) = NotStarted"
  shows "stop_returns (with_robot f s)"
  using assms by (auto simp: stop_returns_def split: option.splits)

lemma request_returns:
  assumes "stop_returns s" shows "stop_returns (request_step io env msg s)"
proof -
  have "sv_loop s \<noteq> ThRunning" using assms by (auto simp: stop_returns_def)
  then show ?thesis using assms by (simp add: request_step_def)
qed

lemma worker_returns: "stop_returns s \<Longrightarrow> stop_returns (robot_worker_step now b s)"
  by (auto simp: stop_returns_def robot_worker_step_def)

lemma sweeper_returns:
  assumes "stop_returns s" shows "stop_returns (sweeper_step now s)"
proof -
  have "sv_sweeper s \<noteq> ThRunning" using assms by (auto simp: stop_returns_def)
  then show ?thesis using assms by (simp add: sweeper_step_def)
qed

lemma stop_parts_return:
  "stop_returns (stop_running s) = stop_returns s" "stop_returns (stop_tasks s) = stop_returns s"
  "stop_returns (stop_robot s) = stop_returns s"
  by (auto simp: stop_returns_def stop_parts stop_session_signal_def split: option.splits)

lemma returns_stays: "server_step s t \<Longrightarrow> stop_returns s \<Longrightarrow> stop_returns t"
proof (induction rule: server_step.induct)
  case (step_robot io s)
  then show ?case by (intro with_robot_returns robot_stays_off)
next
  case (step_stopped s R R')
  have "worker_thread_m R' = NotStarted"
    using step_stopped(3) by (auto simp: stop_session_finish_def close_connection_def split: if_splits)
  then show ?case using step_stopped(4) by (intro with_robot_returns)
qed (simp_all add: request_returns worker_returns sweeper_returns stop_parts_return)

text \<open>The connection to the controller is closed, and stays closed once the threads have ended.\<close>

definition robot_closed :: "Server \<Rightarrow> bool" where
  "robot_closed s \<longleftrightarrow> (\<forall>R. robot_s (sv s) = Some R \<longrightarrow>
     \<not> running_m R \<and> \<not> connected_m R \<and> socket_fd_m R = INVALID_SOCKET_FD)"

lemma request_robot: "robot_s (sv (request_step io env msg s)) = robot_s (sv s)"
  using loop_effect [of "sv s" io env msg] by (auto simp: request_step_def split: prod.split)

lemma closed_stays:
  assumes "server_step s t" and "stop_returns s" and "robot_closed s"
  shows "robot_closed t"
  using assms(1)
proof (cases rule: server_step.cases)
  case (step_request io env msg)
  with assms(3) show ?thesis by (simp add: robot_closed_def request_robot)
next
  case (step_worker now b)
  with assms(2,3) show ?thesis by (auto simp: robot_closed_def stop_returns_def robot_worker_step_def)
next
  case (step_sweeper now)
  with assms(3) show ?thesis
    by (auto simp: robot_closed_def sweeper_step_def split: prod.split sum.split)
next
  case (step_robot io)
  with assms(2,3) show ?thesis
    by (auto simp: robot_closed_def stop_returns_def worker_loop_step_def split: option.splits)
next
  case (step_stopped R R')
  with assms(3) show ?thesis
    by (auto simp: robot_closed_def stop_session_finish_def split: if_splits)
qed (use assms(3) in \<open>auto simp: robot_closed_def stop_parts stop_session_signal_def\<close>)

section \<open>Invariant\<close>

text \<open>
  A server that is not running before \<^verbatim>\<open>main\<close> stops it was never started.
\<close>

definition program_inv :: "Program \<Rightarrow> bool" where
  "program_inv P \<longleftrightarrow>
     (main_at P \<in> {MainStop, MainStopTasks, MainStopRobot, MainJoin, MainDestroy, MainReturned 0} \<longrightarrow>
        g_shutdown_requested P) \<and>
     (main_at P = MainBegin \<longrightarrow> server_of P = None) \<and>
     (\<forall>s. server_of P = Some s \<longrightarrow>
        (main_at P \<in> {WaitTest, WaitEnter, WaitBlocked, MainStop} \<longrightarrow> sv_running s \<or> stop_returns s) \<and>
        (main_at P \<in> {MainDestroy, MainReturned 0} \<longrightarrow> stop_returns s) \<and>
        (main_at P = MainReturned 0 \<longrightarrow> robot_closed s)) \<and>
     (main_at P = MainReturned 0 \<longrightarrow> server_of P \<noteq> None)"

lemma start_or_returns:
  assumes "Server_new LoadFile path k = Inr s"
  shows "sv_running (start s) \<or> stop_returns (start s)"
proof -
  from assms have "stop_returns s"
    by (auto simp: Server_new_def sum_bind_Inr_iff stop_returns_def Robot_new_def)
  then show ?thesis by (simp add: start_def)
qed

lemma setup_inv: "program_inv P \<Longrightarrow> main_at P = MainBegin \<Longrightarrow> program_inv (main_setup argv LoadFile k P)"
  using start_or_returns
  by (auto simp: program_inv_def main_setup_def initialize_def split: sum.split)

lemma destroy_closes:
  assumes "stop_returns s" and "Server_destroy s = Some t"
  shows "stop_returns t \<and> robot_closed t"
proof -
  have "stop_returns (stop s)" using assms(1) by (simp add: stop_def stop_parts_return)
  with assms(2) show ?thesis
    by (auto simp: Server_destroy_def Robot_destroy_def stop_session_finish_def robot_closed_def
        stop_returns_def stop_session_signal_def Let_def split: option.splits if_splits)
qed

lemma destroy_returns:
  assumes "stop_returns s" shows "\<exists>t. Server_destroy s = Some t"
proof -
  have "stop_returns (stop s)" using assms by (simp add: stop_def stop_parts_return)
  then show ?thesis
    by (auto simp: Server_destroy_def Robot_destroy_def stop_session_finish_def joinable_done_def
        stop_returns_def stop_session_signal_def Let_def split: option.splits)
qed

lemma main_inv: "program_inv P \<Longrightarrow> program_inv (main_step P)"
proof (cases "main_at P = MainDestroy")
  case True
  assume inv: "program_inv P"
  show ?thesis
  proof (cases "\<exists>s t. server_of P = Some s \<and> Server_destroy s = Some t")
    case True
    then obtain s t where st: "server_of P = Some s" "Server_destroy s = Some t" by blast
    with inv \<open>main_at P = MainDestroy\<close> have "stop_returns s" "g_shutdown_requested P"
      by (simp_all add: program_inv_def)
    with destroy_closes [OF _ st(2)] st \<open>main_at P = MainDestroy\<close> show ?thesis
      by (simp add: program_inv_def main_step_def)
  next
    case False
    then have "main_step P = P" using True by (auto simp: main_step_def split: option.splits)
    with inv show ?thesis by simp
  qed
next
  case False
  assume "program_inv P"
  with False show ?thesis
    by (cases "main_at P"; cases "server_of P") (auto simp: program_inv_def main_step_def)
qed

lemma wake_inv: "program_inv P \<Longrightarrow> program_inv (wake P)"
  by (auto simp: program_inv_def wake_def)

lemma signal_inv: "program_inv P \<Longrightarrow> program_inv (signal_handler P)"
  unfolding signal_handler_def by (rule wake_inv) (simp add: program_inv_def)

lemma server_program_inv:
  assumes "program_inv P" and "server_of P = Some s" and "server_step s t"
    and "sv_running t = sv_running s"
  shows "program_inv (with_server t P)"
proof -
  have stays: "sv_running s \<or> stop_returns s \<longrightarrow> sv_running t \<or> stop_returns t"
    "stop_returns s \<longrightarrow> stop_returns t" "stop_returns s \<and> robot_closed s \<longrightarrow> robot_closed t"
    using returns_stays [OF assms(3)] closed_stays [OF assms(3)] by (simp_all add: assms(4))
  with assms(1,2) show ?thesis
    by (cases "main_at P") (auto simp: program_inv_def with_server_def)
qed

interpretation pg: invariant_of "\<lambda>P. P = Program_new" program_step program_inv
proof unfold_locales
  show "P = Program_new \<Longrightarrow> program_inv P" for P by (simp add: program_inv_def Program_new_def)
  show "program_step P Q \<Longrightarrow> program_inv P \<Longrightarrow> program_inv Q" for P Q
    by (induction rule: program_step.induct)
      (simp_all add: setup_inv main_inv signal_inv wake_inv server_program_inv)
qed

section \<open>Properties\<close>

text \<open>
  C19. The program returns 0 only after a signal, and only when every thread it started has ended:
  the request loop, the robot worker and the sweeper have left their functions and the worker of the
  robot has been joined, and the connection to the controller is closed. This holds in every
  reachable state, whatever the threads and signals do.
\<close>

theorem exit_after_threads:
  assumes "reach (\<lambda>P. P = Program_new) program_step P" and "main_at P = MainReturned 0"
  shows "g_shutdown_requested P \<and> (\<exists>s. server_of P = Some s \<and>
    sv_loop s \<in> {ThNotStarted, ThExited} \<and> sv_worker s \<in> {RwNotStarted, RwExited} \<and>
    sv_sweeper s \<in> {ThNotStarted, ThExited} \<and>
    (\<forall>R. robot_s (sv s) = Some R \<longrightarrow> worker_thread_m R = NotStarted \<and> \<not> connected_m R \<and>
       socket_fd_m R = INVALID_SOCKET_FD))"
proof -
  have "program_inv P" using assms(1) by (rule pg.reach_inv)
  with assms(2) obtain s where "server_of P = Some s" "stop_returns s" "g_shutdown_requested P"
    "robot_closed s"
    by (auto simp: program_inv_def)
  then show ?thesis by (simp add: stop_returns_def robot_closed_def split: option.splits)
qed

text \<open>A server stopped right after its start: each thread takes the one step that ends it.\<close>

abbreviation program_reach :: "Program \<Rightarrow> bool" where
  "program_reach \<equiv> reach (\<lambda>P. P = Program_new) program_step"

lemma reach_server:
  assumes "program_reach (with_server s P)" and "server_step s t" and "sv_running t = sv_running s"
  shows "program_reach (with_server t P)"
proof -
  have "program_step (with_server s P) (with_server t (with_server s P))"
    using assms(2,3) by (intro prog_server) (simp_all add: with_server_def)
  moreover have "with_server t (with_server s P) = with_server t P" by (simp add: with_server_def)
  ultimately show ?thesis using assms(1) by (metis reach_step)
qed

lemma threads_end:
  assumes "program_reach (with_server s P)" and "\<not> sv_running s" and "sv_loop s = ThRunning"
    and "sv_worker s = RwHead" and "sv_sweeper s = ThRunning" and "tasker_s (sv s) = T"
    and "unat (m_next_task_counter T) < 2 ^ 64 - 1" and "robot_s (sv s) = Some R"
    and "worker_thread_m R = LoopHead" and "\<not> running_m R" and "io_documented io"
  shows "\<exists>t. program_reach (with_server t P) \<and> stop_returns t"
proof -
  let ?s1 = "request_step mio env None s"
  let ?s2 = "robot_worker_step 0 False ?s1"
  let ?s3 = "sweeper_step 0 ?s2"
  let ?s4 = "with_robot (worker_loop_step io) ?s3"
  let ?R = "R\<lparr>worker_thread_m := Exited\<rparr>"
  let ?R' = "close_connection (?R\<lparr>worker_thread_m := NotStarted\<rparr>)"
  have 1: "?s1 = s\<lparr>sv_loop := ThExited\<rparr>" using assms(2,3) by (simp add: request_step_def)
  have 2: "?s2 = s\<lparr>sv_loop := ThExited, sv_worker := RwExited\<rparr>"
    unfolding 1 using assms(2,4) by (simp add: robot_worker_step_def)
  have 3: "?s3 = s\<lparr>sv_loop := ThExited, sv_worker := RwExited, sv_sweeper := ThExited\<rparr>"
    unfolding 2 using assms(2,5) by (simp add: sweeper_step_def)
  have 4: "?s4 = with_robot (\<lambda>_. ?R) ?s3"
  proof -
    have "worker_loop_step io R = ?R" using assms(9,10) by (simp add: worker_loop_step_def)
    then show ?thesis unfolding 3 using assms(8) by (simp add: with_robot_def)
  qed
  have r1: "program_reach (with_server ?s1 P)"
    by (rule reach_server [OF assms(1) step_request]) (use assms(6,7) in \<open>simp_all add: 1\<close>)
  have r2: "program_reach (with_server ?s2 P)"
    by (rule reach_server [OF r1 step_worker]) (simp only: 2, simp add: 1)
  have r3: "program_reach (with_server ?s3 P)"
    by (rule reach_server [OF r2 step_sweeper]) (simp only: 3, simp add: 2)
  have r4: "program_reach (with_server ?s4 P)"
    by (rule reach_server [OF r3 step_robot [OF assms(11)]]) simp
  have R: "robot_s (sv ?s4) = Some ?R" using assms(8) by (simp only: 4) (simp add: 3)
  have fin: "stop_session_finish ?R = Some ?R'" by (simp add: stop_session_finish_def joinable_done_def)
  have "program_reach (with_server (with_robot (\<lambda>_. ?R') ?s4) P)"
    by (rule reach_server [OF r4 step_stopped [OF R _ fin]]) (use assms(10) in simp_all)
  moreover have "stop_returns (with_robot (\<lambda>_. ?R') ?s4)"
    using assms(8) by (simp only: 4) (simp add: 3 stop_returns_def close_connection_def)
  ultimately show ?thesis by blast
qed

lemma demo_start_shape: "\<exists>m R. demo_start =
    \<lparr>sv = \<lparr>session_manager_s = m, tasker_s = Tasker_default, robot_s = Some R\<rparr>, sv_running = True,
     sv_loop = ThRunning, sv_worker = RwHead, sv_sweeper = ThRunning\<rparr> \<and>
    worker_thread_m R = LoopHead"
proof -
  let ?m = "snd (load_users [\<lparr>ui_username = ''ana'', ui_password = ''pw1''\<rparr>] SessionManager_default)"
  have "fst (num_users ?m) \<noteq> Inr 0"
    using load_users_empty [of "[\<lparr>ui_username = ''ana'', ui_password = ''pw1''\<rparr>]"] wf_SessionManager_default
    by (simp add: num_users_free load_users_free)
  then show ?thesis
    using wf_SessionManager_default
    by (simp add: demo_start_def start_def Server_new_def demo_load_def parse_conf_def demo_yaml_def
        load_users_free with_robot_def start_session_def Robot_new_def)
qed

definition demo_signalled :: Program where
  "demo_signalled =
     (main_step ^^ 4) (signal_handler
       (main_setup [''robert'', ''conf.yaml''] demo_load demo_kernel Program_new))"

lemma demo_signalled_shape:
  "demo_signalled = \<lparr>g_shutdown_requested = True, main_at = MainJoin, server_of = Some (stop demo_start)\<rparr>"
proof -
  obtain s0 where s0: "Server_new demo_load ''conf.yaml'' demo_kernel = Inr s0"
    using wf_SessionManager_default
    by (simp add: Server_new_def demo_load_def parse_conf_def demo_yaml_def load_users_free)
  then have "demo_start = start s0" by (simp add: demo_start_def)
  moreover have "sv_running demo_start"
  proof -
    obtain m R where d: "demo_start =
        \<lparr>sv = \<lparr>session_manager_s = m, tasker_s = Tasker_default, robot_s = Some R\<rparr>, sv_running = True,
         sv_loop = ThRunning, sv_worker = RwHead, sv_sweeper = ThRunning\<rparr>"
      using demo_start_shape by blast
    show ?thesis by (simp add: d)
  qed
  ultimately show ?thesis
    using s0 by (simp add: demo_signalled_def main_setup_def initialize_def signal_handler_def
        wake_def main_step_def Program_new_def stop_def eval_nat_numeral)
qed

lemma demo_signalled_reach: "program_reach demo_signalled"
proof -
  let ?P = "main_setup [''robert'', ''conf.yaml''] demo_load demo_kernel Program_new"
  have "program_reach ?P"
    by (rule reach_step [OF reach_start], rule refl, rule prog_setup) (simp add: Program_new_def)
  moreover have "main_at ?P \<noteq> MainBegin"
    by (simp add: main_setup_def initialize_def split: sum.split)
  moreover have "program_reach ((main_step ^^ n) P)" if "program_reach P" for n P
    using that by (induction n) (auto intro: reach_step prog_main)
  ultimately show ?thesis
    unfolding demo_signalled_def by (blast intro: reach_step prog_signal)
qed

theorem exit_after_threads_witness:
  "\<exists>P s. program_reach P \<and> main_at P = MainReturned 0 \<and> server_of P = Some s \<and>
     sv_loop s \<in> {ThNotStarted, ThExited} \<and> g_shutdown_requested P"
proof -
  obtain m R where d: "demo_start =
    \<lparr>sv = \<lparr>session_manager_s = m, tasker_s = Tasker_default, robot_s = Some R\<rparr>, sv_running = True,
     sv_loop = ThRunning, sv_worker = RwHead, sv_sweeper = ThRunning\<rparr>"
    and R: "worker_thread_m R = LoopHead" using demo_start_shape by blast
  let ?s = "stop demo_start" and ?R = "stop_session_signal R"
  have s: "\<not> sv_running ?s" "sv_loop ?s = ThRunning" "sv_worker ?s = RwHead" "sv_sweeper ?s = ThRunning"
    "robot_s (sv ?s) = Some ?R" "tasker_s (sv ?s) = stop_tasker Tasker_default"
    by (simp_all add: stop_def stop_parts d)
  have r: "worker_thread_m ?R = LoopHead" "\<not> running_m ?R"
    "unat (m_next_task_counter (stop_tasker Tasker_default)) < 2 ^ 64 - 1"
    using R by (simp_all add: stop_session_signal_def stop_tasker_def Tasker_default_def)
  have io: "io_documented (demo_io\<lparr>io_recv := (\<lambda>n. None)\<rparr>)" by (simp add: io_documented_def demo_io_def)
  have "demo_signalled = with_server ?s demo_signalled"
    by (simp add: demo_signalled_shape with_server_def)
  then have "program_reach (with_server ?s demo_signalled)" using demo_signalled_reach by simp
  from threads_end [OF this s(1-4,6) r(3) s(5) r(1,2) io] obtain t where
    t: "program_reach (with_server t demo_signalled)" "stop_returns t" by blast
  let ?Q = "main_step (with_server t demo_signalled)"
  have Q: "program_reach ?Q" "?Q = \<lparr>g_shutdown_requested = True, main_at = MainDestroy, server_of = Some t\<rparr>"
    using t reach_step [OF t(1) prog_main] by (simp_all add: main_step_def with_server_def demo_signalled_shape)
  obtain u where "Server_destroy t = Some u" using destroy_returns [OF t(2)] by blast
  then have "main_at (main_step ?Q) = MainReturned 0" unfolding Q(2) by (simp add: main_step_def)
  moreover have "program_reach (main_step ?Q)" by (rule reach_step [OF Q(1) prog_main])
  ultimately have P: "program_reach (main_step ?Q)" "main_at (main_step ?Q) = MainReturned 0" by blast+
  from exit_after_threads [OF P] P show ?thesis by blast
qed

text \<open>What may happen while no further signal and no spurious wake-up comes.\<close>

inductive quiet_step :: "Program \<Rightarrow> Program \<Rightarrow> bool" where
  quiet_main: "quiet_step P (main_step P)"
| quiet_server: "server_of P = Some s \<Longrightarrow> server_step s t \<Longrightarrow> sv_running t = sv_running s \<Longrightarrow>
    quiet_step P (with_server t P)"

lemma blocked_stays: "quiet_step\<^sup>*\<^sup>* P Q \<Longrightarrow> main_at P = WaitBlocked \<Longrightarrow> main_at Q = WaitBlocked"
proof (induction rule: rtranclp_induct)
  case (step Q S)
  then show ?case by (auto elim!: quiet_step.cases simp: main_step_def with_server_def)
qed simp

text \<open>
  C23. A lost signal: the handler notifies without holding the mutex, so a signal that comes between
  the main thread's test of the flag and its blocking wakes nobody: the main thread blocks although
  the flag is set, and stays blocked whatever the other threads do until another signal or a
  spurious wake-up comes. A signal that comes one step later makes the main thread stop the server.
\<close>

theorem signal_can_be_lost:
  assumes "main_at P = WaitEnter" and "quiet_step\<^sup>*\<^sup>* (main_step (signal_handler P)) Q"
  shows "main_at Q = WaitBlocked \<and> g_shutdown_requested (main_step (signal_handler P)) \<and>
    main_at (main_step (signal_handler (main_step P))) = MainStop \<and>
    main_at (main_step (signal_handler Q)) = MainStop"
proof -
  have 1: "main_step (signal_handler P) = P\<lparr>g_shutdown_requested := True, main_at := WaitBlocked\<rparr>"
    using assms(1) by (simp add: signal_handler_def wake_def main_step_def)
  then have "main_at Q = WaitBlocked" using blocked_stays [OF assms(2)] by simp
  moreover from this have "main_at (main_step (signal_handler Q)) = MainStop"
    by (simp add: signal_handler_def wake_def main_step_def)
  moreover have "main_at (main_step (signal_handler (main_step P))) = MainStop"
    using assms(1) by (simp add: signal_handler_def wake_def main_step_def)
  ultimately show ?thesis by (simp add: 1)
qed

theorem signal_can_be_lost_witness:
  "main_at (main_step (main_step (main_step (signal_handler (main_step
     (main_setup [''robert'', ''conf.yaml''] demo_load demo_kernel Program_new)))))) = WaitBlocked"
proof -
  let ?S = "main_setup [''robert'', ''conf.yaml''] demo_load demo_kernel Program_new"
  let ?P = "main_step ?S"
  obtain s0 where "Server_new demo_load ''conf.yaml'' demo_kernel = Inr s0"
    using wf_SessionManager_default
    by (simp add: Server_new_def demo_load_def parse_conf_def demo_yaml_def load_users_free)
  then have "main_at ?S = WaitTest" "\<not> g_shutdown_requested ?S"
    by (simp_all add: main_setup_def initialize_def Program_new_def)
  then have "main_at ?P = WaitEnter" by (simp add: main_step_def)
  moreover have "quiet_step\<^sup>*\<^sup>* (main_step (signal_handler ?P))
      (main_step (main_step (main_step (signal_handler ?P))))"
    by (rule converse_rtranclp_into_rtranclp [OF quiet_main r_into_rtranclp [of quiet_step, OF quiet_main]])
  ultimately show ?thesis by (rule signal_can_be_lost [THEN conjunct1])
qed

end
