(* ===== verification/Rapid.thy ===== *)
theory Rapid
  imports Decoder
begin

text \<open>
  The peer of the wire protocol, the controller program in
  \<^verbatim>\<open>robert-rapid\<close>: parsing of requests (\<^verbatim>\<open>ParsingModule.mod\<close>), the
  tables of \<^verbatim>\<open>ValueModule.mod\<close>, and packing of the status
  (\<^verbatim>\<open>TelemetryModule.mod\<close>). A robtarget or jointtarget of RAPID has the same parts as
  the packed structs, whose records it shares; a number read as \<^verbatim>\<open>Float4\<close> is its bit
  pattern. Positions in raw bytes count from 1, multi-byte values are little-endian. The four
  configuration numbers, which the controller holds as its numeric type, are the words read: this is
  so as long as they are in the range that type represents exactly (\<open>exact_conf\<close>), far beyond any
  axis quadrant; what the controller makes of numbers beyond it is not modelled.
\<close>

section \<open>Tables\<close>

datatype zonedata = RZ_fine | RZ_z0 | RZ_z1 | RZ_z5 | RZ_z10 | RZ_z15 | RZ_z20 | RZ_z30

text \<open>\<open>None\<close>: the function ends without a \<^verbatim>\<open>RETURN\<close>, an execution error.\<close>

definition value_to_zone :: "nat \<Rightarrow> zonedata option" where
  "value_to_zone z =
     (if z = 0 then Some RZ_fine else
      if z = 1 then Some RZ_z0 else
      if z = 2 then Some RZ_z1 else
      if z = 3 then Some RZ_z5 else
      if z = 4 then Some RZ_z10 else
      if z = 5 then Some RZ_z15 else
      if z = 6 then Some RZ_z20 else
      if z = 7 then Some RZ_z30 else None)"

fun zone_to_value :: "zonedata \<Rightarrow> nat" where
  "zone_to_value RZ_fine = 0"
| "zone_to_value RZ_z0 = 1"
| "zone_to_value RZ_z1 = 2"
| "zone_to_value RZ_z5 = 3"
| "zone_to_value RZ_z10 = 4"
| "zone_to_value RZ_z15 = 5"
| "zone_to_value RZ_z20 = 6"
| "zone_to_value RZ_z30 = 7"

definition command_to_string :: "nat \<Rightarrow> string" where
  "command_to_string cmd =
     (if cmd = 0x00 then ''MoveL'' else
      if cmd = 0x01 then ''MoveJ'' else
      if cmd = 0x02 then ''MoveC'' else
      if cmd = 0x03 then ''MoveAbsJ'' else
      if cmd = 0x04 then ''SetSpeed'' else
      if cmd = 0x05 then ''SetZone'' else
      if cmd = 0x06 then ''Exit'' else
      if cmd = 0x07 then ''PING'' else
      if cmd = 0x08 then ''PINGR'' else
      if cmd = 0x09 then ''ZERO'' else
      if cmd = 0x0A then ''GETSTATUS'' else
      if cmd = 0x10 then ''MoveLOffs'' else
      if cmd = 0x11 then ''MoveJOffs'' else ''UNKNOWN'')"

definition is_move_command :: "string \<Rightarrow> bool" where
  "is_move_command cmd \<longleftrightarrow>
     cmd \<in> {''MoveJ'', ''MoveAbsJ'', ''MoveC'', ''MoveL'', ''MoveLOffs'', ''MoveJOffs''}"

section \<open>Parsing\<close>

text \<open>The call of \<^verbatim>\<open>ExecuteAction\<close> with the optional arguments that are present.\<close>

record rapid_action =
  action_cmd :: string
  ra_target_coords :: "RapidRobTarget option"
  ra_circular_extra_target :: "RapidRobTarget option"
  ra_joint_target :: "RapidJointTarget option"
  ra_speed :: "nat option"
  ra_zone :: "zonedata option"

definition plain_action :: "string \<Rightarrow> rapid_action" where
  "plain_action cmd =
     \<lparr>action_cmd = cmd, ra_target_coords = None, ra_circular_extra_target = None,
      ra_joint_target = None, ra_speed = None, ra_zone = None\<rparr>"

datatype parse_result = TooShort | RapidError | Execute rapid_action

definition or_error :: "'a option \<Rightarrow> ('a \<Rightarrow> parse_result) \<Rightarrow> parse_result" where
  "or_error v k = (case v of None \<Rightarrow> RapidError | Some a \<Rightarrow> k a)"

definition UnpackRawBytes_USINT :: "byte list \<Rightarrow> nat \<Rightarrow> nat option" where
  "UnpackRawBytes_USINT buf i = map_option unat (read8 buf (i - 1))"

definition UnpackRawBytes_UINT :: "byte list \<Rightarrow> nat \<Rightarrow> nat option" where
  "UnpackRawBytes_UINT buf i = map_option unat (read16 buf (i - 1))"

text \<open>\<open>n\<close> consecutive 4-byte values (floats, \<^verbatim>\<open>DINT\<close> or \<^verbatim>\<open>UDINT\<close>) from position \<open>i\<close>.\<close>

fun UnpackRawBytes_words :: "byte list \<Rightarrow> nat \<Rightarrow> nat \<Rightarrow> u32 list option" where
  "UnpackRawBytes_words buf i 0 = Some []"
| "UnpackRawBytes_words buf i (Suc n) =
     (case read32 buf (i - 1) of
        None \<Rightarrow> None
      | Some w \<Rightarrow> map_option (\<lambda>ws. w # ws) (UnpackRawBytes_words buf (i + 4) n))"

fun position_of_words :: "u32 list \<Rightarrow> RapidPosition" where
  "position_of_words ws = \<lparr>pos_x = ws ! 0, pos_y = ws ! 1, pos_z = ws ! 2\<rparr>"

fun orientation_of_words :: "u32 list \<Rightarrow> RapidOrientation" where
  "orientation_of_words ws = \<lparr>ori_q1 = ws ! 0, ori_q2 = ws ! 1, ori_q3 = ws ! 2, ori_q4 = ws ! 3\<rparr>"

fun conf_of_words :: "u32 list \<Rightarrow> RapidConfData" where
  "conf_of_words ws = \<lparr>cf1 = ws ! 0, cf4 = ws ! 1, cf6 = ws ! 2, cfx = ws ! 3\<rparr>"

fun joint_of_words :: "u32 list \<Rightarrow> RapidRobJoint" where
  "joint_of_words ws =
     \<lparr>rj1 = ws ! 0, rj2 = ws ! 1, rj3 = ws ! 2, rj4 = ws ! 3, rj5 = ws ! 4, rj6 = ws ! 5\<rparr>"

text \<open>A robtarget at position \<open>i\<close>: position, orientation, configuration, external axes, 17 values.\<close>

definition unpack_robtarget :: "byte list \<Rightarrow> nat \<Rightarrow> RapidRobTarget option" where
  "unpack_robtarget buf i =
     map_option (\<lambda>ws.
       \<lparr>rt_position = position_of_words ws, rt_orientation = orientation_of_words (drop 3 ws),
        rt_config_data = conf_of_words (drop 7 ws), rt_ext_joint = joint_of_words (drop 11 ws)\<rparr>)
       (UnpackRawBytes_words buf i 17)"

definition unpack_jointtarget :: "byte list \<Rightarrow> nat \<Rightarrow> RapidJointTarget option" where
  "unpack_jointtarget buf i =
     map_option (\<lambda>ws.
       \<lparr>rjt_joints = joint_of_words ws, rjt_ext_joints = joint_of_words (drop 6 ws)\<rparr>)
       (UnpackRawBytes_words buf i 12)"

definition parse_message :: "byte list \<Rightarrow> parse_result" where
  "parse_message raw =
     (if length raw < 4 then TooShort else
      or_error (UnpackRawBytes_USINT raw 1) (\<lambda>cid.
      let command_str = command_to_string cid; action = plain_action command_str in
      if command_str = ''GETSTATUS'' then Execute action
      else if command_str = ''SetZone'' then
        or_error (UnpackRawBytes_USINT raw 2) (\<lambda>zone_id.
        or_error (value_to_zone zone_id) (\<lambda>z. Execute (action\<lparr>ra_zone := Some z\<rparr>)))
      else if command_str = ''SetSpeed'' then
        or_error (UnpackRawBytes_UINT raw 3) (\<lambda>v. Execute (action\<lparr>ra_speed := Some v\<rparr>))
      else if \<not> is_move_command command_str then Execute action
      else or_error (unpack_robtarget raw 5) (\<lambda>parsed_target.
      if command_str \<in> {''MoveJ'', ''MoveL'', ''MoveLOffs'', ''MoveJOffs''}
      then Execute (action\<lparr>ra_target_coords := Some parsed_target\<rparr>)
      else or_error (unpack_robtarget raw 73) (\<lambda>parsed_target2.
      if command_str = ''MoveC''
      then Execute (action\<lparr>ra_target_coords := Some parsed_target,
             ra_circular_extra_target := Some parsed_target2\<rparr>)
      else or_error (unpack_jointtarget raw 141) (\<lambda>parsed_joint_target.
      Execute (action\<lparr>ra_joint_target := Some parsed_joint_target\<rparr>))))))"

section \<open>Reading back packed words\<close>

definition pack_words :: "u32 list \<Rightarrow> byte list" where
  "pack_words ws = concat (map le32 ws)"

lemma pack_words_simps [simp]:
  "pack_words [] = []" "pack_words (w # ws) = le32 w @ pack_words ws"
  "pack_words (us @ vs) = pack_words us @ pack_words vs"
  by (simp_all add: pack_words_def)

lemma length_pack_words [simp]: "length (pack_words ws) = 4 * length ws"
  by (induction ws) simp_all

lemma unpack_words_at:
  "length pre = i - 1 \<Longrightarrow> 0 < i \<Longrightarrow>
     UnpackRawBytes_words (pre @ pack_words ws @ post) i (length ws) = Some ws"
proof (induction ws arbitrary: pre i)
  case (Cons w ws)
  have r: "read32 (pre @ le32 w @ pack_words ws @ post) (i - 1) = Some w"
    unfolding Cons.prems(1) [symmetric] by (rule c32.read_back)
  have "UnpackRawBytes_words ((pre @ le32 w) @ pack_words ws @ post) (i + 4) (length ws) = Some ws"
    using Cons.prems by (intro Cons.IH) simp_all
  with r show ?case by simp
qed simp

definition target_words :: "RapidRobTarget \<Rightarrow> u32 list" where
  "target_words t =
     (let p = rt_position t; q = rt_orientation t; c = rt_config_data t; j = rt_ext_joint t in
      [pos_x p, pos_y p, pos_z p, ori_q1 q, ori_q2 q, ori_q3 q, ori_q4 q,
       cf1 c, cf4 c, cf6 c, cfx c, rj1 j, rj2 j, rj3 j, rj4 j, rj5 j, rj6 j])"

definition joint_words :: "RapidJointTarget \<Rightarrow> u32 list" where
  "joint_words t =
     (let j = rjt_joints t; e = rjt_ext_joints t in
      [rj1 j, rj2 j, rj3 j, rj4 j, rj5 j, rj6 j, rj1 e, rj2 e, rj3 e, rj4 e, rj5 e, rj6 e])"

lemma length_words [simp]: "length (target_words t) = 17" "length (joint_words j) = 12"
  by (simp_all add: target_words_def joint_words_def Let_def)

lemma bytes_target_words: "bytes_RapidRobTarget t = pack_words (target_words t)"
  by (simp add: bytes_RapidRobTarget_def data_bytes_defs target_words_def Let_def)

lemma bytes_joint_words: "bytes_RapidJointTarget t = pack_words (joint_words t)"
  by (simp add: bytes_RapidJointTarget_def data_bytes_defs joint_words_def Let_def)

lemma unpack_robtarget_at:
  "length pre = i - 1 \<Longrightarrow> 0 < i \<Longrightarrow> unpack_robtarget (pre @ bytes_RapidRobTarget t @ post) i = Some t"
  using unpack_words_at [of pre i "target_words t" post]
  by (simp add: unpack_robtarget_def bytes_target_words)
    (simp add: target_words_def Let_def)

lemma unpack_jointtarget_at:
  "length pre = i - 1 \<Longrightarrow> 0 < i \<Longrightarrow>
     unpack_jointtarget (pre @ bytes_RapidJointTarget t @ post) i = Some t"
  using unpack_words_at [of pre i "joint_words t" post]
  by (simp add: unpack_jointtarget_def bytes_joint_words)
    (simp add: joint_words_def Let_def)

text \<open>The fields of a packed request, at the positions where the controller looks for them.\<close>

lemma request_fields:
  "UnpackRawBytes_USINT (bytes_RapidRequest r) 1 = Some (unat (command_id r))"
  "UnpackRawBytes_USINT (bytes_RapidRequest r) 2 = Some (unat (rq_zone r))"
  "UnpackRawBytes_UINT (bytes_RapidRequest r) 3 = Some (unat (rq_speed r))"
  "unpack_robtarget (bytes_RapidRequest r) 5 = Some (rq_target r)"
  "unpack_robtarget (bytes_RapidRequest r) 73 = Some (rq_extra_target r)"
  "unpack_jointtarget (bytes_RapidRequest r) 141 = Some (rq_joint_target r)"
proof -
  let ?c = "le8 (command_id r)" and ?z = "le8 (rq_zone r)" and ?s = "le16 (rq_speed r)"
  let ?t = "bytes_RapidRobTarget (rq_target r)" and ?e = "bytes_RapidRobTarget (rq_extra_target r)"
  let ?j = "bytes_RapidJointTarget (rq_joint_target r)"
  have b: "bytes_RapidRequest r = ?c @ ?z @ ?s @ ?t @ ?e @ ?j"
    by (simp add: bytes_RapidRequest_def)
  have "read8 ([] @ ?c @ (?z @ ?s @ ?t @ ?e @ ?j)) (length ([] :: byte list)) = Some (command_id r)"
    by (rule c8.read_back)
  then show "UnpackRawBytes_USINT (bytes_RapidRequest r) 1 = Some (unat (command_id r))"
    by (simp add: UnpackRawBytes_USINT_def b)
  have "read8 (?c @ ?z @ (?s @ ?t @ ?e @ ?j)) (length ?c) = Some (rq_zone r)"
    by (rule c8.read_back)
  then show "UnpackRawBytes_USINT (bytes_RapidRequest r) 2 = Some (unat (rq_zone r))"
    by (simp add: UnpackRawBytes_USINT_def b)
  have "read16 ((?c @ ?z) @ ?s @ (?t @ ?e @ ?j)) (length (?c @ ?z)) = Some (rq_speed r)"
    by (rule c16.read_back)
  then show "UnpackRawBytes_UINT (bytes_RapidRequest r) 3 = Some (unat (rq_speed r))"
    by (simp add: UnpackRawBytes_UINT_def b numeral_2_eq_2)
  show "unpack_robtarget (bytes_RapidRequest r) 5 = Some (rq_target r)"
    using unpack_robtarget_at [of "?c @ ?z @ ?s" 5 "rq_target r" "?e @ ?j"] by (simp add: b)
  show "unpack_robtarget (bytes_RapidRequest r) 73 = Some (rq_extra_target r)"
    using unpack_robtarget_at [of "?c @ ?z @ ?s @ ?t" 73 "rq_extra_target r" ?j] by (simp add: b)
  show "unpack_jointtarget (bytes_RapidRequest r) 141 = Some (rq_joint_target r)"
    using unpack_jointtarget_at [of "?c @ ?z @ ?s @ ?t @ ?e" 141 "rq_joint_target r" "[]"]
    by (simp add: b)
qed

section \<open>Status packet\<close>

text \<open>
  \<^verbatim>\<open>PackRawBytes\<close> writes at a position of a cleared buffer; the length of the raw bytes
  is the last position written, and what lies before it and was not written is zero.
\<close>

definition PackRawBytes :: "byte list \<Rightarrow> nat \<Rightarrow> byte list \<Rightarrow> byte list" where
  "PackRawBytes buf i bs =
     take (i - 1) (buf @ replicate (i - 1 - length buf) 0) @ bs @ drop (i - 1 + length bs) buf"

fun PackRawBytes_words :: "byte list \<Rightarrow> nat \<Rightarrow> u32 list \<Rightarrow> byte list" where
  "PackRawBytes_words buf i [] = buf"
| "PackRawBytes_words buf i (w # ws) = PackRawBytes_words (PackRawBytes buf i (le32 w)) (i + 4) ws"

text \<open>The bit pattern of the small numbers \<open>zone_to_value\<close> gives, as \<^verbatim>\<open>Float4\<close>.\<close>

definition float4_of_small :: "nat \<Rightarrow> float32" where
  "float4_of_small n =
     [0, 0x3F800000, 0x40000000, 0x40400000, 0x40800000, 0x40A00000, 0x40C00000, 0x40E00000] ! n"

text \<open>What the controller's functions and variables supply.\<close>

record controller_state =
  cs_target :: RapidRobTarget
  cs_joints :: RapidJointTarget
  cs_speed_override :: float32
  cs_move_speed :: float32
  cs_move_zone :: zonedata
  cs_time :: string
  cs_date :: string

text \<open>The whole packet, in the order of the calls: 32 words from position 2, then the two strings.\<close>

definition HandleGetState :: "controller_state \<Rightarrow> byte list" where
  "HandleGetState cs =
     (let buf = PackRawBytes [] 1 (le8 0);
          buf = PackRawBytes_words buf 2
            ([cs_speed_override cs, cs_move_speed cs, float4_of_small (zone_to_value (cs_move_zone cs))] @
             target_words (cs_target cs) @ joint_words (cs_joints cs));
          buf = PackRawBytes buf 130 (bytes_of_string (cs_time cs))
      in PackRawBytes buf 162 (bytes_of_string (cs_date cs)))"

lemma pack_at_end: "length buf = i - 1 \<Longrightarrow> PackRawBytes buf i bs = buf @ bs"
  by (simp add: PackRawBytes_def)

lemma pack_words_at_end:
  "length buf = i - 1 \<Longrightarrow> 0 < i \<Longrightarrow> PackRawBytes_words buf i ws = buf @ pack_words ws"
  by (induction ws arbitrary: buf i) (simp_all add: pack_at_end)

lemma status_layout:
  assumes "length (cs_time cs) = 8"
  shows "HandleGetState cs =
    le8 0 @ pack_words
      ([cs_speed_override cs, cs_move_speed cs, float4_of_small (zone_to_value (cs_move_zone cs))] @
       target_words (cs_target cs) @ joint_words (cs_joints cs)) @
    bytes_of_string (cs_time cs) @ replicate 24 0 @ bytes_of_string (cs_date cs)"
proof -
  let ?ws = "[cs_speed_override cs, cs_move_speed cs, float4_of_small (zone_to_value (cs_move_zone cs))] @
       target_words (cs_target cs) @ joint_words (cs_joints cs)"
  have 1: "PackRawBytes [] 1 (le8 0) = le8 0" by (simp add: pack_at_end)
  have 2: "PackRawBytes_words (le8 0) 2 ?ws = le8 0 @ pack_words ?ws"
    by (rule pack_words_at_end) simp_all
  have 3: "PackRawBytes (le8 0 @ pack_words ?ws) 130 (bytes_of_string (cs_time cs)) =
      (le8 0 @ pack_words ?ws) @ bytes_of_string (cs_time cs)"
    by (rule pack_at_end) simp
  have 4: "PackRawBytes (le8 0 @ pack_words ?ws @ bytes_of_string (cs_time cs)) 162 bs =
      (le8 0 @ pack_words ?ws @ bytes_of_string (cs_time cs)) @ replicate 24 0 @ bs" for bs
    using assms by (simp add: PackRawBytes_def)
  show ?thesis
    unfolding HandleGetState_def Let_def 1 2 3 append_assoc 4 ..
qed

lemma zone_float: "f32_to_enum (float4_of_small (zone_to_value z)) = Inr (int (zone_to_value z))"
  by (cases z)
    (simp_all add: float4_of_small_def f32_to_enum_def f32_trunc_def f32_exp_def f32_sig_def
      f32_magnitude_def f32_negative_def Let_def drop_bit_eq_div unat_div)

section \<open>Properties\<close>

text \<open>The action that a complete client request means on the controller.\<close>

definition expected_action :: "DecodedRequest \<Rightarrow> rapid_action" where
  "expected_action d =
     (case cmd_type d of
        MOVE_L \<Rightarrow> (plain_action ''MoveL'')\<lparr>ra_target_coords := Some (robtarget_to_rapid (the (target d)))\<rparr>
      | MOVE_J \<Rightarrow> (plain_action ''MoveJ'')\<lparr>ra_target_coords := Some (robtarget_to_rapid (the (target d)))\<rparr>
      | MOVE_L_OFFS \<Rightarrow> (plain_action ''MoveLOffs'')
          \<lparr>ra_target_coords := Some (robtarget_to_rapid (the (target d)))\<rparr>
      | MOVE_J_OFFS \<Rightarrow> (plain_action ''MoveJOffs'')
          \<lparr>ra_target_coords := Some (robtarget_to_rapid (the (target d)))\<rparr>
      | MOVE_C \<Rightarrow> (plain_action ''MoveC'')
          \<lparr>ra_target_coords := Some (robtarget_to_rapid (the (target d))),
           ra_circular_extra_target := Some (robtarget_to_rapid (the (extra_target d)))\<rparr>
      | MOVE_ABS_J \<Rightarrow> (plain_action ''MoveAbsJ'')
          \<lparr>ra_joint_target := Some (jointtarget_to_rapid (the (joint_target d)))\<rparr>
      | SET_SPEED \<Rightarrow> (plain_action ''SetSpeed'')\<lparr>ra_speed := Some (unat (projr (f32_to_u16 (speed d))))\<rparr>
      | SET_ZONE \<Rightarrow> (plain_action ''SetZone'')\<lparr>ra_zone := value_to_zone (unat (zone_code (zone d)))\<rparr>
      | EXIT \<Rightarrow> plain_action ''Exit'' | PING \<Rightarrow> plain_action ''PING''
      | PINGR \<Rightarrow> plain_action ''PINGR'' | ZERO \<Rightarrow> plain_action ''ZERO''
      | GETSTATUS \<Rightarrow> plain_action ''GETSTATUS'' | _ \<Rightarrow> plain_action ''UNKNOWN'')"

lemma zone_byte: "unat (ucast (zone_code z) :: byte) = unat (zone_code z)"
  by (cases z) simp_all

lemma parse_request:
  "complete_request d \<Longrightarrow>
     parse_message (bytes_RapidRequest (request_spec d)) = Execute (expected_action d)"
  by (cases "cmd_type d"; cases "zone d")
    (simp_all add: parse_message_def request_fields [unfolded One_nat_def] or_error_def request_spec_def expected_action_def
      command_to_string_def is_move_command_def uses_target_def zone_byte value_to_zone_def
      plain_action_def Let_def)

text \<open>
  The whole numbers RAPID's \<^verbatim>\<open>num\<close> represents exactly, and configuration data made of
  them: three numbers read as signed and one as unsigned.
\<close>

definition num_exact :: "int \<Rightarrow> bool" where
  "num_exact z \<longleftrightarrow> - 8388607 \<le> z \<and> z \<le> 8388608"

definition exact_conf :: "RapidConfData \<Rightarrow> bool" where
  "exact_conf c \<longleftrightarrow>
     num_exact (sint (cf1 c)) \<and> num_exact (sint (cf4 c)) \<and> num_exact (sint (cf6 c)) \<and>
     num_exact (uint (cfx c))"

text \<open>
  C16. End to end over the wire: the bytes the middleware sends for a complete request of any
  command, whose configuration numbers are among those RAPID represents exactly, are parsed by the
  controller program as that command with exactly the target, second target, joints or speed the
  client gave, and every configuration number read is one of the exact ones. (The zone goes through
  the controller's own table, see the next property; commands the controller does not know arrive as
  \<open>UNKNOWN\<close>.)
\<close>

theorem controller_parses_request:
  assumes "complete_request d" and "create_rapid_request d = Inr r"
    and "\<And>t. target d = Some t \<or> extra_target d = Some t \<Longrightarrow>
      exact_conf (rt_config_data (robtarget_to_rapid t))"
  shows "\<exists>a. parse_message (bytes_RapidRequest r) = Execute a \<and> a = expected_action d \<and>
    (\<forall>t. ra_target_coords a = Some t \<or> ra_circular_extra_target a = Some t \<longrightarrow>
      exact_conf (rt_config_data t))"
proof -
  have "parse_message (bytes_RapidRequest r) = Execute (expected_action d)"
    using parse_request [OF assms(1)] create_rapid_request_complete [OF assms(1)] assms(2) by simp
  moreover have "exact_conf (rt_config_data t)"
    if "ra_target_coords (expected_action d) = Some t \<or>
      ra_circular_extra_target (expected_action d) = Some t" for t
  proof -
    from that assms(1) have "t = robtarget_to_rapid (the (target d)) \<and> target d \<noteq> None \<or>
        t = robtarget_to_rapid (the (extra_target d)) \<and> extra_target d \<noteq> None"
      by (cases "cmd_type d")
        (auto simp: expected_action_def plain_action_def complete_request_def uses_target_def)
    then obtain u where "target d = Some u \<or> extra_target d = Some u" "t = robtarget_to_rapid u" by force
    then show ?thesis using assms(3) by blast
  qed
  ultimately show ?thesis by blast
qed

definition demo_near :: DecodedRequest where
  "demo_near = DecodedRequest_default\<lparr>cmd_type := MOVE_J, target := Some RobTargetBridge_default\<rparr>"

theorem controller_parses_request_witness:
  "parse_message (bytes_RapidRequest (request_spec demo_decoded)) =
     Execute ((plain_action ''SetZone'')\<lparr>ra_zone := Some RZ_z5\<rparr>) \<and>
   (\<exists>a t. parse_message (bytes_RapidRequest (request_spec demo_near)) = Execute a \<and>
     ra_target_coords a = Some t \<and> exact_conf (rt_config_data t))"
proof -
  have c: "complete_request demo_decoded" "complete_request demo_near"
    by (simp_all add: demo_decoded_def demo_near_def complete_request_def uses_target_def)
  have "exact_conf (rt_config_data (robtarget_to_rapid t))"
    if "target demo_near = Some t \<or> extra_target demo_near = Some t" for t
    using that by (auto simp: demo_near_def DecodedRequest_default_def robtarget_to_rapid_def
        RobTargetBridge_default_def exact_conf_def num_exact_def config_to_rapid_def
        RobConfigData_default_def cast_u32_def)
  from controller_parses_request [OF c(2) create_rapid_request_complete [OF c(2)] this]
    controller_parses_request [OF c(1) create_rapid_request_complete [OF c(1)]]
  show ?thesis
    by (auto simp: expected_action_def demo_decoded_def demo_near_def value_to_zone_def plain_action_def
        DecodedRequest_default_def)
qed

text \<open>The zone a client names, by the controller's name for it.\<close>

fun zone_named :: "RapidZone \<Rightarrow> zonedata" where
  "zone_named FINE = RZ_fine"
| "zone_named Z1 = RZ_z1"
| "zone_named Z5 = RZ_z5"
| "zone_named Z10 = RZ_z10"
| "zone_named Z15 = RZ_z15"
| "zone_named Z20 = RZ_z20"
| "zone_named Z30 = RZ_z30"

text \<open>
  The two zone tables disagree: a client's zone arrives as the next finer one of the
  controller's table (which has \<open>z0\<close> as well), so only \<open>FINE\<close> means the same on both sides and no
  request selects \<open>z30\<close>.
\<close>

lemma zone_tables_disagree:
  assumes "cmd_type d = SET_ZONE" and "parse_message (bytes_RapidRequest (request_spec d)) = Execute a"
  shows "(ra_zone a = Some (zone_named (zone d)) \<longleftrightarrow> zone d = FINE) \<and> ra_zone a \<noteq> Some RZ_z30 \<and>
    map_option zone_to_value (ra_zone a) = Some (unat (zone_code (zone d)))"
proof -
  have "complete_request d" using assms(1) by (simp add: complete_request_def uses_target_def)
  with assms(2) have "a = expected_action d" by (simp add: parse_request)
  with assms(1) show ?thesis
    by (cases "zone d") (simp_all add: expected_action_def value_to_zone_def)
qed

lemma zone_tables_disagree_witness:
  "ra_zone (expected_action demo_decoded) \<noteq> Some RZ_z10"
proof -
  have c: "cmd_type demo_decoded = SET_ZONE" "complete_request demo_decoded"
    by (simp_all add: demo_decoded_def complete_request_def uses_target_def)
  from zone_tables_disagree [OF c(1) parse_request [OF c(2)]] show ?thesis
    by (simp add: demo_decoded_def)
qed

text \<open>The client's view of the two targets of a status.\<close>

definition pb_robtarget :: "RapidRobTarget \<Rightarrow> PbRobTarget" where
  "pb_robtarget t =
     (let p = rt_position t; q = rt_orientation t; c = rt_config_data t; j = rt_ext_joint t in
      \<lparr>trans = \<lparr>pb_x = pos_x p, pb_y = pos_y p, pb_z = pos_z p\<rparr>,
       rot = \<lparr>pb_q1 = ori_q1 q, pb_q2 = ori_q2 q, pb_q3 = ori_q3 q, pb_q4 = ori_q4 q\<rparr>,
       robconf = \<lparr>pb_cf1 = cf1 c, pb_cf4 = cf4 c, pb_cf6 = cf6 c, pb_cfx = cfx c\<rparr>,
       extax = \<lparr>eax_a = rj1 j, eax_b = rj2 j, eax_c = rj3 j, eax_d = rj4 j, eax_e = rj5 j,
                eax_f = rj6 j\<rparr>\<rparr>)"

definition pb_jointtarget :: "RapidJointTarget \<Rightarrow> PbJointTarget" where
  "pb_jointtarget t =
     (let j = rjt_joints t; e = rjt_ext_joints t in
      \<lparr>robjoint = \<lparr>rax_1 = rj1 j, rax_2 = rj2 j, rax_3 = rj3 j, rax_4 = rj4 j, rax_5 = rj5 j,
                   rax_6 = rj6 j\<rparr>,
       extjoint = \<lparr>eax_a = rj1 e, eax_b = rj2 e, eax_c = rj3 e, eax_d = rj4 e, eax_e = rj5 e,
                   eax_f = rj6 e\<rparr>\<rparr>)"

lemma word_at:
  assumes "i < length ws"
  shows "read_from_buffer_32 (le8 b @ pack_words ws @ post) (1 + 4 * i) = Inr (ws ! i)"
proof -
  have split: "pack_words ws = pack_words (take i ws) @ le32 (ws ! i) @ pack_words (drop (Suc i) ws)"
    using assms id_take_nth_drop [OF assms] by (metis pack_words_simps(2,3))
  have "read32 ((le8 b @ pack_words (take i ws)) @ le32 (ws ! i) @ (pack_words (drop (Suc i) ws) @ post))
      (length (le8 b @ pack_words (take i ws))) = Some (ws ! i)"
    by (rule c32.read_back)
  then show ?thesis using assms by (subst split) (simp add: read_from_buffer_32_def)
qed

lemma word_at_offset:
  "off mod 4 = 1 \<Longrightarrow> off div 4 < length ws \<Longrightarrow>
     read_from_buffer_32 (le8 b @ pack_words ws @ post) off = Inr (ws ! (off div 4))"
  using word_at [of "off div 4" ws b post] div_mult_mod_eq [of off 4] by (simp add: mult.commute)

lemma status_unpacks:
  assumes "length (cs_time cs) = 8" and "length (cs_date cs) = 10"
  shows "length (HandleGetState cs) = 171 \<and>
    unpack_robot_status (HandleGetState cs) = Inr (Some
      \<lparr>op_mode = 0, speed_override = cs_speed_override cs, current_speed = cs_move_speed cs,
       current_zone = int (zone_to_value (cs_move_zone cs)),
       current_target = pb_robtarget (cs_target cs),
       current_joint_target = pb_jointtarget (cs_joints cs),
       robot_time = cs_time cs, robot_date = cs_date cs\<rparr>)"
proof -
  define ws where "ws =
    [cs_speed_override cs, cs_move_speed cs, float4_of_small (zone_to_value (cs_move_zone cs))] @
       target_words (cs_target cs) @ joint_words (cs_joints cs)"
  let ?t = "bytes_of_string (cs_time cs)" and ?d = "bytes_of_string (cs_date cs)"
  let ?raw = "le8 0 @ pack_words ws @ ?t @ replicate 24 0 @ ?d"
  have raw: "HandleGetState cs = ?raw" using status_layout [OF assms(1)] by (simp add: ws_def)
  have n: "length ws = 32" by (simp add: ws_def)
  have len: "length ?raw = 171" using assms by (simp add: n)
  have r32: "read_from_buffer_32 ?raw off = Inr (ws ! (off div 4))" if "off mod 4 = 1" "off < 128" for off
    using that n by (intro word_at_offset) auto
  have r8: "read_from_buffer_u8 ?raw 0 = Inr 0"
    using c8.read_back [of "[]" 0] by (simp add: read_from_buffer_u8_def)
  have time: "read_string ?raw 129 8 = Inr (cs_time cs)"
    using assms(1) n by (simp add: read_string_def read_bytes_def)
  have date: "read_string ?raw 161 10 = Inr (cs_date cs)"
    using assms n by (simp add: read_string_def read_bytes_def)
  have pos: "unpack_position ?raw = Inr (trans (pb_robtarget (cs_target cs)))"
    by (simp add: unpack_position_def r32) (simp add: ws_def target_words_def pb_robtarget_def Let_def)
  have ori: "unpack_orientation ?raw = Inr (rot (pb_robtarget (cs_target cs)))"
    by (simp add: unpack_orientation_def r32) (simp add: ws_def target_words_def pb_robtarget_def Let_def)
  have conf: "unpack_conf ?raw = Inr (robconf (pb_robtarget (cs_target cs)))"
    by (simp add: unpack_conf_def r32) (simp add: ws_def target_words_def pb_robtarget_def Let_def)
  have ext: "unpack_extjoint ?raw 57 = Inr (extax (pb_robtarget (cs_target cs)))"
    by (simp add: unpack_extjoint_def r32) (simp add: ws_def target_words_def pb_robtarget_def Let_def)
  have joint: "unpack_robjoint ?raw = Inr (robjoint (pb_jointtarget (cs_joints cs)))"
    by (simp add: unpack_robjoint_def r32) (simp add: ws_def target_words_def joint_words_def
        pb_jointtarget_def Let_def)
  have ext2: "unpack_extjoint ?raw 105 = Inr (extjoint (pb_jointtarget (cs_joints cs)))"
    by (simp add: unpack_extjoint_def r32) (simp add: ws_def target_words_def joint_words_def
        pb_jointtarget_def Let_def)
  have head: "read_from_buffer_32 ?raw 1 = Inr (cs_speed_override cs)"
    "read_from_buffer_32 ?raw 5 = Inr (cs_move_speed cs)"
    "read_from_buffer_32 ?raw 9 = Inr (float4_of_small (zone_to_value (cs_move_zone cs)))"
    by (simp_all add: r32) (simp_all add: ws_def)
  have "unpack_robot_status ?raw = Inr (Some
      \<lparr>op_mode = 0, speed_override = cs_speed_override cs, current_speed = cs_move_speed cs,
       current_zone = int (zone_to_value (cs_move_zone cs)),
       current_target = \<lparr>trans = trans (pb_robtarget (cs_target cs)),
         rot = rot (pb_robtarget (cs_target cs)), robconf = robconf (pb_robtarget (cs_target cs)),
         extax = extax (pb_robtarget (cs_target cs))\<rparr>,
       current_joint_target = \<lparr>robjoint = robjoint (pb_jointtarget (cs_joints cs)),
         extjoint = extjoint (pb_jointtarget (cs_joints cs))\<rparr>,
       robot_time = cs_time cs, robot_date = cs_date cs\<rparr>)"
    unfolding unpack_robot_status_def len r8 head sum_bind.simps zone_float pos ori conf ext joint
      ext2 time date by simp
  with len raw show ?thesis by simp
qed

text \<open>
  C17. Telemetry round trip: the status packet the controller program builds is 171 bytes long and
  unpacks, always successfully, to the controller's own values, field by field: both targets, the
  speed override and speed, the number of the zone, and the time and date strings.
\<close>

theorem telemetry_round_trip:
  assumes "length (cs_time cs) = 8" and "length (cs_date cs) = 10"
  shows "length (HandleGetState cs) = 171 \<and>
    unpack_robot_status (HandleGetState cs) = Inr (Some
      \<lparr>op_mode = 0, speed_override = cs_speed_override cs, current_speed = cs_move_speed cs,
       current_zone = int (zone_to_value (cs_move_zone cs)),
       current_target = pb_robtarget (cs_target cs),
       current_joint_target = pb_jointtarget (cs_joints cs),
       robot_time = cs_time cs, robot_date = cs_date cs\<rparr>)"
  using assms by (rule status_unpacks)

theorem telemetry_round_trip_witness:
  "length (HandleGetState \<lparr>cs_target = zero_target, cs_joints = rq_joint_target zero_request,
     cs_speed_override = 0x42C80000, cs_move_speed = 0x42C80000, cs_move_zone = RZ_z30,
     cs_time = ''12:30:59'', cs_date = ''2025-11-18''\<rparr>) = 171"
  by (rule conjunct1 [OF telemetry_round_trip]) simp_all

text \<open>
  The hexadecimal dump is faithful: it has two digits for each of the 188 bytes, and two
  requests with the same dump are equal.
\<close>

lemma hexstring_faithful:
  "length (rapid_request_to_hexstring r) = 376 \<and>
   (rapid_request_to_hexstring r = rapid_request_to_hexstring r') = (r = r')"
proof -
  have "r = r'" if "bytes_RapidRequest r = bytes_RapidRequest r'"
    using request_fields [of r] request_fields [of r'] that
    by (auto simp: word_unat_eq_iff intro!: RapidRequest.equality)
  then show ?thesis
    using concat_map_hex_inject by (auto simp: rapid_request_to_hexstring_def)
qed

end
