(* ===== verification/History.thy ===== *)
theory History
  imports Server Rapid "HOL-Library.Sublist"
begin

text \<open>
  Executions of the server with their history: which commands were accepted as tasks, which the
  robot worker submitted, and which the worker of the robot took from its queue to send. The history
  is read off the states before and after a step; no step depends on it.
\<close>

section \<open>Events\<close>

record history =
  accepted :: "(task_id_t \<times> RapidRequest) list"
  handed_over :: "(task_id_t \<times> RapidRequest) list"
  taken :: "RapidRequest list"

definition no_history :: history where
  "no_history = \<lparr>accepted = [], handed_over = [], taken = []\<rparr>"

text \<open>A new task number was drawn: the task is registered under it.\<close>

definition accept_event :: "Tasker \<Rightarrow> Tasker \<Rightarrow> (task_id_t \<times> RapidRequest) list" where
  "accept_event T T' =
     (let k = m_next_task_counter T in
      if m_next_task_counter T' = k then []
      else (case getTask k T' of None \<Rightarrow> [] | Some t \<Rightarrow> [(k, m_request t)]))"

fun submit_event :: "task_worker \<Rightarrow> task_worker \<Rightarrow> (task_id_t \<times> RapidRequest) list" where
  "submit_event (RwSubmit k req) (RwAwait j p) = [(k, req)]"
| "submit_event v w = []"

fun take_event :: "worker_point \<Rightarrow> worker_point \<Rightarrow> RapidRequest list" where
  "take_event TakeWork (Serve item is_heartbeat) = (if is_heartbeat then [] else [wi_command item])"
| "take_event v w = []"

definition robot_point :: "Server \<Rightarrow> worker_point" where
  "robot_point s = (case robot_s (sv s) of None \<Rightarrow> NotStarted | Some R \<Rightarrow> worker_thread_m R)"

definition add_events :: "history \<Rightarrow> Server \<Rightarrow> Server \<Rightarrow> history" where
  "add_events h s t =
     \<lparr>accepted = accepted h @ accept_event (tasker_s (sv s)) (tasker_s (sv t)),
      handed_over = handed_over h @ submit_event (sv_worker s) (sv_worker t),
      taken = taken h @ take_event (robot_point s) (robot_point t)\<rparr>"

inductive server_run :: "Server \<Rightarrow> history \<Rightarrow> bool" where
  run_start: "server_started s \<Longrightarrow> server_run s no_history"
| run_step: "server_run s h \<Longrightarrow> server_step s t \<Longrightarrow> server_run t (add_events h s t)"

lemma run_reach: "server_run s h \<Longrightarrow> reach server_started server_step s"
  by (induction rule: server_run.induct) (auto intro: reach.intros)

text \<open>Runs in which the worker of the robot has served nothing yet.\<close>

definition serving_point :: "Server \<Rightarrow> bool" where
  "serving_point s \<longleftrightarrow> (\<exists>item hb. robot_point s = Serve item hb)"

inductive unserved_run :: "Server \<Rightarrow> history \<Rightarrow> bool" where
  unserved_start: "server_started s \<Longrightarrow> unserved_run s no_history"
| unserved_step: "unserved_run s h \<Longrightarrow> server_step s t \<Longrightarrow> \<not> serving_point s \<Longrightarrow>
    unserved_run t (add_events h s t)"

lemma unserved_run_server: "unserved_run s h \<Longrightarrow> server_run s h"
  by (induction rule: unserved_run.induct) (auto intro: server_run.intros)

section \<open>Ordered lists\<close>

abbreviation id_less :: "task_id_t \<Rightarrow> task_id_t \<Rightarrow> bool" where
  "id_less a b \<equiv> unat a < unat b"

lemma ordered_subset_subseq:
  assumes "sorted_wrt id_less (map fst xs)" and "sorted_wrt id_less (map fst ys)"
    and "set xs \<subseteq> set ys"
  shows "subseq xs ys"
  using assms
proof (induction ys arbitrary: xs)
  case (Cons y ys)
  show ?case
  proof (cases xs)
    case (Cons x zs)
    have later: "x' \<in> set ys" if "x' \<in> set zs" for x'
    proof -
      have "x' \<in> set (y # ys)" using that Cons \<open>set xs \<subseteq> set (y # ys)\<close> by auto
      moreover have "x' \<noteq> y"
      proof
        assume "x' = y"
        have "id_less (fst x) (fst x')" using Cons.prems(1) Cons that \<open>xs = x # zs\<close> by auto
        moreover have "x \<in> set (y # ys)" using Cons.prems(3) \<open>xs = x # zs\<close> by auto
        ultimately show False using Cons.prems(2) \<open>x' = y\<close> by auto
      qed
      ultimately show ?thesis by simp
    qed
    have zs: "sorted_wrt id_less (map fst zs)" using Cons.prems(1) \<open>xs = x # zs\<close> by simp
    have ys: "sorted_wrt id_less (map fst ys)" using Cons.prems(2) by simp
    show ?thesis
    proof (cases "x = y")
      case True
      have "set zs \<subseteq> set ys" using later by blast
      with Cons.IH [OF zs ys] True \<open>xs = x # zs\<close> show ?thesis by simp
    next
      case False
      with Cons.prems(3) \<open>xs = x # zs\<close> later have "set xs \<subseteq> set ys" by auto
      with Cons.IH [OF Cons.prems(1) ys] show ?thesis by auto
    qed
  qed simp
qed simp

section \<open>Invariant\<close>

text \<open>
  \<open>A\<close>: the accepted commands, in the order of their numbers; \<open>D\<close>: those handed over, some of
  them, in the same order, and before everything that is queued or with the worker.
\<close>

definition order_inv :: "task_worker \<Rightarrow> Tasker \<Rightarrow> (task_id_t \<times> RapidRequest) list \<Rightarrow>
    (task_id_t \<times> RapidRequest) list \<Rightarrow> bool" where
  "order_inv w T A D \<longleftrightarrow>
     sorted_wrt id_less (map fst A) \<and> (\<forall>a \<in> set A. id_less (fst a) (m_next_task_counter T)) \<and>
     (\<forall>e \<in> set (m_task_map T). (fst e, m_request (snd e)) \<in> set A) \<and>
     sorted_wrt id_less (map fst D) \<and> set D \<subseteq> set A \<and>
     sorted_wrt id_less (m_task_queue T) \<and>
     (\<forall>q \<in> set (m_task_queue T). id_less q (m_next_task_counter T) \<and> (\<forall>d \<in> set D. id_less (fst d) q)) \<and>
     (\<forall>c. current_task w = Some c \<longrightarrow> id_less c (m_next_task_counter T) \<and>
        (\<forall>q \<in> set (m_task_queue T). id_less c q) \<and>
        ((\<forall>p. w \<noteq> RwAwait c p) \<longrightarrow> (\<forall>d \<in> set D. id_less (fst d) c))) \<and>
     (\<forall>k req. w = RwSubmit k req \<longrightarrow> (k, req) \<in> set A)"

lemma orderD:
  assumes "order_inv w T A D"
  shows "sorted_wrt id_less (map fst A)" and "\<And>a. a \<in> set A \<Longrightarrow> id_less (fst a) (m_next_task_counter T)"
    and "\<And>e. e \<in> set (m_task_map T) \<Longrightarrow> (fst e, m_request (snd e)) \<in> set A"
    and "sorted_wrt id_less (map fst D)" and "set D \<subseteq> set A" and "sorted_wrt id_less (m_task_queue T)"
    and "\<And>q. q \<in> set (m_task_queue T) \<Longrightarrow> id_less q (m_next_task_counter T)"
    and "\<And>q d. q \<in> set (m_task_queue T) \<Longrightarrow> d \<in> set D \<Longrightarrow> id_less (fst d) q"
    and "\<And>c. current_task w = Some c \<Longrightarrow> id_less c (m_next_task_counter T)"
    and "\<And>c q. current_task w = Some c \<Longrightarrow> q \<in> set (m_task_queue T) \<Longrightarrow> id_less c q"
    and "\<And>c d. current_task w = Some c \<Longrightarrow> (\<forall>p. w \<noteq> RwAwait c p) \<Longrightarrow> d \<in> set D \<Longrightarrow> id_less (fst d) c"
    and "\<And>k req. w = RwSubmit k req \<Longrightarrow> (k, req) \<in> set A"
  using assms unfolding order_inv_def by blast+

lemma orderI:
  assumes "sorted_wrt id_less (map fst A)" and "\<And>a. a \<in> set A \<Longrightarrow> id_less (fst a) (m_next_task_counter T)"
    and "\<And>e. e \<in> set (m_task_map T) \<Longrightarrow> (fst e, m_request (snd e)) \<in> set A"
    and "sorted_wrt id_less (map fst D)" and "set D \<subseteq> set A" and "sorted_wrt id_less (m_task_queue T)"
    and "\<And>q. q \<in> set (m_task_queue T) \<Longrightarrow> id_less q (m_next_task_counter T)"
    and "\<And>q d. q \<in> set (m_task_queue T) \<Longrightarrow> d \<in> set D \<Longrightarrow> id_less (fst d) q"
    and "\<And>c. current_task w = Some c \<Longrightarrow> id_less c (m_next_task_counter T)"
    and "\<And>c q. current_task w = Some c \<Longrightarrow> q \<in> set (m_task_queue T) \<Longrightarrow> id_less c q"
    and "\<And>c d. current_task w = Some c \<Longrightarrow> (\<forall>p. w \<noteq> RwAwait c p) \<Longrightarrow> d \<in> set D \<Longrightarrow> id_less (fst d) c"
    and "\<And>k req. w = RwSubmit k req \<Longrightarrow> (k, req) \<in> set A"
  shows "order_inv w T A D"
  using assms unfolding order_inv_def by blast

text \<open>The registry has no task it did not have, and no request is changed.\<close>

definition registry_kept :: "Tasker \<Rightarrow> Tasker \<Rightarrow> bool" where
  "registry_kept T T' \<longleftrightarrow>
     m_task_queue T' = m_task_queue T \<and> m_next_task_counter T' = m_next_task_counter T \<and>
     (\<forall>e' \<in> set (m_task_map T'). \<exists>e \<in> set (m_task_map T).
        fst e' = fst e \<and> m_request (snd e') = m_request (snd e))"

lemma kept_order:
  assumes "order_inv w T A D" and "registry_kept T T'"
  shows "order_inv w T' A D"
proof -
  have "(fst e, m_request (snd e)) \<in> set A" if "e \<in> set (m_task_map T')" for e
    using that assms(2) orderD(3) [OF assms(1)] unfolding registry_kept_def by metis
  with assms show ?thesis unfolding order_inv_def registry_kept_def by simp
qed

lemma kept_event: "registry_kept T T' \<Longrightarrow> accept_event T T' = []"
  by (simp add: registry_kept_def accept_event_def)

lemma mark_requests:
  "m_request (snd (markStarted now t)) = m_request t"
  "m_request (snd (markCompleted now t)) = m_request t"
  "m_request (snd (markFailed now t)) = m_request t"
  by (simp_all add: markStarted_def markCompleted_def markFailed_def)

lemma update_kept:
  assumes "\<And>t. m_request (f t) = m_request t"
  shows "registry_kept T (snd (update_task k f T))"
proof -
  have "\<exists>e \<in> set (m_task_map T). fst e' = fst e \<and> m_request (snd e') = m_request (snd e)"
    if "e' \<in> set (m_task_map (snd (update_task k f T)))" for e'
  proof (cases "map_of (m_task_map T) k")
    case None
    with that show ?thesis by (auto simp: update_task_def)
  next
    case (Some t)
    with that obtain a b where "(a, b) \<in> set (m_task_map T)" "e' = (a, if a = k then f b else b)"
      by (auto simp: update_task_def)
    with assms show ?thesis by (intro bexI [of _ "(a, b)"]) simp_all
  qed
  then show ?thesis by (simp add: registry_kept_def update_task_rest)
qed

lemma subset_kept:
  "m_task_queue T' = m_task_queue T \<Longrightarrow> m_next_task_counter T' = m_next_task_counter T \<Longrightarrow>
     set (m_task_map T') \<subseteq> set (m_task_map T) \<Longrightarrow> registry_kept T T'"
  unfolding registry_kept_def by blast

lemma calls_kept:
  "registry_kept T (snd (startTask now k T))" "registry_kept T (snd (completeTask now k msg T))"
  "registry_kept T (snd (failTask now k msg T))"
  by (simp_all add: startTask_def completeTask_def failTask_def update_kept mark_requests setResponse_def)

lemma drops_kept:
  "registry_kept T (snd (removeTask k T))" "registry_kept T (stop_tasker T)" "registry_kept T T"
  "registry_kept T (sweepExpiredTasks now x T)"
  by (rule subset_kept; auto simp: removeTask_def stop_tasker_def sweepExpiredTasks_def
      split: option.splits)+

lemma finish_kept: "registry_kept T (finish_task now k raw T)"
  by (simp add: finish_task_def Let_def calls_kept)

lemma add_order:
  assumes "order_inv w T A D" and "id_less (m_next_task_counter T) (m_next_task_counter T + 1)"
  shows "order_inv w (snd (addTask now r T)) (A @ [(m_next_task_counter T, r)]) D"
    and "accept_event T (snd (addTask now r T)) = [(m_next_task_counter T, r)]"
proof -
  let ?n = "m_next_task_counter T" and ?T = "snd (addTask now r T)"
  note inv = orderD [OF assms(1)]
  have fresh: "getTask ?n T = None"
  proof (rule ccontr)
    assume "getTask ?n T \<noteq> None"
    then obtain t where "getTask ?n T = Some t" by blast
    then have "(?n, t) \<in> set (m_task_map T)" by (simp add: getTask_def map_of_SomeD)
    from inv(2) [OF inv(3) [OF this]] show False by simp
  qed
  have req: "m_request (Task_new now ?n r) = r" by (simp add: Task_new_def)
  have get: "getTask k ?T = (if k = ?n then Some (Task_new now ?n r) else getTask k T)" for k
    using fresh by (simp add: addTask_get)
  have q: "m_task_queue ?T = m_task_queue T @ [?n]" and c: "m_next_task_counter ?T = ?n + 1"
    by (simp_all add: addTask_fields)
  have up: "id_less k (?n + 1)" if "id_less k ?n" for k using that assms(2) by simp
  have entries: "e = (?n, Task_new now ?n r) \<or> e \<in> set (m_task_map T)" if "e \<in> set (m_task_map ?T)" for e
    using that by (auto simp: addTask_def fetch_id_def emplace_task_def push_task_def split: if_splits)
  show "order_inv w ?T (A @ [(?n, r)]) D"
  proof (rule orderI)
    show "sorted_wrt id_less (map fst (A @ [(?n, r)]))"
      using inv(1,2) by (auto simp: sorted_wrt_append)
    show "id_less (fst a) (m_next_task_counter ?T)" if "a \<in> set (A @ [(?n, r)])" for a
      using that inv(2) [of a] up [of "fst a"] assms(2) by (auto simp: c)
    show "(fst e, m_request (snd e)) \<in> set (A @ [(?n, r)])" if "e \<in> set (m_task_map ?T)" for e
      using entries [OF that] inv(3) [of e] req by auto
    show "sorted_wrt id_less (m_task_queue ?T)"
      using inv(6,7) by (auto simp: q sorted_wrt_append)
    show "id_less k (m_next_task_counter ?T)" if "k \<in> set (m_task_queue ?T)" for k
      using that inv(7) [of k] up [of k] assms(2) by (auto simp: q c)
    show "id_less (fst d) k" if "k \<in> set (m_task_queue ?T)" "d \<in> set D" for k d
    proof (cases "k = ?n")
      case True
      with that(2) inv(2) [of d] inv(5) show ?thesis by blast
    next
      case False
      with that inv(8) [of k d] show ?thesis by (simp add: q)
    qed
    show "id_less k (m_next_task_counter ?T)" if "current_task w = Some k" for k
      using that inv(9) up by (simp add: c)
    show "id_less k j" if "current_task w = Some k" "j \<in> set (m_task_queue ?T)" for k j
      using that inv(9,10) by (auto simp: q)
  qed (use inv in auto)
  have "m_next_task_counter ?T \<noteq> ?n" using assms(2) by (auto simp: c)
  then show "accept_event T ?T = [(?n, r)]"
    using get req by (simp add: accept_event_def Let_def)
qed

section \<open>The worker that hands commands over\<close>

lemma worker_change:
  assumes "order_inv w T A D" and "current_task v = None \<or> (current_task v = current_task w \<and>
    ((\<forall>c p. v \<noteq> RwAwait c p) \<longrightarrow> (\<forall>c p. w \<noteq> RwAwait c p)))"
    and "\<And>k req. v = RwSubmit k req \<Longrightarrow> (k, req) \<in> set A"
  shows "order_inv v T A D"
proof (rule orderI)
  note inv = orderD [OF assms(1)]
  fix c assume c: "current_task v = Some c"
  with assms(2) have w: "current_task w = Some c" by auto
  show "id_less c (m_next_task_counter T)" using inv(9) [OF w] .
  show "id_less c q" if "q \<in> set (m_task_queue T)" for q using inv(10) [OF w that] .
  show "id_less (fst d) c" if "\<forall>p. v \<noteq> RwAwait c p" "d \<in> set D" for d
  proof -
    from that(1) c have "\<forall>c p. v \<noteq> RwAwait c p" by auto
    with assms(2) c have "\<forall>c p. w \<noteq> RwAwait c p" by auto
    with inv(11) [OF w _ that(2)] show ?thesis by blast
  qed
qed (use orderD [OF assms(1)] assms(3) in blast)+

lemma idle_order: "order_inv w T A D \<Longrightarrow> current_task v = None \<Longrightarrow> order_inv v T A D"
  by (rule worker_change) auto

lemma take_order:
  assumes "order_inv RwWait T A D" and "waitForNextTask T = (Next (Some k), T')"
  shows "order_inv (RwStart k) T' A D"
proof -
  note inv = orderD [OF assms(1)]
  from assms(2) obtain ks where q: "m_task_queue T = k # ks" and T': "T' = T\<lparr>m_task_queue := ks\<rparr>"
    by (cases "m_task_queue T") (auto simp: waitForNextTask_def split: if_splits)
  show ?thesis
  proof (rule orderI)
    show "id_less (fst d) c" if "current_task (RwStart k) = Some c" "d \<in> set D" for c d
      using that inv(8) [of k d] q by simp
    show "id_less (fst d) j" if "j \<in> set (m_task_queue T')" "d \<in> set D" for j d
      using that inv(8) [of j d] q by (simp add: T')
    show "id_less j (m_next_task_counter T')" if "j \<in> set (m_task_queue T')" for j
      using that inv(7) [of j] q by (simp add: T')
    show "id_less c (m_next_task_counter T')" if "current_task (RwStart k) = Some c" for c
      using that inv(7) [of k] q by (simp add: T')
    show "id_less c j" if "current_task (RwStart k) = Some c" "j \<in> set (m_task_queue T')" for c j
      using that inv(6) q by (simp add: T')
  qed (use inv q in \<open>simp_all add: T'\<close>)
qed

lemma submit_order:
  assumes "order_inv (RwSubmit k req) T A D"
  shows "order_inv (RwAwait k p) T A (D @ [(k, req)])"
proof -
  note inv = orderD [OF assms]
  have new: "id_less (fst d) k" if "d \<in> set D" for d using inv(11) [of k d] that by simp
  show ?thesis
  proof (rule orderI)
    show "sorted_wrt id_less (map fst (D @ [(k, req)]))" using inv(4) new by (auto simp: sorted_wrt_append)
    show "set (D @ [(k, req)]) \<subseteq> set A" using inv(5,12) by simp
    show "id_less (fst d) q" if "q \<in> set (m_task_queue T)" "d \<in> set (D @ [(k, req)])" for d q
      using that inv(8) [of q d] inv(10) [of k q] by auto
  qed (use inv in auto)
qed

section \<open>The queue of the robot object\<close>

abbreviation queued :: "Robot \<Rightarrow> RapidRequest list" where
  "queued R \<equiv> map wi_command (request_queue_m R)"

lemma no_take_event [simp]: "take_event p p = []"
  by (cases p) simp_all

lemma no_submit_event [simp]: "submit_event w w = []"
  by (cases w) simp_all

lemma attempt_queue: "attempt_connection io R = (b, S) \<Longrightarrow> request_queue_m S = request_queue_m R \<and>
    worker_thread_m S = worker_thread_m R"
  by (auto simp: attempt_connection_def Let_def split: if_splits prod.splits)

lemma worker_loop_queue:
  "take_event (worker_thread_m R) (worker_thread_m (worker_loop_step io R)) @ queued (worker_loop_step io R) =
     queued R"
proof (cases "worker_thread_m R")
  case LoopHead
  then show ?thesis
    by (auto simp: worker_loop_step_def split: prod.split bool.split dest: attempt_queue)
next
  case TakeWork
  then show ?thesis
    by (cases "request_queue_m R") (auto simp: worker_loop_step_def pop_request_def)
next
  case (Serve item hb)
  then show ?thesis
    by (auto simp: worker_loop_step_def split: prod.split sum.split dest: serve_frame)
qed (simp_all add: worker_loop_step_def)

section \<open>Executions\<close>

definition order_ok :: "Server \<Rightarrow> history \<Rightarrow> bool" where
  "order_ok s h \<longleftrightarrow>
     order_inv (sv_worker s) (tasker_s (sv s)) (accepted h) (handed_over h) \<and>
     (\<forall>a \<in> set (accepted h). valid_request (snd a)) \<and>
     (\<exists>R. robot_s (sv s) = Some R \<and> map snd (handed_over h) = taken h @ queued R)"

lemma order_ok_step:
  assumes "order_ok s h"
    and "order_inv (sv_worker t) (tasker_s (sv t)) (accepted h @ accept_event (tasker_s (sv s)) (tasker_s (sv t)))
      (handed_over h @ submit_event (sv_worker s) (sv_worker t))"
    and "\<And>a. a \<in> set (accept_event (tasker_s (sv s)) (tasker_s (sv t))) \<Longrightarrow> valid_request (snd a)"
    and "\<And>R. robot_s (sv s) = Some R \<Longrightarrow> \<exists>R'. robot_s (sv t) = Some R' \<and>
      queued R @ map snd (submit_event (sv_worker s) (sv_worker t)) =
      take_event (worker_thread_m R) (worker_thread_m R') @ queued R'"
  shows "order_ok t (add_events h s t)"
  using assms by (fastforce simp: order_ok_def add_events_def robot_point_def)

text \<open>A step that neither registers nor hands over: the worker moves on, tasks may go or change.\<close>

lemma order_ok_quiet:
  assumes "order_ok s h" and "registry_kept (tasker_s (sv s)) (tasker_s (sv t))"
    and "order_inv (sv_worker t) (tasker_s (sv s)) (accepted h) (handed_over h)"
    and "submit_event (sv_worker s) (sv_worker t) = []" and "robot_s (sv t) = robot_s (sv s)"
  shows "order_ok t (add_events h s t)"
  using assms by (intro order_ok_step) (simp_all add: kept_event kept_order)

lemma request_order:
  assumes "order_ok s h" and "unat (m_next_task_counter (tasker_s (sv s))) < 2 ^ 64 - 1"
  shows "order_ok (request_step io env msg s) (add_events h s (request_step io env msg s))"
proof -
  let ?t = "request_step io env msg s"
  have drops: "tasker_effect T T" for T by (simp add: tasker_effect_def)
  have eff: "tasker_effect (tasker_s (sv s)) (tasker_s (sv ?t))"
    and rest: "robot_s (sv ?t) = robot_s (sv s)" "sv_worker ?t = sv_worker s"
    using loop_effect [of "sv s" io env msg] drops
    by (auto simp: request_step_def split: prod.split)
  have inv: "order_inv (sv_worker s) (tasker_s (sv s)) (accepted h) (handed_over h)"
    using assms(1) by (simp add: order_ok_def)
  have up: "id_less (m_next_task_counter (tasker_s (sv s))) (m_next_task_counter (tasker_s (sv s)) + 1)"
    using counter_next [OF assms(2)] by simp
  show ?thesis
  proof (cases "registry_kept (tasker_s (sv s)) (tasker_s (sv ?t))")
    case True
    with assms(1) inv rest show ?thesis by (intro order_ok_quiet) simp_all
  next
    case False
    with eff obtain now r where "valid_request r" "tasker_s (sv ?t) = snd (addTask now r (tasker_s (sv s)))"
      by (auto simp: tasker_effect_def drops_kept)
    with add_order [OF inv up] assms(1) rest show ?thesis by (intro order_ok_step) simp_all
  qed
qed

lemma hand_over_order:
  assumes "order_ok s h" and w: "sv_worker s = RwSubmit k req"
  shows "order_ok (robot_worker_step now x s) (add_events h s (robot_worker_step now x s))"
proof -
  let ?t = "robot_worker_step now x s"
  from assms(1) obtain R where R: "robot_s (sv s) = Some R"
    and inv: "order_inv (RwSubmit k req) (tasker_s (sv s)) (accepted h) (handed_over h)"
    by (auto simp: order_ok_def w)
  show ?thesis
  proof (cases "running_m R")
    case False
    with R w have "?t = s\<lparr>sv_worker := RwCrashed\<rparr>" by (simp add: robot_worker_step_def queue_request_def)
    with assms(1) inv w show ?thesis
      by (intro order_ok_quiet) (simp_all add: drops_kept idle_order [OF inv])
  next
    case True
    with R w have t: "?t = (with_robot (\<lambda>_. snd (enqueue_request req R)) s)
        \<lparr>sv_worker := RwAwait k (length (promises_m R))\<rparr>"
      by (simp add: robot_worker_step_def queue_request_def)
    show ?thesis unfolding t
      using assms(1) submit_order [OF inv] R w
      by (intro order_ok_step) (simp_all add: kept_event drops_kept enqueue_request_def Let_def)
  qed
qed

lemma wait_order:
  assumes "order_ok s h" and w: "sv_worker s = RwWait"
  shows "order_ok (robot_worker_step now x s) (add_events h s (robot_worker_step now x s))"
proof -
  have inv: "order_inv RwWait (tasker_s (sv s)) (accepted h) (handed_over h)"
    using assms(1) by (simp add: order_ok_def w)
  obtain r T where wt: "waitForNextTask (tasker_s (sv s)) = (r, T)" by fastforce
  show ?thesis
  proof (cases "\<exists>k. r = Next (Some k)")
    case True
    then obtain k where r: "r = Next (Some k)" by blast
    with wt have "waitForNextTask (tasker_s (sv s)) = (Next (Some k), T)" by simp
    note tk = take_order [OF inv this]
    have "accept_event (tasker_s (sv s)) T = []"
      using wt by (auto simp: waitForNextTask_def accept_event_def split: if_splits)
    with tk w wt r assms(1) show ?thesis
      by (intro order_ok_step) (simp_all add: robot_worker_step_def)
  next
    case False
    then have "r = Waiting \<or> r = Next None" by (metis not_None_eq wait_result.exhaust)
    with w wt assms(1) show ?thesis
      by (intro order_ok_quiet)
        (auto simp: robot_worker_step_def drops_kept idle_order [OF inv] split: wait_result.split)
  qed
qed

lemma fetch_order:
  assumes "order_ok s h" and w: "sv_worker s = RwFetch k"
  shows "order_ok (robot_worker_step now x s) (add_events h s (robot_worker_step now x s))"
proof -
  have inv: "order_inv (RwFetch k) (tasker_s (sv s)) (accepted h) (handed_over h)"
    using assms(1) by (simp add: order_ok_def w)
  show ?thesis
  proof (cases "getTask k (tasker_s (sv s))")
    case None
    with w assms(1) show ?thesis
      by (intro order_ok_quiet) (simp_all add: robot_worker_step_def drops_kept idle_order [OF inv])
  next
    case (Some t)
    then have "(k, m_request t) \<in> set (accepted h)"
      using orderD(3) [OF inv, of "(k, t)"] by (simp add: getTask_def map_of_SomeD)
    then have "order_inv (RwSubmit k (m_request t)) (tasker_s (sv s)) (accepted h) (handed_over h)"
      by (intro worker_change [OF inv]) simp_all
    with w Some assms(1) show ?thesis
      by (intro order_ok_quiet)
        (simp_all add: robot_worker_step_def drops_kept calls_kept idle_order [OF inv])
  qed
qed

lemma worker_order:
  assumes "order_ok s h"
  shows "order_ok (robot_worker_step now x s) (add_events h s (robot_worker_step now x s))"
proof -
  let ?t = "robot_worker_step now x s"
  have inv: "order_inv (sv_worker s) (tasker_s (sv s)) (accepted h) (handed_over h)"
    using assms by (simp add: order_ok_def)
  show ?thesis
  proof (cases "sv_worker s")
    case (RwStart k)
    obtain f T where st: "startTask now k (tasker_s (sv s)) = (f, T)" by fastforce
    with calls_kept(1) [of "tasker_s (sv s)" now k] have "registry_kept (tasker_s (sv s)) T" by simp
    moreover have "order_inv (RwFetch k) (tasker_s (sv s)) (accepted h) (handed_over h)"
      by (rule worker_change [OF inv]) (simp_all add: RwStart)
    ultimately show ?thesis using RwStart st assms
      by (intro order_ok_quiet) (simp_all add: robot_worker_step_def idle_order [OF inv])
  next
    case (RwAwait k p)
    show ?thesis
    proof (cases "?t = s")
      case False
      with RwAwait assms have "sv_worker ?t = RwHead \<and> robot_s (sv ?t) = robot_s (sv s) \<and>
          registry_kept (tasker_s (sv s)) (tasker_s (sv ?t))"
        by (auto simp: robot_worker_step_def order_ok_def calls_kept finish_kept
            split: option.splits if_splits)
      with assms RwAwait show ?thesis
        by (intro order_ok_quiet) (simp_all add: idle_order [OF inv])
    qed (use assms inv in \<open>simp add: order_ok_quiet drops_kept\<close>)
  next
    case RwWait
    with assms show ?thesis by (rule wait_order)
  next
    case (RwFetch k)
    with assms show ?thesis by (rule fetch_order)
  next
    case (RwSubmit k req)
    with assms show ?thesis by (rule hand_over_order)
  qed (use assms inv in \<open>simp_all add: robot_worker_step_def order_ok_quiet drops_kept
      idle_order [OF inv]\<close>)
qed

lemma start_order:
  assumes "server_started s"
  shows "order_ok s no_history"
proof -
  from assms obtain LoadFile path k s0 where s0: "Server_new LoadFile path k = Inr s0" and s: "s = start s0"
    by (auto simp: server_started_def)
  then obtain host port ms where "robot_s (sv s0) = Some (Robot_new host port ms k)"
    "tasker_s (sv s0) = Tasker_default" "sv_worker s0 = RwNotStarted"
    by (auto simp: Server_new_def sum_bind_Inr_iff)
  moreover have "order_inv w Tasker_default [] []" if "current_task w = None" for w
    using that by (cases w) (simp_all add: order_inv_def Tasker_default_def)
  ultimately show ?thesis unfolding s
    by (simp add: start_def order_ok_def no_history_def Robot_new_def start_session_def)
qed

lemma run_order: "server_run s h \<Longrightarrow> order_ok s h"
proof (induction rule: server_run.induct)
  case (run_step s h t)
  have inv: "order_inv (sv_worker s) (tasker_s (sv s)) (accepted h) (handed_over h)"
    using run_step.IH by (simp add: order_ok_def)
  from run_step.hyps(2) show ?case
  proof (cases rule: server_step.cases)
    case (step_sweeper now)
    have "robot_s (sv t) = robot_s (sv s) \<and> sv_worker t = sv_worker s \<and>
        registry_kept (tasker_s (sv s)) (tasker_s (sv t))"
      unfolding step_sweeper by (simp add: sweeper_step_def drops_kept split: prod.split sum.split)
    with run_step.IH inv show ?thesis by (intro order_ok_quiet) simp_all
  next
    case (step_robot io)
    with run_step.IH inv worker_loop_queue show ?thesis
      by (intro order_ok_step) (simp_all add: kept_event drops_kept)
  next
    case step_stop_running
    with run_step.IH inv show ?thesis
      by (intro order_ok_quiet) (simp_all add: stop_parts drops_kept)
  next
    case step_stop_tasks
    with run_step.IH inv show ?thesis
      by (intro order_ok_quiet) (simp_all add: stop_parts drops_kept)
  next
    case step_stop_robot
    with run_step.IH inv show ?thesis
      by (intro order_ok_step)
        (simp_all add: stop_parts kept_event drops_kept stop_session_signal_def)
  next
    case (step_stopped R R')
    then have "queued R' = queued R \<and> take_event (worker_thread_m R) (worker_thread_m R') = []"
      by (auto simp: stop_session_finish_def joinable_done_def split: if_splits)
    with step_stopped run_step.IH inv show ?thesis
      by (intro order_ok_step) (simp_all add: kept_event drops_kept)
  qed (use run_step.IH in \<open>simp_all add: request_order worker_order\<close>)
qed (rule start_order)

section \<open>A run\<close>

text \<open>
  From a configured start: a login, the hardware lock, the connection to the controller, a command,
  and the worker threads that carry it to the point where it is sent.
\<close>

definition demo_ack_io :: robot_io where
  "demo_ack_io = demo_io\<lparr>io_recv := (\<lambda>n. Some (take n (bytes_of_string ''ACK'')))\<rparr>"

lemma demo_io_documented: "io_documented demo_ack_io"
  by (simp add: io_documented_def demo_ack_io_def demo_io_def)

definition demo_token :: string where
  "demo_token = generate_uuid (draws demo_env)"

definition demo_message :: "byte list \<Rightarrow> ClientRequest option" where
  "demo_message data =
     Some (demo_move\<lparr>cr_command := uint (hd data), cr_session_token := demo_token,
       cr_username := ''ana'', cr_password := ''pw1''\<rparr>)"

definition demo_receives :: "byte \<Rightarrow> Server \<Rightarrow> Server" where
  "demo_receives b = request_step (demo_mio\<lparr>mio_parse := demo_message\<rparr>) demo_env (Some (1, [b]))"

definition demo_sessions :: "int \<Rightarrow> string option \<Rightarrow> SessionManager" where
  "demo_sessions now lock =
     \<lparr>users_m = [(''ana'', ''pw1'')],
      sessions_m = [(demo_token, \<lparr>sess_username = ''ana'', last_seen = now\<rparr>)],
      current_lock_m = lock, mutex_m = False\<rparr>"

definition demo_connected :: Robot where
  "demo_connected =
     (start_session (Robot_new ''10.0.0.2'' 5000 4464 demo_kernel))
       \<lparr>socket_fd_m := 3, connected_m := True, worker_thread_m := TakeWork,
        kernel_m := \<lparr>open_fds = [3], live_addrinfos = 0\<rparr>\<rparr>"

definition demo_state :: "SessionManager \<Rightarrow> Tasker \<Rightarrow> Robot \<Rightarrow> task_worker \<Rightarrow> Server" where
  "demo_state m T R w =
     \<lparr>sv = \<lparr>session_manager_s = m, tasker_s = T, robot_s = Some R\<rparr>, sv_running = True,
      sv_loop = ThRunning, sv_worker = w, sv_sweeper = ThRunning\<rparr>"

definition demo_manager_0 :: SessionManager where
  "demo_manager_0 =
     \<lparr>users_m = [(''ana'', ''pw1'')], sessions_m = [], current_lock_m = None, mutex_m = False\<rparr>"
abbreviation "demo_robot_0 \<equiv> start_session (Robot_new ''10.0.0.2'' 5000 4464 demo_kernel)"

lemma demo_start_state:
  "demo_start = demo_state demo_manager_0 Tasker_default demo_robot_0 RwHead"
  by (simp add: demo_start_def start_def Server_new_def demo_load_def parse_conf_def demo_yaml_def
      load_users_free num_users_free with_robot_def start_session_def Robot_new_def demo_manager_0_def
      demo_state_def SessionManager_default_def)

definition demo_sent :: "byte \<Rightarrow> DecodedRequest" where
  "demo_sent b = decode_buffer demo_labels demo_zones demo_message [b]"

lemma demo_sent_fields:
  "cmd_type (demo_sent 12) = LOGIN" "cmd_type (demo_sent 14) = ACQUIRE" "cmd_type (demo_sent 9) = ZERO"
  "username (demo_sent b) = Some ''ana''" "password (demo_sent b) = Some ''pw1''"
  "session_token (demo_sent b) = Some demo_token"
  by (simp_all add: demo_sent_def decode_buffer_def demo_message_def demo_labels_def demo_move_def
      Let_def nonempty_def proto_cmd_enum2rapid_cmd_enum_def DecodedRequest_default_def demo_token_def)

lemma demo_receives_handled:
  assumes "\<exists>res. handle demo_env (demo_sent b) \<lparr>session_manager_s = m, tasker_s = T, robot_s = Some R\<rparr> =
    (Inr res, \<lparr>session_manager_s = m', tasker_s = T', robot_s = Some R'\<rparr>)"
  shows "demo_receives b (demo_state m T R w) = demo_state m' T' R' w"
  using assms
  by (auto simp: demo_receives_def request_step_def loop_iteration_def EAGAIN_def demo_state_def
      demo_mio_def send_reply_def split: option.split simp flip: demo_sent_def)

lemma demo_login: "demo_receives 12 (demo_state demo_manager_0 T R w) = demo_state (demo_sessions 0 None) T R w"
  by (rule demo_receives_handled)
    (simp add: handle_free demo_sent_fields login_handler_free login_free demo_manager_0_def
      value_or_empty_def demo_sessions_def demo_token_def)

lemma demo_acquire:
  "demo_receives 14 (demo_state (demo_sessions 0 None) T R w) =
     demo_state (demo_sessions 7 (Some demo_token)) T R w"
  by (rule demo_receives_handled)
    (simp add: handle_free demo_sent_fields acquire_handler_free live_token_def lock_held_def
      token_of_def value_or_empty_def demo_sessions_def tokens_def touched_def touch_session_free
      demo_env_def, simp add: demo_token_def)

lemma demo_connect:
  "with_robot (worker_loop_step demo_ack_io) (demo_state m T demo_robot_0 w) = demo_state m T demo_connected w"
proof -
  have "connect_tcp demo_os ''10.0.0.2'' 5000 4464 demo_kernel = (3, \<lparr>open_fds = [3], live_addrinfos = 0\<rparr>)"
    by (simp add: connect_tcp_def demo_os_def getaddrinfo_def socket_open_def freeaddrinfo_def
        demo_kernel_def INVALID_SOCKET_FD_def Let_def)
  then show ?thesis
    by (simp add: with_robot_def demo_state_def worker_loop_step_def demo_connected_def
        start_session_def Robot_new_def attempt_connection_def demo_ack_io_def demo_io_def INVALID_SOCKET_FD_def Let_def)
qed

definition demo_command :: RapidRequest where
  "demo_command = request_spec (demo_sent 9)"
definition demo_queued :: Tasker where
  "demo_queued = snd (addTask 8 demo_command Tasker_default)"

lemma demo_accept:
  "demo_receives 9 (demo_state (demo_sessions 7 (Some demo_token)) Tasker_default demo_connected w) =
     demo_state (demo_sessions 7 (Some demo_token)) demo_queued demo_connected w"
proof (rule demo_receives_handled)
  have "create_rapid_request (demo_sent 9) = Inr demo_command"
    unfolding demo_command_def
    by (rule create_rapid_request_complete) (simp add: complete_request_def demo_sent_fields uses_target_def)
  then show "\<exists>res. handle demo_env (demo_sent 9) \<lparr>session_manager_s = demo_sessions 7 (Some demo_token),
      tasker_s = Tasker_default, robot_s = Some demo_connected\<rparr> =
    (Inr res, \<lparr>session_manager_s = demo_sessions 7 (Some demo_token), tasker_s = demo_queued,
      robot_s = Some demo_connected\<rparr>)"
    by (simp add: handle_free demo_sent_fields robot_command_free granted_def live_token_def
      lock_held_def token_of_def value_or_empty_def demo_sessions_def tokens_def refreshed_def
      touched_def touch_session_free demo_env_def is_connected_def demo_connected_def demo_queued_def)
qed

definition demo_waits :: Tasker where
  "demo_waits = demo_queued\<lparr>m_task_queue := []\<rparr>"

definition demo_started :: Tasker where
  "demo_started = snd (startTask 9 1 demo_waits)"

definition demo_handed :: Robot where
  "demo_handed = snd (enqueue_request demo_command demo_connected)"

definition demo_sending :: Robot where
  "demo_sending = demo_handed\<lparr>request_queue_m := [],
     worker_thread_m := Serve \<lparr>wi_command = demo_command, wi_promise = Some 0\<rparr> False\<rparr>"

lemma demo_worker:
  "robot_worker_step 9 False (demo_state m demo_queued R RwHead) = demo_state m demo_queued R RwWait"
  "robot_worker_step 9 False (demo_state m demo_queued R RwWait) = demo_state m demo_waits R (RwStart 1)"
  "robot_worker_step 9 False (demo_state m demo_waits R (RwStart 1)) = demo_state m demo_started R (RwFetch 1)"
  "robot_worker_step 9 False (demo_state m demo_started demo_connected (RwFetch 1)) =
     demo_state m demo_started demo_connected (RwSubmit 1 demo_command)"
  "robot_worker_step 9 False (demo_state m T demo_connected (RwSubmit 1 demo_command)) =
     demo_state m T demo_handed (RwAwait 1 0)"
  "with_robot (worker_loop_step demo_ack_io) (demo_state m T demo_handed w) = demo_state m T demo_sending w"
  by (simp_all add: robot_worker_step_def demo_state_def demo_queued_def demo_waits_def demo_started_def
      waitForNextTask_def startTask_def update_task_def getTask_def addTask_def fetch_id_def
      emplace_task_def push_task_def Tasker_default_def mark_defs Task_new_def is_connected_def
      queue_request_def demo_connected_def demo_handed_def demo_sending_def with_robot_def on_tasker_def
      start_session_def Robot_new_def worker_loop_step_def pop_request_def enqueue_request_def Let_def)

definition demo_reached :: "Server \<Rightarrow> (task_id_t \<times> RapidRequest) list \<Rightarrow> RapidRequest list \<Rightarrow> bool" where
  "demo_reached s A U \<longleftrightarrow> (\<exists>h. unserved_run s h \<and> accepted h = A \<and> taken h = U)"

lemma demo_next:
  assumes "demo_reached s A U" and "server_step s t" and "\<not> serving_point s"
    and "A' = A @ accept_event (tasker_s (sv s)) (tasker_s (sv t))"
    and "U' = U @ take_event (robot_point s) (robot_point t)"
  shows "demo_reached t A' U'"
proof -
  from assms(1) obtain h where "unserved_run s h" "accepted h = A" "taken h = U"
    by (auto simp: demo_reached_def)
  with unserved_step [OF this(1) assms(2,3)] assms(4,5) show ?thesis
    by (fastforce simp: demo_reached_def add_events_def)
qed

lemma demo_received:
  assumes "demo_reached s A U" and "demo_receives b s = t" and "m_next_task_counter (tasker_s (sv s)) = 1"
    and "\<not> serving_point s"
    and "A' = A @ accept_event (tasker_s (sv s)) (tasker_s (sv t))"
    and "U' = U @ take_event (robot_point s) (robot_point t)"
  shows "demo_reached t A' U'"
proof (rule demo_next [OF assms(1) _ assms(4-6)])
  show "server_step s t"
    unfolding assms(2) [symmetric] demo_receives_def by (rule step_request) (simp add: assms(3))
qed

lemma demo_worked:
  assumes "demo_reached (demo_state m T R w) A U"
    and "robot_worker_step 9 False (demo_state m T R w) = demo_state m T' R' w'"
    and "accept_event T T' = []" and "worker_thread_m R' = worker_thread_m R"
    and "\<forall>item hb. worker_thread_m R \<noteq> Serve item hb"
  shows "demo_reached (demo_state m T' R' w') A U"
proof (rule demo_next [OF assms(1)])
  show "server_step (demo_state m T R w) (demo_state m T' R' w')"
    unfolding assms(2) [symmetric] by (rule step_worker)
qed (simp_all add: demo_state_def robot_point_def serving_point_def assms(3-5))

lemma demo_run:
  "demo_reached (demo_state (demo_sessions 7 (Some demo_token)) demo_started demo_sending (RwAwait 1 0))
     [(1, demo_command)] [demo_command]"
proof -
  note fields = demo_state_def robot_point_def serving_point_def Tasker_default_def demo_connected_def
    start_session_def Robot_new_def
  have idle: "worker_thread_m demo_connected \<noteq> Serve item hb" for item hb
    by (simp add: demo_connected_def start_session_def Robot_new_def)
  let ?m = "demo_sessions 7 (Some demo_token)"
  have 0: "demo_reached (demo_state demo_manager_0 Tasker_default demo_robot_0 RwHead) [] []"
    unfolding demo_reached_def
    using unserved_start [OF demo_start_started] by (intro exI [of _ no_history]) (simp add: demo_start_state no_history_def)
  have 1: "demo_reached (demo_state (demo_sessions 0 None) Tasker_default demo_robot_0 RwHead) [] []"
    by (rule demo_received [OF 0 demo_login]) (simp_all add: fields accept_event_def)
  have 2: "demo_reached (demo_state ?m Tasker_default demo_robot_0 RwHead) [] []"
    by (rule demo_received [OF 1 demo_acquire]) (simp_all add: fields accept_event_def)
  have 3: "demo_reached (demo_state ?m Tasker_default demo_connected RwHead) [] []"
    by (rule demo_next [OF 2 step_robot [OF demo_io_documented, where s = "demo_state ?m Tasker_default demo_robot_0 RwHead", unfolded demo_connect]])
      (simp_all add: fields accept_event_def demo_connected_def start_session_def Robot_new_def)
  have 4: "demo_reached (demo_state ?m demo_queued demo_connected RwHead) [(1, demo_command)] []"
  proof (rule demo_received [OF 3 demo_accept])
    have "accept_event Tasker_default demo_queued = [(1, demo_command)]"
      using add_order(2) [of RwHead Tasker_default "[]" "[]" 8 demo_command]
      by (simp add: order_inv_def demo_queued_def Tasker_default_def)
    then show "[(1, demo_command)] = [] @ accept_event (tasker_s (sv (demo_state ?m Tasker_default demo_connected RwHead)))
      (tasker_s (sv (demo_state ?m demo_queued demo_connected RwHead)))" by (simp add: demo_state_def)
  qed (simp_all add: fields)
  have 5: "demo_reached (demo_state ?m demo_queued demo_connected RwWait) [(1, demo_command)] []"
    by (rule demo_worked [OF 4 demo_worker(1)]) (simp_all add: kept_event drops_kept idle)
  have 6: "demo_reached (demo_state ?m demo_waits demo_connected (RwStart 1)) [(1, demo_command)] []"
    by (rule demo_worked [OF 5 demo_worker(2)]) (simp_all add: accept_event_def demo_waits_def idle)
  have 7: "demo_reached (demo_state ?m demo_started demo_connected (RwFetch 1)) [(1, demo_command)] []"
    by (rule demo_worked [OF 6 demo_worker(3)]) (simp_all add: kept_event calls_kept demo_started_def idle)
  have 8: "demo_reached (demo_state ?m demo_started demo_connected (RwSubmit 1 demo_command)) [(1, demo_command)] []"
    by (rule demo_worked [OF 7 demo_worker(4)]) (simp_all add: kept_event drops_kept idle)
  have 9: "demo_reached (demo_state ?m demo_started demo_handed (RwAwait 1 0)) [(1, demo_command)] []"
    by (rule demo_worked [OF 8 demo_worker(5)])
      (simp_all add: kept_event drops_kept demo_handed_def enqueue_request_def idle Let_def)
  show ?thesis
  proof (rule demo_next [OF 9])
    show "server_step (demo_state ?m demo_started demo_handed (RwAwait 1 0))
        (demo_state ?m demo_started demo_sending (RwAwait 1 0))"
      unfolding demo_worker(6) [symmetric] by (rule step_robot [OF demo_io_documented])
  qed (simp_all add: fields kept_event drops_kept demo_sending_def demo_handed_def
      enqueue_request_def Let_def)
qed

section \<open>Properties\<close>

text \<open>
  C5. Order of execution: in every run of the server, under every interleaving of its threads, the
  commands the robot worker takes to send to the controller are a subsequence of the commands
  accepted from clients, in the order of acceptance: none is sent twice, none is invented and none
  overtakes another. (Commands may be missing: those of tasks that expired or failed before.)
\<close>

theorem commands_in_order:
  assumes "server_run s h"
  shows "subseq (taken h) (map snd (accepted h))"
proof -
  from run_order [OF assms] obtain R where
    "order_inv (sv_worker s) (tasker_s (sv s)) (accepted h) (handed_over h)"
    and h: "map snd (handed_over h) = taken h @ queued R"
    by (auto simp: order_ok_def)
  then have "subseq (handed_over h) (accepted h)"
    by (intro ordered_subset_subseq) (simp_all add: order_inv_def)
  then have "subseq (map snd (handed_over h)) (map snd (accepted h))" by (rule subseq_map)
  moreover have "subseq (taken h) (map snd (handed_over h))" unfolding h by (simp add: prefix_imp_subseq)
  ultimately show ?thesis by (rule subseq_order.trans [rotated])
qed

theorem commands_in_order_witness:
  "\<exists>s h. server_run s h \<and> taken h = [demo_command] \<and> subseq (taken h) (map snd (accepted h))"
  using demo_run commands_in_order unserved_run_server unfolding demo_reached_def by blast

text \<open>
  C6. What can reach the controller: every command the robot worker ever takes to send was accepted
  from a client; it is the translation of a complete client request of a robot command, its 188
  bytes are one whole message of the protocol, and the controller parses them as exactly the action
  that request asks for, never as an error.
\<close>

theorem only_valid_commands_sent:
  assumes "server_run s h" and "r \<in> set (taken h)"
  shows "r \<in> set (map snd (accepted h)) \<and> length (bytes_RapidRequest r) = 188 \<and>
    (\<exists>req. serves_robot (cmd_type req) \<and> complete_request req \<and> r = request_spec req \<and>
       parse_message (bytes_RapidRequest r) = Execute (expected_action req))"
proof -
  have ok: "order_ok s h" by (rule run_order [OF assms(1)])
  then obtain R where "map snd (handed_over h) = taken h @ queued R" by (auto simp: order_ok_def)
  then have "r \<in> set (map snd (handed_over h))" using assms(2) by simp
  with ok have acc: "r \<in> set (map snd (accepted h))" by (auto simp: order_ok_def order_inv_def)
  with ok have "valid_request r" by (auto simp: order_ok_def)
  with acc show ?thesis by (auto simp: valid_request_def parse_request)
qed

theorem only_valid_commands_sent_witness:
  "\<exists>s h. server_run s h \<and> taken h = [demo_command] \<and> length (bytes_RapidRequest demo_command) = 188 \<and>
     (\<exists>req. parse_message (bytes_RapidRequest demo_command) = Execute (expected_action req))"
proof -
  from demo_run obtain s h where run: "server_run s h" "taken h = [demo_command]"
    using unserved_run_server by (auto simp: demo_reached_def)
  with only_valid_commands_sent [OF run(1), of demo_command] show ?thesis by auto
qed

end
