(* ===== verification/Controller.thy ===== *)
theory Controller
  imports Rapid Server
begin

text \<open>
  Execution of parsed requests by the controller program:
  \<^verbatim>\<open>robert-rapid/OperationModule.mod\<close> with the message loop of
  \<^verbatim>\<open>ServerModule.mod\<close> and the variables of \<^verbatim>\<open>MainModule.mod\<close>. The
  controller's own functions (kinematics, motion, clock) are parameters, and so are its error
  numbers, and whether \<^verbatim>\<open>SocketSend\<close> gets a message out. What is kept is the state
  the program sets, the motion instructions it gives, the messages it sends, and whether an error
  that is handled nowhere has stopped it.
\<close>

section \<open>Controller\<close>

datatype motion =
    Linear RapidRobTarget | Joint RapidRobTarget | Circular RapidRobTarget RapidRobTarget
  | AbsJoint RapidJointTarget

text \<open>The instruction with the speed and zone it is given.\<close>

record instruction =
  in_motion :: motion
  in_speed :: nat
  in_zone :: zonedata

text \<open>
  What the controller's own functions answer while one message is handled; \<open>ce_connected\<close> is the test of
  \<^verbatim>\<open>SocketGetStatus\<close>, \<open>ce_SocketSend\<close> the error of \<^verbatim>\<open>SocketSend\<close> on a message, if any.
\<close>

record controller_env =
  ce_CRobT :: RapidRobTarget
  ce_CJointT :: RapidJointTarget
  ce_CSpeedOverride :: float32
  ce_CTime :: string
  ce_CDate :: string
  ce_Offs :: "RapidRobTarget \<Rightarrow> float32 \<Rightarrow> float32 \<Rightarrow> float32 \<Rightarrow> RapidRobTarget"
  ce_CalcJointT :: "RapidRobTarget \<Rightarrow> nat + RapidJointTarget"
  ce_CalcRobT :: "RapidJointTarget \<Rightarrow> nat + RapidRobTarget"
  ce_Move :: "instruction \<Rightarrow> nat option"
  ce_MaxRobSpeed :: nat
  ce_connected :: bool
  ce_SocketSend :: "byte list \<Rightarrow> nat option"
  ce_ERR_ROBLIMIT :: nat
  ce_ERR_ABSENT :: nat

text \<open>
  \<^verbatim>\<open>move_speed\<close> (its component \<^verbatim>\<open>v_tcp\<close>), \<^verbatim>\<open>move_zone\<close>,
  the instructions given and the messages sent; \<open>stopped\<close> once a procedure without an error handler
  has raised an error, upon which RAPID stops the program.
\<close>

record controller =
  move_speed :: nat
  move_zone :: zonedata
  instructions :: "instruction list"
  sent_msgs :: "byte list list"
  stopped :: bool

definition controller_init :: controller where
  "controller_init = \<lparr>move_speed = 100, move_zone = RZ_fine, instructions = [], sent_msgs = [],
     stopped = False\<rparr>"

section \<open>Workspace\<close>

text \<open>
  A single-precision number in units of \<open>2 ^ -149\<close>, for comparison with the integer limits. A
  comparison with a NaN is false; an infinity lies beyond every limit.
\<close>

definition f32_nan :: "float32 \<Rightarrow> bool" where
  "f32_nan f \<longleftrightarrow> f32_exp f = 255 \<and> unat f mod 2 ^ 23 \<noteq> 0"

definition f32_units :: "float32 \<Rightarrow> int" where
  "f32_units f =
     (let m = int (f32_sig f) * 2 ^ (max 1 (f32_exp f) - 1) in if f32_negative f then - m else m)"

definition num_le :: "float32 \<Rightarrow> int \<Rightarrow> bool" where
  "num_le f c \<longleftrightarrow> \<not> f32_nan f \<and> f32_units f \<le> c * 2 ^ 149"

definition num_gt :: "float32 \<Rightarrow> int \<Rightarrow> bool" where
  "num_gt f c \<longleftrightarrow> \<not> f32_nan f \<and> c * 2 ^ 149 < f32_units f"

text \<open>The corners \<open>[400, -400, 300]\<close> and \<open>[800, 400, 800]\<close>, each moved inwards by the margin of 1.\<close>

definition IsInWorkspace :: "RapidRobTarget \<Rightarrow> bool" where
  "IsInWorkspace t =
     (let p = rt_position t in
      if num_le (pos_x p) (400 + 1) \<or> num_gt (pos_x p) (800 - 1) then False
      else if num_le (pos_y p) (- 400 + 1) \<or> num_gt (pos_y p) (400 - 1) then False
      else if num_le (pos_z p) (300 + 1) \<or> num_gt (pos_z p) (800 - 1) then False
      else True)"

text \<open>Its error handler answers \<^verbatim>\<open>FALSE\<close>; the joint branch only tests that the pose exists.\<close>

definition IsSafeTarget ::
    "controller_env \<Rightarrow> RapidRobTarget option \<Rightarrow> RapidJointTarget option \<Rightarrow> bool" where
  "IsSafeTarget env rtarget jtarget =
     ((case rtarget of
         None \<Rightarrow> True
       | Some t \<Rightarrow>
           if \<not> IsInWorkspace t then False
           else (case ce_CalcJointT env t of Inl errno \<Rightarrow> False | Inr test_joints \<Rightarrow> True)) \<and>
      (case jtarget of
         None \<Rightarrow> True
       | Some j \<Rightarrow>
           (case ce_CalcRobT env j of Inl errno \<Rightarrow> False | Inr test_robtarget \<Rightarrow> True)))"

section \<open>Answers\<close>

text \<open>
  \<^verbatim>\<open>SocketSend\<close> fails with an error number when the connection breaks under it, and the
  two procedures that call it have no error handler: the program stops there, and nothing after the
  call is executed.
\<close>

definition SocketSend :: "controller_env \<Rightarrow> byte list \<Rightarrow> controller \<Rightarrow> controller" where
  "SocketSend env data c =
     (case ce_SocketSend env data of
        None \<Rightarrow> c\<lparr>sent_msgs := sent_msgs c @ [data]\<rparr>
      | Some errno \<Rightarrow> c\<lparr>stopped := True\<rparr>)"

definition SendBinaryResponse :: "controller_env \<Rightarrow> byte list \<Rightarrow> controller \<Rightarrow> controller" where
  "SendBinaryResponse env bin_data c =
     (if stopped c then c
      else if ce_connected env then SocketSend env bin_data c else c)"

definition SendResponse :: "controller_env \<Rightarrow> string \<Rightarrow> controller \<Rightarrow> controller" where
  "SendResponse env status_msg c =
     (if stopped c then c
      else if ce_connected env then SocketSend env (bytes_of_string status_msg) c else c)"

text \<open>Both leave everything but the messages and the stop as it is.\<close>

lemma send_fields [simp]:
  "instructions (SendResponse env msg c) = instructions c"
  "instructions (SendBinaryResponse env bs c) = instructions c"
  "move_speed (SendResponse env msg c) = move_speed c"
  "move_speed (SendBinaryResponse env bs c) = move_speed c"
  "move_zone (SendResponse env msg c) = move_zone c"
  "move_zone (SendBinaryResponse env bs c) = move_zone c"
  by (simp_all add: SendResponse_def SendBinaryResponse_def SocketSend_def split: option.split)

text \<open>The bit pattern of a whole number below \<open>2 ^ 24\<close>.\<close>

fun log2_nat :: "nat \<Rightarrow> nat" where
  "log2_nat n = (if n < 2 then 0 else Suc (log2_nat (n div 2)))"

declare log2_nat.simps [simp del]

definition f32_of_nat :: "nat \<Rightarrow> float32" where
  "f32_of_nat n =
     (if n = 0 then 0
      else (let k = log2_nat n in word_of_nat ((127 + k) * 2 ^ 23 + (n * 2 ^ (23 - k) - 2 ^ 23))))"

definition telemetry_state :: "controller_env \<Rightarrow> controller \<Rightarrow> controller_state" where
  "telemetry_state env c =
     \<lparr>cs_target = ce_CRobT env, cs_joints = ce_CJointT env,
      cs_speed_override = ce_CSpeedOverride env, cs_move_speed = f32_of_nat (move_speed c),
      cs_move_zone = move_zone c, cs_time = ce_CTime env, cs_date = ce_CDate env\<rparr>"

section \<open>Actions\<close>

text \<open>
  The result of a body is the number of the error it raised, if any, beside the state. A motion
  that raises an error has still been instructed.
\<close>

definition do_move :: "controller_env \<Rightarrow> motion \<Rightarrow> string \<Rightarrow> controller \<Rightarrow> nat option \<times> controller" where
  "do_move env m ack c =
     (let i = \<lparr>in_motion = m, in_speed = move_speed c, in_zone = move_zone c\<rparr>;
          c = c\<lparr>instructions := instructions c @ [i]\<rparr> in
      case ce_Move env i of
        Some errno \<Rightarrow> (Some errno, c)
      | None \<Rightarrow> (None, SendResponse env ack c))"

definition move_if_safe ::
    "controller_env \<Rightarrow> bool \<Rightarrow> motion \<Rightarrow> string \<Rightarrow> controller \<Rightarrow> nat option \<times> controller" where
  "move_if_safe env safe m ack c =
     (if safe then do_move env m ack c
      else (None, SendResponse env ''NACK|SINGULARITY_OR_LIMIT'' c))"

text \<open>The target of an offset command: the current pose shifted by the position it carries.\<close>

definition offset_target :: "controller_env \<Rightarrow> RapidRobTarget \<Rightarrow> RapidRobTarget" where
  "offset_target env t =
     (let p = rt_position t in ce_Offs env (ce_CRobT env) (pos_x p) (pos_y p) (pos_z p))"

definition zero_pose :: RapidJointTarget where
  "zero_pose =
     \<lparr>rjt_joints = \<lparr>rj1 = 0, rj2 = 0, rj3 = 0, rj4 = 0, rj5 = 0, rj6 = 0\<rparr>,
      rjt_ext_joints = \<lparr>rj1 = f32_9e9, rj2 = f32_9e9, rj3 = f32_9e9, rj4 = f32_9e9, rj5 = f32_9e9,
        rj6 = f32_9e9\<rparr>\<rparr>"

definition SetSpeed_action :: "controller_env \<Rightarrow> nat option \<Rightarrow> controller \<Rightarrow> controller" where
  "SetSpeed_action env spd c =
     (case spd of
        None \<Rightarrow> SendResponse env ''NACK|MISSING_SPEED'' c
      | Some v \<Rightarrow>
          if v < 5 \<or> ce_MaxRobSpeed env < v then SendResponse env ''NACK|SPEED_OUT_OF_RANGE'' c
          else SendResponse env ''ACK|SetSpeed'' (c\<lparr>move_speed := v\<rparr>))"

definition cartesian_action ::
    "controller_env \<Rightarrow> (RapidRobTarget \<Rightarrow> motion) \<Rightarrow> string \<Rightarrow> RapidRobTarget option \<Rightarrow>
     controller \<Rightarrow> nat option \<times> controller" where
  "cartesian_action env mk ack tgt c =
     (case tgt of
        None \<Rightarrow> (None, SendResponse env ''NACK|MISSING_COORDS'' c)
      | Some t \<Rightarrow> move_if_safe env (IsSafeTarget env (Some t) None) (mk t) ack c)"

definition action_body :: "controller_env \<Rightarrow> rapid_action \<Rightarrow> controller \<Rightarrow> nat option \<times> controller" where
  "action_body env a c =
     (let cmd = action_cmd a; tgt = ra_target_coords a in
      if cmd = ''PING'' then
        (None, SendResponse env
          ''NACK|This ping should be answered at the middleware level, not here!'' c)
      else if cmd = ''PINGR'' then (None, SendResponse env ''ACK|PONGRUWU'' c)
      else if cmd = ''MoveL'' then cartesian_action env Linear ''ACK|MoveL'' tgt c
      else if cmd = ''MoveJ'' then cartesian_action env Joint ''ACK|MoveJ'' tgt c
      else if cmd = ''MoveAbsJ'' then
        (case ra_joint_target a of
           None \<Rightarrow> (None, SendResponse env ''NACK|MISSING_COORDS'' c)
         | Some j \<Rightarrow>
             move_if_safe env (IsSafeTarget env None (Some j)) (AbsJoint j) ''ACK|MoveAbsJ'' c)
      else if cmd = ''MoveC'' then
        (case (tgt, ra_circular_extra_target a) of
           (Some t, Some e) \<Rightarrow>
             move_if_safe env (IsSafeTarget env (Some t) None \<and> IsSafeTarget env (Some e) None)
               (Circular e t) ''ACK|MoveC'' c
         | _ \<Rightarrow> (None, SendResponse env ''NACK|MISSING_COORDS'' c))
      else if cmd = ''SetSpeed'' then (None, SetSpeed_action env (ra_speed a) c)
      else if cmd = ''SetZone'' then
        (case ra_zone a of
           None \<Rightarrow> (Some (ce_ERR_ABSENT env), c)
         | Some z \<Rightarrow> (None, SendResponse env ''ACK|SetZone'' (c\<lparr>move_zone := z\<rparr>)))
      else if cmd = ''ZERO'' then do_move env (AbsJoint zero_pose) ''ACK|ZERO'' c
      else if cmd = ''GETSTATUS'' then
        (None, SendBinaryResponse env (HandleGetState (telemetry_state env c)) c)
      else if cmd = ''MoveLOffs'' then
        cartesian_action env Linear ''ACK|MOVE_L_OFFS'' (map_option (offset_target env) tgt) c
      else if cmd = ''MoveJOffs'' then
        cartesian_action env Joint ''ACK|MOVE_J_OFFS'' (map_option (offset_target env) tgt) c
      else (None, SendResponse env ''NACK|UNKNOWN_COMMAND'' c))"

text \<open>With the error handler, which answers once or twice.\<close>

definition ExecuteAction :: "controller_env \<Rightarrow> rapid_action \<Rightarrow> controller \<Rightarrow> controller" where
  "ExecuteAction env a c =
     (case action_body env a c of
        (None, c) \<Rightarrow> c
      | (Some errno, c) \<Rightarrow>
          let c = (if errno = ce_ERR_ROBLIMIT env
                   then SendResponse env ''NACK|ERROR ON EXECUTION: Kinematic limit reached.'' c else c)
          in SendResponse env (''NACK|ERROR ON EXECUTION: '' @ dec_nat errno) c)"

text \<open>
  One round of \<^verbatim>\<open>HandleClient\<close> on what \<^verbatim>\<open>SocketReceive\<close> delivered (\<open>None\<close>: it
  raised the error of a closed connection; after a timeout it is retried). An error that parsing
  or sending raises is handled nowhere.
\<close>

datatype client_round = Serving controller | Closed controller | Raised controller

definition HandleClient :: "controller_env \<Rightarrow> byte list option \<Rightarrow> controller \<Rightarrow> client_round" where
  "HandleClient env received c =
     (case received of
        None \<Rightarrow> Closed c
      | Some raw \<Rightarrow>
          if raw = [] then Closed c
          else (case parse_message raw of
                  TooShort \<Rightarrow> Serving c
                | RapidError \<Rightarrow> Raised c
                | Execute a \<Rightarrow>
                    let c = ExecuteAction env a c in if stopped c then Raised c else Serving c))"

fun controller_of :: "client_round \<Rightarrow> controller" where
  "controller_of (Serving c) = c"
| "controller_of (Closed c) = c"
| "controller_of (Raised c) = c"

text \<open>The loop: the controller's functions may answer differently in each round.\<close>

fun serve_client :: "(controller_env \<times> byte list option) list \<Rightarrow> controller \<Rightarrow> client_round" where
  "serve_client [] c = Serving c"
| "serve_client ((env, received) # rounds) c =
     (case HandleClient env received c of
        Serving c \<Rightarrow> serve_client rounds c
      | r \<Rightarrow> r)"

text \<open>
  The accept loop on the rounds of each client in turn (a time-out or a socket error is retried),
  and \<^verbatim>\<open>main\<close>, which first moves to the zero pose.
\<close>

fun SocketServerTask :: "(controller_env \<times> byte list option) list list \<Rightarrow> controller \<Rightarrow> client_round"
  where
  "SocketServerTask [] c = Closed c"
| "SocketServerTask (rounds # clients) c =
     (case serve_client rounds c of
        Raised c \<Rightarrow> Raised c
      | r \<Rightarrow> SocketServerTask clients (controller_of r))"

definition controller_main ::
    "controller_env \<Rightarrow> (controller_env \<times> byte list option) list list \<Rightarrow> client_round" where
  "controller_main env clients =
     (let i = \<lparr>in_motion = AbsJoint zero_pose, in_speed = 100, in_zone = RZ_fine\<rparr>;
          c = controller_init\<lparr>instructions := [i]\<rparr> in
      case ce_Move env i of
        Some errno \<Rightarrow> Raised c
      | None \<Rightarrow> SocketServerTask clients c)"

section \<open>How often the controller answers\<close>

text \<open>The message is an acknowledgement, a refusal, or the status packet.\<close>

definition answer_form :: "controller_env \<Rightarrow> controller \<Rightarrow> byte list \<Rightarrow> bool" where
  "answer_form env c m \<longleftrightarrow>
     starts_with ''ACK|'' (string_of_bytes m) \<or> starts_with ''NACK|'' (string_of_bytes m) \<or>
     m = HandleGetState (telemetry_state env c)"

text \<open>
  The messages \<open>ms\<close> are sent one after the other while the connection is up: up to the first that
  \<^verbatim>\<open>SocketSend\<close> does not get out, which stops the program.
\<close>

definition sends :: "controller_env \<Rightarrow> controller \<Rightarrow> byte list list \<Rightarrow> controller \<Rightarrow> bool" where
  "sends env c ms c' \<longleftrightarrow>
     (let out = takeWhile (\<lambda>m. ce_SocketSend env m = None) ms in
      if ce_connected env then sent_msgs c' = sent_msgs c @ out \<and> (stopped c' \<longleftrightarrow> out \<noteq> ms)
      else sent_msgs c' = sent_msgs c \<and> \<not> stopped c')"

lemma sends_none: "sent_msgs c' = sent_msgs c \<Longrightarrow> \<not> stopped c' \<Longrightarrow> sends env c [] c'"
  by (simp add: sends_def)

lemma takeWhile_all [simp]: "takeWhile (\<lambda>x. True) xs = xs"
  by (simp add: takeWhile_eq_all_conv)

lemma takeWhile_not_longer: "takeWhile P xs \<noteq> xs @ [x]"
  using length_takeWhile_le [of P xs] by (metis Suc_n_not_le_n length_append_singleton)

lemma sends_one:
  assumes "sends env c ms c1"
  shows "sends env c (ms @ [bytes_of_string msg]) (SendResponse env msg c1)"
    and "sends env c (ms @ [bs]) (SendBinaryResponse env bs c1)"
  using assms
  by (auto simp: sends_def SendResponse_def SendBinaryResponse_def SocketSend_def Let_def
      takeWhile_eq_all_conv takeWhile_append takeWhile_not_longer split: option.split)

text \<open>A body that raises no error answers once; one that raises an error has not answered yet.\<close>

definition answered :: "controller_env \<Rightarrow> controller \<Rightarrow> nat option \<times> controller \<Rightarrow> bool" where
  "answered env c r \<longleftrightarrow>
     (case fst r of
        None \<Rightarrow> \<exists>m. sends env c [m] (snd r) \<and> answer_form env c m
      | Some errno \<Rightarrow> sends env c [] (snd r))"

named_theorems answers \<open>every branch of an action answers once\<close>

lemma send_answers [answers]:
  assumes "\<not> stopped c'" and "sent_msgs c' = sent_msgs c"
    and "starts_with ''ACK|'' msg \<or> starts_with ''NACK|'' msg"
  shows "answered env c (None, SendResponse env msg c')"
  using assms sends_one(1) [OF sends_none [OF assms(2,1)], of env msg]
  by (auto simp: answered_def answer_form_def)

lemma move_answers [answers]:
  assumes "\<not> stopped c" and "starts_with ''ACK|'' ack"
  shows "answered env c (do_move env m ack c)"
proof -
  let ?c = "c\<lparr>instructions := instructions c @
    [\<lparr>in_motion = m, in_speed = move_speed c, in_zone = move_zone c\<rparr>]\<rparr>"
  have "answered env c (None, SendResponse env ack ?c)" by (rule send_answers) (use assms in simp_all)
  moreover have "answered env c (Some e, ?c)" for e
    using assms(1) by (simp add: answered_def sends_none)
  ultimately show ?thesis by (simp add: do_move_def Let_def split: option.split)
qed

lemma safe_move_answers [answers]:
  assumes "\<not> stopped c" and "starts_with ''ACK|'' ack"
  shows "answered env c (move_if_safe env safe m ack c)"
  using assms by (simp add: move_if_safe_def answers starts_with_def)

lemma cartesian_answers [answers]:
  assumes "\<not> stopped c" and "starts_with ''ACK|'' ack"
  shows "answered env c (cartesian_action env mk ack t c)"
  using assms by (simp add: cartesian_action_def answers starts_with_def split: option.split)

lemma speed_answers [answers]:
  assumes "\<not> stopped c"
  shows "answered env c (None, SetSpeed_action env v c)"
  using assms by (simp add: SetSpeed_action_def answers starts_with_def split: option.split)

lemma status_answers [answers]:
  assumes "\<not> stopped c"
  shows "answered env c (None, SendBinaryResponse env (HandleGetState (telemetry_state env c)) c)"
  using sends_one(2) [OF sends_none [OF refl assms], of env "HandleGetState (telemetry_state env c)"]
  by (auto simp: answered_def answer_form_def)

lemma body_answers:
  assumes "\<not> stopped c"
  shows "answered env c (action_body env a c)"
proof -
  have absent: "answered env c (Some e, c)" for e using assms by (simp add: answered_def sends_none)
  from assms show ?thesis
    by (simp add: action_body_def Let_def answers absent starts_with_def split: option.split)
qed

lemma execute_answers:
  assumes "\<not> stopped c" and "action_body env a c = (r, c')"
  shows "\<exists>ms. sends env c ms (ExecuteAction env a c) \<and>
    length ms = (if r = Some (ce_ERR_ROBLIMIT env) then 2 else 1) \<and>
    (\<forall>m \<in> set ms. answer_form env c m) \<and>
    (r \<noteq> None \<longrightarrow> (\<forall>m \<in> set ms. starts_with ''NACK|'' (string_of_bytes m)))"
proof (cases r)
  case None
  with body_answers [OF assms(1), of env a] assms(2) obtain m where
    "sends env c [m] c'" "answer_form env c m" by (auto simp: answered_def)
  with None assms(2) show ?thesis by (intro exI [of _ "[m]"]) (simp add: ExecuteAction_def)
next
  case (Some e)
  with body_answers [OF assms(1), of env a] assms(2) have c': "sends env c [] c'"
    by (simp add: answered_def)
  let ?limit = "''NACK|ERROR ON EXECUTION: Kinematic limit reached.''"
    and ?err = "''NACK|ERROR ON EXECUTION: '' @ dec_nat e"
  have nack: "starts_with ''NACK|'' ?limit" "starts_with ''NACK|'' ?err" by (simp_all add: starts_with_def)
  show ?thesis
  proof (cases "e = ce_ERR_ROBLIMIT env")
    case True
    with Some assms(2) sends_one(1) [OF sends_one(1) [OF c', of ?limit], of ?err] nack show ?thesis
      by (intro exI [of _ "[bytes_of_string ?limit] @ [bytes_of_string ?err]"])
        (simp add: ExecuteAction_def answer_form_def)
  next
    case False
    with Some assms(2) sends_one(1) [OF c', of ?err] nack show ?thesis
      by (intro exI [of _ "[bytes_of_string ?err]"])
        (simp add: ExecuteAction_def answer_form_def)
  qed
qed

section \<open>Workspace\<close>

definition f32_real :: "float32 \<Rightarrow> real" where
  "f32_real f = real_of_int (f32_units f) / 2 ^ 149"

lemma num_le_real: "\<not> f32_nan f \<Longrightarrow> num_le f c = (f32_real f \<le> real_of_int c)"
proof -
  have "f32_units f \<le> c * 2 ^ 149 \<longleftrightarrow> real_of_int (f32_units f) \<le> real_of_int c * 2 ^ 149"
    by (metis of_int_le_iff of_int_mult of_int_numeral of_int_power)
  then show "\<not> f32_nan f \<Longrightarrow> ?thesis" by (simp add: num_le_def f32_real_def divide_le_eq)
qed

lemma num_gt_real: "\<not> f32_nan f \<Longrightarrow> num_gt f c = (real_of_int c < f32_real f)"
proof -
  have "c * 2 ^ 149 < f32_units f \<longleftrightarrow> real_of_int c * 2 ^ 149 < real_of_int (f32_units f)"
    by (metis of_int_less_iff of_int_mult of_int_numeral of_int_power)
  then show "\<not> f32_nan f \<Longrightarrow> ?thesis" by (simp add: num_gt_def f32_real_def less_divide_eq)
qed

text \<open>A target whose coordinates are numbers lies in the box.\<close>

definition in_box :: "RapidRobTarget \<Rightarrow> bool" where
  "in_box t =
     (let p = rt_position t in
      (f32_nan (pos_x p) \<or> 401 < f32_real (pos_x p) \<and> f32_real (pos_x p) \<le> 799) \<and>
      (f32_nan (pos_y p) \<or> - 399 < f32_real (pos_y p) \<and> f32_real (pos_y p) \<le> 399) \<and>
      (f32_nan (pos_z p) \<or> 301 < f32_real (pos_z p) \<and> f32_real (pos_z p) \<le> 799))"

lemma workspace_box: "IsInWorkspace t \<Longrightarrow> in_box t"
  by (auto simp: IsInWorkspace_def in_box_def Let_def num_le_real num_gt_real not_le not_less
      split: if_splits)

text \<open>Cartesian motions go to targets in the box; a joint motion goes anywhere, see below.\<close>

fun motion_in_box :: "motion \<Rightarrow> bool" where
  "motion_in_box (Linear t) = in_box t"
| "motion_in_box (Joint t) = in_box t"
| "motion_in_box (Circular e t) = (in_box e \<and> in_box t)"
| "motion_in_box (AbsJoint j) = True"

definition all_in_box :: "controller \<Rightarrow> bool" where
  "all_in_box c \<longleftrightarrow> (\<forall>i \<in> set (instructions c). motion_in_box (in_motion i))"

named_theorems boxed \<open>instructions stay in the box\<close>

lemma send_boxed [boxed]:
  "all_in_box (SendResponse env msg c) = all_in_box c"
  "all_in_box (SendBinaryResponse env bs c) = all_in_box c"
  "all_in_box (c\<lparr>move_zone := z\<rparr>) = all_in_box c"
  "all_in_box (c\<lparr>move_speed := v\<rparr>) = all_in_box c"
  by (simp_all add: all_in_box_def)

lemma move_boxed [boxed]:
  "all_in_box c \<Longrightarrow> motion_in_box m \<Longrightarrow> all_in_box (snd (do_move env m ack c))"
  by (auto simp: do_move_def all_in_box_def Let_def split: option.split)

lemma safe_move_boxed [boxed]:
  "all_in_box c \<Longrightarrow> (safe \<Longrightarrow> motion_in_box m) \<Longrightarrow> all_in_box (snd (move_if_safe env safe m ack c))"
  by (simp add: move_if_safe_def boxed)

lemma safe_target_box: "IsSafeTarget env (Some t) None \<Longrightarrow> in_box t"
  by (auto simp: IsSafeTarget_def split: if_splits intro: workspace_box)

lemma cartesian_boxed [boxed]:
  assumes "all_in_box c" and "\<And>t. in_box t \<Longrightarrow> motion_in_box (mk t)"
  shows "all_in_box (snd (cartesian_action env mk ack t c))"
  using assms by (auto simp: cartesian_action_def boxed split: option.split intro!: boxed dest: safe_target_box)

lemma speed_boxed [boxed]: "all_in_box (SetSpeed_action env v c) = all_in_box c"
  by (simp add: SetSpeed_action_def boxed split: option.split)

lemma body_boxed:
  assumes "all_in_box c"
  shows "all_in_box (snd (action_body env a c))"
proof -
  have circ: "all_in_box (snd (move_if_safe env (IsSafeTarget env (Some t) None \<and> IsSafeTarget env (Some e) None)
      (Circular e t) ack c))" for e t ack
    using assms by (intro boxed) (auto dest: safe_target_box)
  from assms show ?thesis
    by (simp add: action_body_def Let_def boxed circ split: option.split)
qed

lemma execute_boxed: "all_in_box c \<Longrightarrow> all_in_box (ExecuteAction env a c)"
  using body_boxed [of c env a]
  by (auto simp: ExecuteAction_def boxed Let_def split: prod.split option.split)

lemma serve_boxed: "all_in_box c \<Longrightarrow> all_in_box (controller_of (serve_client rounds c))"
proof (induction rounds c rule: serve_client.induct)
  case (2 env received rounds c)
  have "all_in_box (controller_of (HandleClient env received c))"
    using "2.prems" by (auto simp: HandleClient_def execute_boxed Let_def split: option.split parse_result.split)
  with "2.IH" show ?case by (auto split: client_round.split)
qed simp

lemma clients_boxed: "all_in_box c \<Longrightarrow> all_in_box (controller_of (SocketServerTask clients c))"
proof (induction clients arbitrary: c)
  case (Cons rounds clients)
  then have "all_in_box (controller_of (serve_client rounds c))" by (simp add: serve_boxed)
  with Cons.IH show ?case by (auto split: client_round.split)
qed simp

lemma main_boxed: "all_in_box (controller_of (controller_main env clients))"
proof -
  have "all_in_box (controller_init\<lparr>instructions :=
      [\<lparr>in_motion = AbsJoint zero_pose, in_speed = 100, in_zone = RZ_fine\<rparr>]\<rparr>)"
    by (simp add: all_in_box_def)
  then show ?thesis by (simp add: controller_main_def clients_boxed Let_def split: option.split)
qed

section \<open>What a motion command does\<close>

text \<open>The motion a client's request asks for.\<close>

definition requested_motion :: "controller_env \<Rightarrow> DecodedRequest \<Rightarrow> motion option" where
  "requested_motion env d =
     (case cmd_type d of
        MOVE_L \<Rightarrow> Some (Linear (robtarget_to_rapid (the (target d))))
      | MOVE_J \<Rightarrow> Some (Joint (robtarget_to_rapid (the (target d))))
      | MOVE_C \<Rightarrow> Some (Circular (robtarget_to_rapid (the (extra_target d)))
          (robtarget_to_rapid (the (target d))))
      | MOVE_ABS_J \<Rightarrow> Some (AbsJoint (jointtarget_to_rapid (the (joint_target d))))
      | MOVE_L_OFFS \<Rightarrow> Some (Linear (offset_target env (robtarget_to_rapid (the (target d)))))
      | MOVE_J_OFFS \<Rightarrow> Some (Joint (offset_target env (robtarget_to_rapid (the (target d)))))
      | ZERO \<Rightarrow> Some (AbsJoint zero_pose)
      | _ \<Rightarrow> None)"

lemma body_motion:
  assumes "requested_motion env d = Some m"
  shows "\<exists>safe ack. starts_with ''ACK|'' ack \<and>
    action_body env (expected_action d) c = move_if_safe env safe m ack c"
proof -
  have "do_move env (AbsJoint zero_pose) ack c = move_if_safe env True (AbsJoint zero_pose) ack c" for ack
    by (simp add: move_if_safe_def)
  with assms show ?thesis
    by (cases "cmd_type d")
      (auto simp: requested_motion_def action_body_def expected_action_def plain_action_def
        cartesian_action_def Let_def starts_with_def intro!: exI)
qed

lemma send_cases:
  "sent_msgs (SendResponse env msg c) = sent_msgs c \<or>
   sent_msgs (SendResponse env msg c) = sent_msgs c @ [bytes_of_string msg]"
  by (simp add: SendResponse_def SocketSend_def split: option.split)

lemma refused_first:
  assumes "c' = SendResponse env m2 (if b then SendResponse env m1 c else c)"
    and "starts_with ''NACK|'' m1" and "starts_with ''NACK|'' m2"
    and "length (sent_msgs c) < length (sent_msgs c')"
  shows "starts_with ''NACK|'' (string_of_bytes (sent_msgs c' ! length (sent_msgs c)))"
    and "instructions c' = instructions c"
  using assms send_cases [of env m1 c] send_cases [of env m2 "if b then SendResponse env m1 c else c"]
  by (auto simp: nth_append split: if_splits)

text \<open>What is sent first tells what became of the motion.\<close>

lemma motion_outcome:
  assumes "length (sent_msgs c) < length (sent_msgs c')" and "starts_with ''ACK|'' ack"
    and "action_body env a c = move_if_safe env safe m ack c"
    and "c' = ExecuteAction env a c" and "raw = sent_msgs c' ! length (sent_msgs c)"
    and "i = \<lparr>in_motion = m, in_speed = move_speed c, in_zone = move_zone c\<rparr>"
  shows "if safe \<and> ce_Move env i = None
    then starts_with ''ACK|'' (string_of_bytes raw) \<and> instructions c' = instructions c @ [i]
    else starts_with ''NACK|'' (string_of_bytes raw) \<and>
      instructions c' = instructions c @ (if safe then [i] else [])"
proof -
  let ?msg = "''NACK|SINGULARITY_OR_LIMIT''" and ?c = "c\<lparr>instructions := instructions c @ [i]\<rparr>"
  have nack: "starts_with ''NACK|'' ?msg" "starts_with ''NACK|'' (''NACK|ERROR ON EXECUTION: '' @ e)" for e
    by (simp_all add: starts_with_def)
  show ?thesis
  proof (cases "safe \<and> ce_Move env i \<noteq> None")
    case True
    then obtain e where e: "ce_Move env i = Some e" by auto
    with True have "action_body env a c = (Some e, ?c)"
      by (simp add: assms(3,6) move_if_safe_def do_move_def)
    then have "c' = SendResponse env (''NACK|ERROR ON EXECUTION: '' @ dec_nat e)
        (if e = ce_ERR_ROBLIMIT env
         then SendResponse env ''NACK|ERROR ON EXECUTION: Kinematic limit reached.'' ?c else ?c)"
      by (simp add: assms(4) ExecuteAction_def)
    from refused_first [OF this] nack(2) [of "''Kinematic limit reached.''"] nack(2) [of "dec_nat e"] assms(1)
    have "starts_with ''NACK|'' (string_of_bytes raw)" "instructions c' = instructions ?c"
      by (simp_all add: assms(5))
    with True e show ?thesis by simp
  next
    case False
    then have "action_body env a c = (None, if safe then SendResponse env ack ?c else SendResponse env ?msg c)"
      by (auto simp: assms(3,6) move_if_safe_def do_move_def)
    then have "c' = (if safe then SendResponse env ack ?c else SendResponse env ?msg c)"
      by (simp add: assms(4) ExecuteAction_def)
    with False assms(1,2,5) nack(1) send_cases [of env ack ?c] send_cases [of env ?msg c] show ?thesis
      by (auto simp: nth_append split: if_splits)
  qed
qed

lemma starts_with_shorter: "starts_with (p @ q) s \<Longrightarrow> starts_with p s"
proof -
  assume "starts_with (p @ q) s"
  then have "take (length p) (take (length (p @ q)) s) = take (length p) (p @ q)"
    by (simp add: starts_with_def)
  then show "starts_with p s" by (simp add: starts_with_def)
qed

lemma prefix_verdicts:
  "starts_with ''ACK|'' s \<Longrightarrow> \<not> starts_with ''ERR:'' s \<and> \<not> starts_with ''NACK'' s"
  "starts_with ''NACK|'' s \<Longrightarrow> starts_with ''NACK'' s"
  using starts_with_shorter [of "''NACK''" "''|''" s]
  by (auto simp: starts_with_def take_Cons' split: if_splits)

lemma handle_request:
  assumes "complete_request d"
  shows "HandleClient env (Some (bytes_RapidRequest (request_spec d))) c =
    (let c' = ExecuteAction env (expected_action d) c in if stopped c' then Raised c' else Serving c')"
proof -
  have "bytes_RapidRequest (request_spec d) \<noteq> []" by (simp add: bytes_RapidRequest_def le8_def)
  then show ?thesis using parse_request [OF assms] by (simp add: HandleClient_def)
qed

lemma handle_serving:
  assumes "complete_request d"
    and "HandleClient env (Some (bytes_RapidRequest (request_spec d))) c = Serving c'"
  shows "c' = ExecuteAction env (expected_action d) c" and "\<not> stopped c'"
  using assms(2) by (simp_all add: handle_request [OF assms(1)] Let_def split: if_splits)

text \<open>A program that goes on had not stopped before, and has sent an answer if it was connected.\<close>

named_theorems halted \<open>a stopped program stays stopped\<close>

lemma send_halted [halted]:
  "stopped c \<Longrightarrow> stopped (SendResponse env msg c)" "stopped c \<Longrightarrow> stopped (SendBinaryResponse env bs c)"
  by (simp_all add: SendResponse_def SendBinaryResponse_def)

lemma move_halted [halted]: "stopped c \<Longrightarrow> stopped (snd (do_move env m ack c))"
  by (simp add: do_move_def halted Let_def split: option.split)

lemma safe_move_halted [halted]: "stopped c \<Longrightarrow> stopped (snd (move_if_safe env safe m ack c))"
  by (simp add: move_if_safe_def halted)

lemma cartesian_halted [halted]: "stopped c \<Longrightarrow> stopped (snd (cartesian_action env mk ack t c))"
  by (simp add: cartesian_action_def halted split: option.split)

lemma speed_halted [halted]: "stopped c \<Longrightarrow> stopped (SetSpeed_action env v c)"
  by (simp add: SetSpeed_action_def halted split: option.split)

lemma body_halted: "stopped c \<Longrightarrow> stopped (snd (action_body env a c))"
  by (simp add: action_body_def Let_def halted split: option.split)

lemma execute_stopped: "stopped c \<Longrightarrow> stopped (ExecuteAction env a c)"
  using body_halted [of c env a]
  by (auto simp: ExecuteAction_def halted Let_def split: prod.split option.split)

lemma serving_answers:
  assumes "ce_connected env" and "\<not> stopped (ExecuteAction env a c)"
  shows "length (sent_msgs c) < length (sent_msgs (ExecuteAction env a c))"
proof -
  obtain e c1 where "action_body env a c = (e, c1)" by fastforce
  moreover have "\<not> stopped c" using assms(2) execute_stopped by blast
  ultimately obtain ms where "sends env c ms (ExecuteAction env a c)"
    "length ms = (if e = Some (ce_ERR_ROBLIMIT env) then 2 else 1)"
    using execute_answers by blast
  moreover from this(2) have "ms \<noteq> []" by (auto split: if_splits)
  ultimately show ?thesis using assms by (cases ms) (auto simp: sends_def Let_def split: option.splits)
qed

lemma execute_serves:
  assumes "\<not> stopped c" and "\<And>m. ce_SocketSend env m = None"
  shows "\<not> stopped (ExecuteAction env a c)"
proof -
  obtain e c1 where "action_body env a c = (e, c1)" by fastforce
  with execute_answers [OF assms(1)] obtain ms where "sends env c ms (ExecuteAction env a c)" by blast
  with assms(2) show ?thesis by (simp add: sends_def split: if_splits)
qed

lemma handle_serves:
  assumes "complete_request d" and "\<not> stopped c" and "\<And>m. ce_SocketSend env m = None"
  shows "HandleClient env (Some (bytes_RapidRequest (request_spec d))) c =
    Serving (ExecuteAction env (expected_action d) c)"
  using execute_serves [OF assms(2,3)] by (simp add: handle_request [OF assms(1)])

lemma motion_answer_nonempty:
  assumes "complete_request d" and "requested_motion env d = Some m" and "ce_connected env"
    and "HandleClient env (Some (bytes_RapidRequest (request_spec d))) c = Serving c'"
  shows "sent_msgs c' ! length (sent_msgs c) \<noteq> []"
proof -
  let ?raw = "sent_msgs c' ! length (sent_msgs c)"
  note c' = handle_serving [OF assms(1,4)]
  obtain safe ack where "starts_with ''ACK|'' ack"
    "action_body env (expected_action d) c = move_if_safe env safe m ack c"
    using body_motion [OF assms(2)] by blast
  from motion_outcome [OF _ this c'(1) refl refl] serving_answers [OF assms(3)] c'
  have "starts_with ''ACK|'' (string_of_bytes ?raw) \<or> starts_with ''NACK|'' (string_of_bytes ?raw)"
    by (auto split: if_splits)
  then show ?thesis by (auto simp: starts_with_def string_of_bytes_def)
qed

section \<open>Reported settings\<close>

lemma log2_bounds: "0 < n \<Longrightarrow> 2 ^ log2_nat n \<le> n \<and> n < 2 ^ (log2_nat n + 1)"
proof (induction n rule: log2_nat.induct)
  case (1 n)
  show ?case
  proof (cases "n < 2")
    case True
    with "1.prems" have "n = 1" by simp
    then show ?thesis by (simp add: log2_nat.simps)
  next
    case False
    then have "0 < n div 2" by simp
    with "1.IH" [OF False] False show ?thesis by (subst (1 2) log2_nat.simps) auto
  qed
qed

lemma f32_of_nat_trunc:
  assumes "n < 2 ^ 24"
  shows "f32_trunc (f32_of_nat n) = Some (int n)"
proof (cases "n = 0")
  case True
  then show ?thesis by (simp add: f32_of_nat_def f32_magnitude_zero)
next
  case False
  define k where "k = log2_nat n"
  have b: "2 ^ k \<le> n" "n < 2 ^ (k + 1)" using log2_bounds [of n] False by (simp_all add: k_def)
  have "(2 :: nat) ^ k < 2 ^ 24" using b(1) assms by (rule le_less_trans)
  then have "k < 24" by (rule power_less_imp_less_exp [rotated]) simp
  then have k: "k \<le> 23" by simp
  define m where "m = n * 2 ^ (23 - k) - 2 ^ 23"
  have p: "(2 :: nat) ^ k * 2 ^ (23 - k) = 2 ^ 23" using k by (simp add: power_add [symmetric])
  have lo: "2 ^ 23 \<le> n * 2 ^ (23 - k)"
    using b(1) p by (metis mult_le_mono1)
  have "n * 2 ^ (23 - k) < 2 ^ (k + 1) * 2 ^ (23 - k)" using b(2) by simp
  also have "2 ^ (k + 1) * 2 ^ (23 - k) = 2 * (2 ^ k * 2 ^ (23 - k) :: nat)" by simp
  finally have hi: "n * 2 ^ (23 - k) < 2 ^ 24" unfolding p by simp
  have m: "m < 2 ^ 23" "m + 2 ^ 23 = n * 2 ^ (23 - k)" using lo hi by (simp_all add: m_def)
  have "(127 + k) * 2 ^ 23 + m < 2 ^ 31"
  proof -
    have "(127 + k) * 2 ^ 23 \<le> 150 * 2 ^ 23" using k by simp
    with m(1) show ?thesis by simp
  qed
  moreover have word: "f32_of_nat n = word_of_nat ((127 + k) * 2 ^ 23 + m)"
    using False unfolding m_def k_def f32_of_nat_def Let_def by (rule if_not_P)
  moreover have small: "unat (word_of_nat x :: u32) = x" if "x < 2 ^ 31" for x
    using that by (simp add: unat_of_nat take_bit_nat_eq_self)
  ultimately have u: "unat (f32_of_nat n) = (127 + k) * 2 ^ 23 + m" by (simp only: word small)
  have ex: "f32_exp (f32_of_nat n) = 127 + k"
    using m(1) k by (simp add: f32_exp_def drop_bit_eq_div unat_div u)
  have sg: "f32_sig (f32_of_nat n) = n * 2 ^ (23 - k)"
  proof -
    have "((127 + k) * 2 ^ 23 + m) mod 2 ^ 23 = m" using m(1) by (simp only: mod_mult_self3 mod_less)
    with m(2) show ?thesis by (simp add: f32_sig_def ex u)
  qed
  have "f32_magnitude (f32_of_nat n) = n"
  proof (cases "k = 23")
    case True
    then show ?thesis by (simp add: f32_magnitude_def ex sg Let_def)
  next
    case False
    with k have "\<not> 150 \<le> 127 + k" "150 - (127 + k) = 23 - k" by simp_all
    then show ?thesis by (simp add: f32_magnitude_def ex sg Let_def)
  qed
  moreover have "\<not> f32_negative (f32_of_nat n)"
    using \<open>(127 + k) * 2 ^ 23 + m < 2 ^ 31\<close> by (simp add: f32_negative_def u)
  ultimately show ?thesis using k by (simp add: f32_trunc_def ex)
qed

section \<open>Properties\<close>

text \<open>
  C10. The workspace limit holds for every Cartesian motion: from the start of the controller program
  on, whatever bytes any client sends and whatever the controller's kinematics answer, every linear,
  joint-interpolated and circular motion the program instructs has its targets strictly inside the
  box of the two corners (coordinates that are not a number pass the comparisons). Absolute joint
  motions are not checked against the box.
\<close>

theorem workspace_guarded:
  assumes "i \<in> set (instructions (controller_of (controller_main env clients)))"
  shows "case in_motion i of
      Linear t \<Rightarrow> in_box t | Joint t \<Rightarrow> in_box t
    | Circular e t \<Rightarrow> in_box e \<and> in_box t | AbsJoint j \<Rightarrow> True"
proof -
  have "motion_in_box (in_motion i)" using assms main_boxed by (simp add: all_in_box_def)
  then show ?thesis by (cases "in_motion i") simp_all
qed

text \<open>
  C20. One answer for one request, except after a kinematic error: while the connection stays up, a
  running controller program sends one message in answer to a complete request that arrives whole, an acknowledgement, a
  refusal or the status packet; a command that raises an error is answered by refusals only, and one
  that raises the kinematic-limit error by two messages. When \<^verbatim>\<open>SocketSend\<close> fails, the
  program stops with what it sent before; when the connection is down it sends nothing and goes on.
\<close>

theorem controller_answers:
  assumes "complete_request d" and "create_rapid_request d = Inr r" and "\<not> stopped c"
    and "action_body env (expected_action d) c = (e, c1)"
    and "HandleClient env (Some (bytes_RapidRequest r)) c = rnd"
  shows "\<exists>c' ms. length ms = (if e = Some (ce_ERR_ROBLIMIT env) then 2 else 1) \<and>
    (\<forall>m \<in> set ms. answer_form env c m) \<and>
    (e \<noteq> None \<longrightarrow> (\<forall>m \<in> set ms. starts_with ''NACK|'' (string_of_bytes m))) \<and>
    (let out = takeWhile (\<lambda>m. ce_SocketSend env m = None) ms in
      if ce_connected env
      then sent_msgs c' = sent_msgs c @ out \<and> rnd = (if out = ms then Serving c' else Raised c')
      else sent_msgs c' = sent_msgs c \<and> rnd = Serving c')"
proof -
  let ?c = "ExecuteAction env (expected_action d) c"
  have "r = request_spec d" using create_rapid_request_complete [OF assms(1)] assms(2) by simp
  with assms(1,5) have "rnd = (if stopped ?c then Raised ?c else Serving ?c)"
    by (simp add: handle_request Let_def)
  moreover obtain ms where "sends env c ms ?c"
    "length ms = (if e = Some (ce_ERR_ROBLIMIT env) then 2 else 1)"
    "\<forall>m \<in> set ms. answer_form env c m"
    "e \<noteq> None \<longrightarrow> (\<forall>m \<in> set ms. starts_with ''NACK|'' (string_of_bytes m))"
    using execute_answers [OF assms(3,4)] by blast
  ultimately show ?thesis
    by (intro exI [of _ ?c] exI [of _ ms]) (auto simp: sends_def Let_def)
qed

text \<open>
  The two ends agree on what happened: for a complete motion command the task is completed if and
  only if the controller gave exactly the instruction the client asked for, with its current speed
  and zone, and the motion raised no error; it is failed if and only if the instruction was not
  given, or was given and raised an error.
\<close>

lemma completed_means_moved:
  assumes "complete_request d" and "requested_motion env d = Some m" and "ce_connected env"
    and "HandleClient env (Some (bytes_RapidRequest (request_spec d))) c = Serving c'"
    and "raw = sent_msgs c' ! length (sent_msgs c)"
    and "i = \<lparr>in_motion = m, in_speed = move_speed c, in_zone = move_zone c\<rparr>"
    and "getTask k T = Some t" and "m_state t = IN_PROGRESS"
  shows "\<exists>t'. getTask k (finish_task now k raw T) = Some t' \<and>
    (m_state t' = COMPLETED \<longleftrightarrow> instructions c' = instructions c @ [i] \<and> ce_Move env i = None) \<and>
    (m_state t' = FAILED \<longleftrightarrow> instructions c' = instructions c \<or> ce_Move env i \<noteq> None)"
proof -
  note c' = handle_serving [OF assms(1,4)]
  have new: "length (sent_msgs c) < length (sent_msgs c')"
    using serving_answers [OF assms(3)] c' by simp
  obtain safe ack where "starts_with ''ACK|'' ack"
    "action_body env (expected_action d) c = move_if_safe env safe m ack c"
    using body_motion [OF assms(2)] by blast
  note outcome = motion_outcome [OF new this c'(1) assms(5,6)]
  show ?thesis
  proof (cases "safe \<and> ce_Move env i = None")
    case True
    with outcome prefix_verdicts assms(7,8) show ?thesis
      by (simp add: finish_task_def completeTask_get markCompleted_def Let_def)
  next
    case False
    with outcome prefix_verdicts assms(7,8) show ?thesis
      by (auto simp: finish_task_def failTask_get markFailed_def Let_def split: if_splits)
  qed
qed

definition demo_ctl :: controller_env where
  "demo_ctl =
     \<lparr>ce_CRobT = zero_target, ce_CJointT = zero_pose, ce_CSpeedOverride = 0x42C80000,
      ce_CTime = ''12:30:59'', ce_CDate = ''2025-11-18'', ce_Offs = (\<lambda>t x y z. t),
      ce_CalcJointT = (\<lambda>t. Inr zero_pose), ce_CalcRobT = (\<lambda>j. Inr zero_target),
      ce_Move = (\<lambda>i. Some 40), ce_MaxRobSpeed = 5000, ce_connected = True,
      ce_SocketSend = (\<lambda>m. None),
      ce_ERR_ROBLIMIT = 40, ce_ERR_ABSENT = 41\<rparr>"

definition demo_decoded_zero :: DecodedRequest where
  "demo_decoded_zero = DecodedRequest_default\<lparr>cmd_type := ZERO\<rparr>"

lemma demo_decoded_zero_complete: "complete_request demo_decoded_zero"
  by (simp add: demo_decoded_zero_def complete_request_def uses_target_def)

lemma demo_ctl_fields:
  "ce_ERR_ROBLIMIT demo_ctl = 40" "ce_connected demo_ctl" "ce_SocketSend demo_ctl m = None"
  "sent_msgs controller_init = []" "instructions controller_init = []" "\<not> stopped controller_init"
  by (simp_all add: demo_ctl_def controller_init_def)

text \<open>A linear motion to \<open>(500, 0, 500)\<close>.\<close>

definition demo_linear :: DecodedRequest where
  "demo_linear = DecodedRequest_default\<lparr>cmd_type := MOVE_L, target := Some (RobTargetBridge_default
     \<lparr>tb_position_m := RobPosition_new 0x43FA0000 0 0x43FA0000\<rparr>)\<rparr>"

text \<open>A controller whose motions succeed.\<close>

definition demo_calm :: controller_env where
  "demo_calm = demo_ctl\<lparr>ce_Move := (\<lambda>i. None)\<rparr>"

theorem workspace_guarded_witness:
  "\<exists>t. map in_motion (instructions (controller_of (controller_main demo_calm
     [[(demo_ctl, Some (bytes_RapidRequest (request_spec demo_linear)))]]))) =
     [AbsJoint zero_pose, Linear t] \<and> in_box t"
proof -
  let ?rounds = "[(demo_ctl, Some (bytes_RapidRequest (request_spec demo_linear)))]"
  let ?t = "robtarget_to_rapid (the (target demo_linear))"
  let ?i = "\<lparr>in_motion = Linear ?t, in_speed = 100, in_zone = RZ_fine\<rparr>"
  let ?z = "\<lparr>in_motion = AbsJoint zero_pose, in_speed = 100, in_zone = RZ_fine\<rparr>"
  let ?c = "controller_init\<lparr>instructions := [?z]\<rparr>"
  have "complete_request demo_linear"
    by (simp add: demo_linear_def complete_request_def uses_target_def)
  then have r: "controller_of (controller_main demo_calm [?rounds]) =
      ExecuteAction demo_ctl (expected_action demo_linear) ?c"
    by (simp add: controller_main_def demo_calm_def handle_request Let_def split: client_round.split)
  have "IsInWorkspace ?t"
    by (simp add: IsInWorkspace_def demo_linear_def robtarget_to_rapid_def position_to_rapid_def
        RobPosition_new_def num_le_def num_gt_def f32_nan_def f32_units_def f32_exp_def f32_sig_def
        f32_negative_def drop_bit_eq_div unat_div Let_def)
  then have "IsSafeTarget demo_ctl (Some ?t) None" by (simp add: IsSafeTarget_def demo_ctl_def)
  moreover have "action_cmd (expected_action demo_linear) = ''MoveL''"
    "ra_target_coords (expected_action demo_linear) = Some ?t"
    by (simp_all add: expected_action_def plain_action_def demo_linear_def)
  ultimately have "action_body demo_ctl (expected_action demo_linear) ?c =
      do_move demo_ctl (Linear ?t) ''ACK|MoveL'' ?c"
    by (simp add: action_body_def cartesian_action_def move_if_safe_def Let_def)
  then have i: "instructions (ExecuteAction demo_ctl (expected_action demo_linear) ?c) = [?z, ?i]"
    by (simp add: ExecuteAction_def do_move_def demo_ctl_def controller_init_def Let_def)
  then have "in_box ?t"
    using workspace_guarded [of ?i demo_calm "[?rounds]", unfolded r i] by simp
  then show ?thesis unfolding r i by simp
qed

theorem controller_answers_witness:
  "\<exists>c' m1 m2. HandleClient demo_ctl (Some (bytes_RapidRequest (request_spec demo_decoded_zero)))
      controller_init = Serving c' \<and> sent_msgs c' = [m1, m2]"
proof -
  let ?body = "action_body demo_ctl (expected_action demo_decoded_zero) controller_init"
  have e: "fst ?body = Some 40"
    by (simp add: expected_action_def demo_decoded_zero_def action_body_def plain_action_def
        do_move_def demo_ctl_def Let_def)
  have "?body = (Some 40, snd ?body)" using e by (metis prod.collapse)
  from controller_answers [OF demo_decoded_zero_complete
      create_rapid_request_complete [OF demo_decoded_zero_complete] demo_ctl_fields(6) this refl]
  obtain c' ms where "length ms = 2" "sent_msgs c' = ms"
    "HandleClient demo_ctl (Some (bytes_RapidRequest (request_spec demo_decoded_zero)))
      controller_init = Serving c'"
    by (auto simp: demo_ctl_fields(1-5) Let_def)
  then show ?thesis by (auto simp: length_Suc_conv numeral_2_eq_2)
qed

lemma completed_means_moved_witness:
  "\<exists>c'. HandleClient demo_ctl (Some (bytes_RapidRequest (request_spec demo_decoded_zero)))
      controller_init = Serving c' \<and>
    map_option m_state (getTask 1 (finish_task 9 1 (sent_msgs c' ! 0) demo_tasker)) = Some FAILED"
proof -
  obtain c' where c': "HandleClient demo_ctl
      (Some (bytes_RapidRequest (request_spec demo_decoded_zero))) controller_init = Serving c'"
    using handle_serves [OF demo_decoded_zero_complete demo_ctl_fields(6,3)] by blast
  have req: "requested_motion demo_ctl demo_decoded_zero = Some (AbsJoint zero_pose)"
    "ce_connected demo_ctl"
    by (simp_all add: requested_motion_def demo_decoded_zero_def demo_ctl_def)
  let ?t = "(Task_new 0 1 zero_request)\<lparr>m_state := IN_PROGRESS\<rparr>"
  have t: "getTask 1 demo_tasker = Some ?t" "m_state ?t = IN_PROGRESS"
    by (simp_all add: getTask_def demo_tasker_def)
  from completed_means_moved [OF demo_decoded_zero_complete req c' refl refl t, of 9] c'
  show ?thesis by (auto simp: demo_ctl_def controller_init_def)
qed

text \<open>
  C18. Settings come back in the status: after an accepted speed and a zone, the next status packet
  unpacks to a status whose speed is the client's and whose zone is the very number the client sent,
  although (unless that zone is \<open>FINE\<close>) the zone the controller moves with is another one: the
  mismatch of the two tables is invisible to the client.
\<close>

theorem settings_reported:
  assumes "cmd_type ds = SET_SPEED" and "complete_request ds" and "f32_to_u16 (speed ds) = Inr v"
    and "5 \<le> unat v" and "unat v \<le> ce_MaxRobSpeed env"
    and "cmd_type dz = SET_ZONE" and "cmd_type dg = GETSTATUS"
    and "ce_connected env" and "length (ce_CTime env) = 8" and "length (ce_CDate env) = 10"
    and "serve_client (map (\<lambda>d. (env, Some (bytes_RapidRequest (request_spec d)))) [ds, dz, dg]) c
      = Serving c'"
  shows "\<exists>st. unpack_robot_status (last (sent_msgs c')) = Inr (Some st) \<and>
    f32_trunc (current_speed st) = Some (int (unat v)) \<and>
    current_zone st = int (unat (zone_code (zone dz))) \<and>
    (move_zone c' = zone_named (zone dz) \<longleftrightarrow> zone dz = FINE)"
proof -
  have complete: "complete_request dz" "complete_request dg"
    using assms(6,7) by (simp_all add: complete_request_def uses_target_def)
  have "\<exists>z. value_to_zone (unat (zone_code (zone dz))) = Some z \<and>
      zone_to_value z = unat (zone_code (zone dz)) \<and> (z = zone_named (zone dz) \<longleftrightarrow> zone dz = FINE)"
    by (cases "zone dz") (simp_all add: value_to_zone_def)
  then obtain z where z: "value_to_zone (unat (zone_code (zone dz))) = Some z"
    "zone_to_value z = unat (zone_code (zone dz))" "z = zone_named (zone dz) \<longleftrightarrow> zone dz = FINE"
    by blast
  define c1 where "c1 = SendResponse env ''ACK|SetSpeed'' (c\<lparr>move_speed := unat v\<rparr>)"
  define c2 where "c2 = SendResponse env ''ACK|SetZone'' (c1\<lparr>move_zone := z\<rparr>)"
  have "ExecuteAction env (expected_action ds) c = c1"
    using assms(1,3-5) by (simp add: ExecuteAction_def action_body_def expected_action_def
        plain_action_def SetSpeed_action_def c1_def Let_def)
  moreover have "ExecuteAction env (expected_action dz) c1 = c2"
    using assms(6) z(1) by (simp add: ExecuteAction_def action_body_def expected_action_def
        plain_action_def c2_def Let_def)
  moreover have "ExecuteAction env (expected_action dg) c2 =
      SendBinaryResponse env (HandleGetState (telemetry_state env c2)) c2"
    using assms(7) by (simp add: ExecuteAction_def action_body_def expected_action_def
        plain_action_def Let_def)
  ultimately have c': "c' = SendBinaryResponse env (HandleGetState (telemetry_state env c2)) c2"
    "\<not> stopped c'"
    using assms(11) by (simp_all add: handle_request [OF assms(2)] handle_request [OF complete(1)]
        handle_request [OF complete(2)] Let_def split: if_splits)
  have fields: "move_speed c2 = unat v" "move_zone c2 = z" by (simp_all add: c2_def c1_def)
  have "unat v < 2 ^ 16" using unsigned_less [of v] by simp
  then have "unat v < 2 ^ 24" by simp
  note speed_back = f32_of_nat_trunc [OF this]
  have last: "last (sent_msgs c') = HandleGetState (telemetry_state env c2)"
    using assms(8) c'(2)
    by (auto simp: c'(1) SendBinaryResponse_def SocketSend_def split: if_splits option.splits)
  have "length (cs_time (telemetry_state env c2)) = 8" "length (cs_date (telemetry_state env c2)) = 10"
    using assms(9,10) by (simp_all add: telemetry_state_def)
  from status_unpacks [OF this] last speed_back z fields show ?thesis
    by (simp add: telemetry_state_def c'(1))
qed

theorem settings_reported_witness:
  "\<exists>c' st. serve_client (map (\<lambda>d. (demo_ctl, Some (bytes_RapidRequest (request_spec d))))
      [DecodedRequest_default\<lparr>cmd_type := SET_SPEED, speed := 0x42C80000\<rparr>, demo_decoded,
       DecodedRequest_default\<lparr>cmd_type := GETSTATUS\<rparr>]) controller_init = Serving c' \<and>
    unpack_robot_status (last (sent_msgs c')) = Inr (Some st) \<and>
    f32_trunc (current_speed st) = Some 100 \<and> current_zone st = 3"
proof -
  let ?ds = "DecodedRequest_default\<lparr>cmd_type := SET_SPEED, speed := 0x42C80000\<rparr>"
  let ?dg = "DecodedRequest_default\<lparr>cmd_type := GETSTATUS\<rparr>"
  have v: "f32_to_u16 (speed ?ds) = Inr 100"
    by (simp add: f32_to_u16_def f32_trunc_def f32_exp_def f32_magnitude_def f32_sig_def
        f32_negative_def drop_bit_eq_div unat_div Let_def)
  then have complete: "complete_request ?ds" "complete_request demo_decoded" "complete_request ?dg"
    by (simp_all add: complete_request_def uses_target_def demo_decoded_def)
  obtain c' where c': "serve_client (map (\<lambda>d. (demo_ctl, Some (bytes_RapidRequest (request_spec d))))
      [?ds, demo_decoded, ?dg]) controller_init = Serving c'"
    using demo_ctl_fields(3,6) execute_serves
    by (simp add: handle_serves [OF complete(1)] handle_serves [OF complete(2)]
        handle_serves [OF complete(3)])
  have r: "cmd_type ?ds = SET_SPEED" "cmd_type demo_decoded = SET_ZONE" "cmd_type ?dg = GETSTATUS"
    "zone demo_decoded = Z10" "5 \<le> unat (100 :: u16)" "unat (100 :: u16) \<le> ce_MaxRobSpeed demo_ctl"
    "length (ce_CTime demo_ctl) = 8" "length (ce_CDate demo_ctl) = 10"
    by (simp_all add: demo_decoded_def demo_ctl_def)
  from settings_reported [OF r(1) complete(1) v r(5,6,2,3) demo_ctl_fields(2) r(7,8) c'] c' r(4)
  show ?thesis by auto
qed

end
