(* ===== verification/Link.thy ===== *)
theory Link
  imports History Controller
begin

text \<open>
  The server and the controller program joined by their connection: the worker of
  \<^verbatim>\<open>src/robot/robot.cpp\<close> on one side, \<^verbatim>\<open>HandleClient\<close> of
  \<^verbatim>\<open>ServerModule.mod\<close> on the other. What the robot model takes as the results of
  \<^verbatim>\<open>recv\<close> comes here from the controller model; only the network between them is left
  open: into how many pieces a request is cut on its way, and how many bytes of the answers have
  arrived when \<^verbatim>\<open>recv\<close> returns.
\<close>

section \<open>Joint state\<close>

text \<open>
  The controller program serves a connection, waits for one, or has stopped with an error. The
  bytes it has sent that the worker has not received stay in the connection.
\<close>

record link =
  lk_server :: Server
  lk_peer :: client_round
  lk_unread :: "byte list"

definition linked :: "Server \<Rightarrow> bool" where
  "linked s = (case robot_s (sv s) of None \<Rightarrow> False | Some R \<Rightarrow> socket_fd_m R \<noteq> INVALID_SOCKET_FD)"

fun accept_client :: "client_round \<Rightarrow> client_round" where
  "accept_client (Closed c) = Serving c"
| "accept_client r = r"

text \<open>The controller's next \<^verbatim>\<open>SocketReceive\<close> on a connection the server has closed.\<close>

fun hang_up :: "client_round \<Rightarrow> client_round" where
  "hang_up (Serving c) = Closed c"
| "hang_up r = r"

text \<open>A connection is accepted when the server has opened it; closing it discards what was not received.\<close>

definition settle :: "Server \<Rightarrow> client_round \<Rightarrow> byte list \<Rightarrow> link" where
  "settle s peer unread =
     (if linked s then \<lparr>lk_server = s, lk_peer = accept_client peer, lk_unread = unread\<rparr>
      else \<lparr>lk_server = s, lk_peer = hang_up peer, lk_unread = []\<rparr>)"

section \<open>One exchange\<close>

text \<open>The pieces the controller receives, each with its surroundings then, and the bytes of answers that arrive.\<close>

record delivery =
  dl_pieces :: "(controller_env \<times> byte list) list"
  dl_bytes :: nat

definition controller_reads :: "(controller_env \<times> byte list) list \<Rightarrow> client_round \<Rightarrow> client_round" where
  "controller_reads ps r =
     (case r of
        Serving c \<Rightarrow> serve_client (map (\<lambda>(env, raw). (env, Some raw)) ps) c
      | _ \<Rightarrow> r)"

definition answers_between :: "client_round \<Rightarrow> client_round \<Rightarrow> byte list" where
  "answers_between r r' =
     concat (drop (length (sent_msgs (controller_of r))) (sent_msgs (controller_of r')))"

text \<open>\<^verbatim>\<open>recv\<close> of at most \<open>n\<close> bytes when \<open>d\<close> bytes of the stream have arrived; with none it times out.\<close>

definition recv_from :: "byte list \<Rightarrow> nat \<Rightarrow> nat \<Rightarrow> byte list option" where
  "recv_from stream d n = (if d = 0 \<or> stream = [] then None else Some (take (min d n) stream))"

definition stream_after :: "delivery \<Rightarrow> link \<Rightarrow> byte list" where
  "stream_after dl L =
     lk_unread L @ answers_between (lk_peer L) (controller_reads (dl_pieces dl) (lk_peer L))"

definition exchange_io :: "robot_io \<Rightarrow> delivery \<Rightarrow> link \<Rightarrow> robot_io" where
  "exchange_io io dl L = io\<lparr>io_recv := recv_from (stream_after dl L) (dl_bytes dl)\<rparr>"

definition exchange :: "robot_io \<Rightarrow> delivery \<Rightarrow> link \<Rightarrow> link" where
  "exchange io dl L =
     settle (with_robot (worker_loop_step (exchange_io io dl L)) (lk_server L))
       (controller_reads (dl_pieces dl) (lk_peer L))
       (drop (min (dl_bytes dl) 255) (stream_after dl L))"

text \<open>The bytes of a request that the kernel takes from \<^verbatim>\<open>send_request\<close>.\<close>

definition sent_bytes :: "robot_io \<Rightarrow> RapidRequest \<Rightarrow> byte list" where
  "sent_bytes io r = snd (send_loop (io_send io) (bytes_RapidRequest r) 0 [])"

section \<open>Networks\<close>

type_synonym network = "robot_io \<Rightarrow> RapidRequest \<Rightarrow> delivery \<Rightarrow> bool"

text \<open>
  A TCP connection: the pieces are the bytes sent, in order and none of them empty; only when
  \<^verbatim>\<open>recv\<close> gets nothing, so that the server closes the connection, may the rest be lost.
\<close>

definition tcp_network :: network where
  "tcp_network io r dl \<longleftrightarrow>
     (\<forall>p \<in> set (dl_pieces dl). snd p \<noteq> []) \<and>
     (concat (map snd (dl_pieces dl)) = sent_bytes io r \<or>
      dl_bytes dl = 0 \<and> prefix (concat (map snd (dl_pieces dl))) (sent_bytes io r))"

text \<open>Times and dates have their documented length, error numbers are whole numbers of at most seven digits.\<close>

definition env_documented :: "controller_env \<Rightarrow> bool" where
  "env_documented env \<longleftrightarrow>
     length (ce_CTime env) = 8 \<and> length (ce_CDate env) = 10 \<and> ce_ERR_ABSENT env < 10 ^ 7 \<and>
     (\<forall>i errno. ce_Move env i = Some errno \<longrightarrow> errno < 10 ^ 7)"

section \<open>Joint steps\<close>

text \<open>
  The exchange runs when the robot's worker serves an item; every other step is one of the server.
  Of each exchange is recorded what was left over on the connection before it.
\<close>

record exchange_record =
  x_item :: RobotWorkItem
  x_heartbeat :: bool
  x_delivery :: delivery
  x_unread :: "byte list"
  x_before :: client_round
  x_after :: client_round

text \<open>Runs of the joint system under a network, with the server's history and the exchanges made.\<close>

inductive link_run :: "network \<Rightarrow> link \<Rightarrow> history \<Rightarrow> exchange_record list \<Rightarrow> bool" for net where
  link_start: "server_started s \<Longrightarrow>
    link_run net (settle s (controller_main env []) []) no_history []"
| link_other: "link_run net L h xs \<Longrightarrow> server_step (lk_server L) t \<Longrightarrow>
    (serving_point (lk_server L) \<longrightarrow> robot_point t = robot_point (lk_server L)) \<Longrightarrow>
    link_run net (settle t (lk_peer L) (lk_unread L)) (add_events h (lk_server L) t) xs"
| link_exchange: "link_run net L h xs \<Longrightarrow> robot_point (lk_server L) = Serve item hb \<Longrightarrow>
    io_documented io \<Longrightarrow> net io (wi_command item) dl \<Longrightarrow>
    link_run net (exchange io dl L)
      (add_events h (lk_server L) (lk_server (exchange io dl L)))
      (xs @ [\<lparr>x_item = item, x_heartbeat = hb, x_delivery = dl, x_unread = lk_unread L,
              x_before = lk_peer L, x_after = controller_reads (dl_pieces dl) (lk_peer L)\<rparr>])"

lemma settle_fields [simp]:
  "lk_server (settle s peer unread) = s"
  "controller_of (lk_peer (settle s peer unread)) = controller_of peer"
  "lk_unread (settle s peer []) = []"
  by (cases peer; simp add: settle_def)+

text \<open>The joint system only does what the server does: its runs are runs of the server.\<close>

lemma exchange_io_documented: "io_documented io \<Longrightarrow> io_documented (exchange_io io dl L)"
  by (auto simp: io_documented_def exchange_io_def recv_from_def)

lemma link_run_server: "link_run net L h xs \<Longrightarrow> server_run (lk_server L) h"
proof (induction rule: link_run.induct)
  case (link_exchange L h xs item hb io dl)
  from exchange_io_documented [OF link_exchange.hyps(3)]
  have "server_step (lk_server L) (lk_server (exchange io dl L))"
    by (simp add: exchange_def step_robot)
  with link_exchange.IH show ?case by (rule run_step)
qed (auto intro: server_run.intros)

section \<open>What the controller adds\<close>

abbreviation given :: "client_round \<Rightarrow> instruction list" where
  "given r \<equiv> instructions (controller_of r)"

named_theorems grows \<open>instructions are only added\<close>

lemma move_grows [grows]: "prefix (instructions c) (instructions (snd (do_move env m ack c)))"
  by (simp add: do_move_def grows Let_def split: option.split)

lemma safe_move_grows [grows]:
  "prefix (instructions c) (instructions (snd (move_if_safe env safe m ack c)))"
  by (simp add: move_if_safe_def grows)

lemma cartesian_grows [grows]:
  "prefix (instructions c) (instructions (snd (cartesian_action env mk ack t c)))"
  by (simp add: cartesian_action_def grows split: option.split)

lemma speed_grows [grows]: "instructions (SetSpeed_action env v c) = instructions c"
  by (simp add: SetSpeed_action_def grows split: option.split)

lemma body_grows: "prefix (instructions c) (instructions (snd (action_body env a c)))"
  by (simp add: action_body_def Let_def grows split: option.split)

lemma execute_grows: "prefix (instructions c) (instructions (ExecuteAction env a c))"
  using body_grows [of c env a]
  by (auto simp: ExecuteAction_def grows Let_def split: prod.split option.split)

lemma round_grows: "prefix (instructions c) (given (HandleClient env received c))"
  by (simp add: HandleClient_def execute_grows Let_def split: option.split parse_result.split)

lemma serve_grows: "prefix (instructions c) (given (serve_client rounds c))"
proof (induction rounds c rule: serve_client.induct)
  case (2 env received rounds c)
  with round_grows [of c env received] show ?case
    by (auto split: client_round.split intro: prefix_order.trans)
qed simp

lemma reads_grow: "prefix (given r) (given (controller_reads ps r))"
  by (simp add: controller_reads_def serve_grows split: client_round.split)

text \<open>A message makes the program give one instruction at most.\<close>

definition one_more :: "controller \<Rightarrow> controller \<Rightarrow> bool" where
  "one_more c c' \<longleftrightarrow> length (instructions c') \<le> Suc (length (instructions c))"

named_theorems single \<open>at most one instruction is added\<close>

lemma same_single [single]: "instructions c' = instructions c \<Longrightarrow> one_more c c'"
  by (simp add: one_more_def)

lemma move_single [single]: "one_more c (snd (do_move env m ack c))"
  by (simp add: do_move_def one_more_def Let_def split: option.split)

lemma safe_move_single [single]: "one_more c (snd (move_if_safe env safe m ack c))"
  by (simp add: move_if_safe_def single)

lemma cartesian_single [single]: "one_more c (snd (cartesian_action env mk ack t c))"
  by (simp add: cartesian_action_def single split: option.split)

lemma body_single: "one_more c (snd (action_body env a c))"
  by (simp add: action_body_def Let_def single grows split: option.split)

lemma execute_single: "one_more c (ExecuteAction env a c)"
  using body_single [of c env a]
  by (auto simp: ExecuteAction_def one_more_def Let_def split: prod.split option.split)

lemma round_single: "length (given (HandleClient env received c)) \<le> Suc (length (instructions c))"
  using execute_single [of c env]
  by (simp add: HandleClient_def one_more_def Let_def le_SucI split: option.split parse_result.split)

lemma serve_single: "length (given (serve_client rounds c)) \<le> length rounds + length (instructions c)"
proof (induction rounds c rule: serve_client.induct)
  case (2 env received rounds c)
  with round_single [of env received c] show ?case by (force split: client_round.split)
qed simp

lemma reads_single: "length (given (controller_reads ps r)) \<le> length ps + length (given r)"
  using serve_single [of "map (\<lambda>(env, raw). (env, Some raw)) ps"]
  by (cases r) (auto simp: controller_reads_def)

text \<open>A program that serves or waits for a client has not been stopped by an error.\<close>

fun runs_on :: "client_round \<Rightarrow> bool" where
  "runs_on (Serving c) = (\<not> stopped c)"
| "runs_on (Closed c) = (\<not> stopped c)"
| "runs_on (Raised c) = True"

lemma settle_runs [simp]: "runs_on (lk_peer (settle s r unread)) = runs_on r"
  by (cases r) (simp_all add: settle_def)

lemma serve_runs: "\<not> stopped c \<Longrightarrow> runs_on (serve_client rounds c)"
proof (induction rounds c rule: serve_client.induct)
  case (2 env received rounds c)
  have "runs_on (HandleClient env received c)"
    using "2.prems" by (simp add: HandleClient_def Let_def split: option.split parse_result.split)
  with "2.IH" show ?case by (auto split: client_round.split)
qed simp

lemma reads_run: "runs_on r \<Longrightarrow> runs_on (controller_reads ps r)"
  by (cases r) (simp_all add: controller_reads_def serve_runs)

lemma link_runs_on: "link_run net L h xs \<Longrightarrow> runs_on (lk_peer L)"
proof (induction rule: link_run.induct)
  case (link_start s env)
  show ?case
    by (simp add: controller_main_def controller_init_def Let_def split: option.split)
qed (simp_all add: exchange_def reads_run)

section \<open>How much the controller answers\<close>

definition adds :: "nat \<Rightarrow> controller \<Rightarrow> controller \<Rightarrow> bool" where
  "adds n c c' \<longleftrightarrow> (\<exists>new. sent_msgs c' = sent_msgs c @ new \<and> length (concat new) \<le> n)"

lemma adds_refl: "sent_msgs c' = sent_msgs c \<Longrightarrow> adds n c c'"
  by (simp add: adds_def)

lemma adds_trans: "adds m a b \<Longrightarrow> adds n b c \<Longrightarrow> adds (m + n) a c"
  unfolding adds_def by (metis add_mono append.assoc concat_append length_append)

lemma adds_more: "adds m a b \<Longrightarrow> m \<le> n \<Longrightarrow> adds n a b"
  unfolding adds_def using le_trans by blast

named_theorems sized \<open>the size of what is sent\<close>

lemma send_sized [sized]:
  "sent_msgs c' = sent_msgs c \<Longrightarrow> length msg \<le> n \<Longrightarrow> adds n c (SendResponse env msg c')"
  "sent_msgs c' = sent_msgs c \<Longrightarrow> length bs \<le> n \<Longrightarrow> adds n c (SendBinaryResponse env bs c')"
  by (simp_all add: adds_def SendResponse_def SendBinaryResponse_def SocketSend_def split: option.split)

text \<open>A body that raises an error has sent nothing, and the error number is a documented one.\<close>

definition body_sized :: "controller \<Rightarrow> nat option \<times> controller \<Rightarrow> bool" where
  "body_sized c r \<longleftrightarrow>
     (case fst r of
        None \<Rightarrow> adds 171 c (snd r)
      | Some errno \<Rightarrow> sent_msgs (snd r) = sent_msgs c \<and> errno < 10 ^ 7)"

lemma answer_sized [sized]: "adds 171 c c' \<Longrightarrow> body_sized c (None, c')"
  by (simp add: body_sized_def)

lemma move_sized [sized]:
  "env_documented env \<Longrightarrow> length ack \<le> 171 \<Longrightarrow> body_sized c (do_move env m ack c)"
  by (auto simp: do_move_def body_sized_def env_documented_def sized Let_def split: option.split)

lemma safe_move_sized [sized]:
  "env_documented env \<Longrightarrow> length ack \<le> 171 \<Longrightarrow> body_sized c (move_if_safe env safe m ack c)"
  by (simp add: move_if_safe_def sized)

lemma cartesian_sized [sized]:
  "env_documented env \<Longrightarrow> length ack \<le> 171 \<Longrightarrow> body_sized c (cartesian_action env mk ack t c)"
  by (simp add: cartesian_action_def sized split: option.split)

lemma speed_sized [sized]: "adds 171 c (SetSpeed_action env v c)"
  by (simp add: SetSpeed_action_def sized split: option.split)

lemma status_sized [sized]:
  assumes "env_documented env"
  shows "length (HandleGetState (telemetry_state env c)) = 171"
proof -
  have "length (cs_time (telemetry_state env c)) = 8" "length (cs_date (telemetry_state env c)) = 10"
    using assms by (simp_all add: telemetry_state_def env_documented_def)
  then show ?thesis by (simp add: status_layout)
qed

lemma body_answer_sized:
  assumes "env_documented env"
  shows "body_sized c (action_body env a c)"
proof -
  have "body_sized c (Some (ce_ERR_ABSENT env), c)"
    using assms by (simp add: body_sized_def env_documented_def)
  with assms show ?thesis by (simp add: action_body_def Let_def sized split: option.split)
qed

lemma dec_nat_length: "n < 10 ^ Suc k \<Longrightarrow> length (dec_nat n) \<le> Suc k"
proof (induction k arbitrary: n)
  case 0
  then show ?case by (subst dec_nat.simps) simp
next
  case (Suc k)
  then have "n div 10 < 10 ^ Suc k" by simp
  with Suc.IH show ?case by (subst dec_nat.simps) auto
qed

lemma execute_sized:
  assumes "env_documented env"
  shows "adds 255 c (ExecuteAction env a c)"
proof -
  obtain e c1 where b: "action_body env a c = (e, c1)" by fastforce
  note sz = body_answer_sized [OF assms, of c a, unfolded body_sized_def b]
  show ?thesis
  proof (cases e)
    case None
    with sz b show ?thesis by (auto simp: ExecuteAction_def intro: adds_more)
  next
    case (Some errno)
    define c2 where "c2 = (if errno = ce_ERR_ROBLIMIT env
      then SendResponse env ''NACK|ERROR ON EXECUTION: Kinematic limit reached.'' c1 else c1)"
    have "sent_msgs c1 = sent_msgs c" "errno < 10 ^ Suc 6" using sz Some by simp_all
    from dec_nat_length [OF this(2)] have last:
      "adds 100 c2 (SendResponse env (''NACK|ERROR ON EXECUTION: '' @ dec_nat errno) c2)"
      by (intro sized) simp_all
    have "adds 100 c c2"
      using \<open>sent_msgs c1 = sent_msgs c\<close> by (simp add: c2_def sized adds_refl)
    from adds_trans [OF this last] have "adds 200 c (ExecuteAction env a c)"
      using b Some by (simp add: ExecuteAction_def c2_def Let_def)
    then show ?thesis by (rule adds_more) simp
  qed
qed

lemma reads_nothing: "controller_reads [] r = r" "answers_between r r = []"
  by (simp_all add: controller_reads_def answers_between_def split: client_round.split)

section \<open>What an exchange does to the robot\<close>

lemma received_from:
  assumes "io_recv io = recv_from stream d" and "fst (send_and_receive io r R) = Inr v"
  shows "v = take (min d 255) stream \<and> v \<noteq> [] \<and> d \<noteq> 0"
  using assms
  by (auto simp: send_and_receive_def receive_buffer_def recv_from_def
      split: if_splits option.splits prod.splits)

lemma exchange_heartbeat:
  assumes "robot_inv R" and "worker_thread_m R = Serve item True" and "io_documented io"
  shows "promises_m (worker_loop_step io R) = promises_m R \<and>
    pending_items (worker_loop_step io R) = pending_items R"
proof -
  have "framed R" using assms(1) by (simp add: robot_inv_def)
  from serve_heartbeat [OF assms(3) this, of item] assms(2) show ?thesis
    by (auto simp: worker_loop_step_def pending_items_def serving_def)
qed

lemma exchange_item:
  assumes "robot_inv R" and "worker_thread_m R = Serve item False" and "io_documented io"
    and "io_recv io = recv_from stream d"
  shows "\<exists>p v. wi_promise item = Some p \<and> p < length (promises_m R) \<and> promises_m R ! p = None \<and>
    promises_m (worker_loop_step io R) = (promises_m R)[p := Some v] \<and>
    pending_items R = item # pending_items (worker_loop_step io R) \<and>
    (starts_with ''ERR:'' (string_of_bytes v) \<or> v = take (min d 255) stream \<and> v \<noteq> [] \<and> d \<noteq> 0)"
proof -
  have ok: "promises_ok R" "framed R" using assms(1) by (simp_all add: robot_inv_def)
  have pend: "pending_items R = item # request_queue_m R"
    using assms(2) by (simp add: pending_items_def serving_def)
  then obtain p where p: "wi_promise item = Some p" "p < length (promises_m R)" "promises_m R ! p = None"
    using pending_promise [OF ok(1), of item] by auto
  have err: "starts_with ''ERR:'' (''ERR: '' @ e)" for e by (simp add: starts_with_def)
  from serve_item [OF assms(3) ok(2) p(1,3)] obtain v S where
    S: "serve io item False R = (Inr (), S)" "promises_m S = (promises_m R)[p := Some v]"
      "request_queue_m S = request_queue_m R"
      "fst (send_and_receive io (wi_command item) R) = Inr v \<or> starts_with ''ERR:'' (string_of_bytes v)"
    using err by fastforce
  from S(1) assms(2) have "worker_loop_step io R = S\<lparr>worker_thread_m := LoopHead\<rparr>"
    by (simp add: worker_loop_step_def)
  with S(2-4) p pend received_from [OF assms(4)] show ?thesis
    by (auto simp: pending_items_def serving_def)
qed

section \<open>What the other steps do\<close>

lemma worker_quiet:
  assumes "\<forall>item hb. worker_thread_m R \<noteq> Serve item hb"
  shows "promises_m (worker_loop_step io R) = promises_m R \<and>
    pending_items (worker_loop_step io R) = pending_items R"
proof -
  have att: "promises_m S = promises_m R" "request_queue_m S = request_queue_m R"
    if "attempt_connection io R = (b, S)" for b S
    using that by (auto simp: attempt_connection_def Let_def split: if_splits prod.splits)
  show ?thesis
  proof (cases "worker_thread_m R")
    case LoopHead
    obtain b S where a: "attempt_connection io R = (b, S)" by fastforce
    from a have "worker_thread_m S = LoopHead" using attempt_queue LoopHead by metis
    with att [OF a] a LoopHead show ?thesis
      by (cases b) (simp_all add: worker_loop_step_def pending_items_def serving_def)
  next
    case TakeWork
    then show ?thesis
      by (cases "request_queue_m R")
        (simp_all add: worker_loop_step_def pop_request_def pending_items_def serving_def)
  qed (use assms in \<open>simp_all add: worker_loop_step_def\<close>)
qed

lemma serve_moves_on:
  "worker_thread_m R = Serve item hb \<Longrightarrow> worker_thread_m (worker_loop_step io R) \<noteq> Serve item hb"
  by (auto simp: worker_loop_step_def split: prod.split sum.split)

text \<open>Such a step keeps the robot's promises and pending items, or submits a request.\<close>

definition robot_kept :: "Server \<Rightarrow> Server \<Rightarrow> Robot \<Rightarrow> Robot \<Rightarrow> bool" where
  "robot_kept s t R R' \<longleftrightarrow>
     promises_m R' = promises_m R \<and> pending_items R' = pending_items R \<and>
     submit_event (sv_worker s) (sv_worker t) = [] \<and>
     (\<forall>k p. sv_worker t = RwAwait k p \<longrightarrow> sv_worker s = RwAwait k p)"

definition robot_submitted :: "Server \<Rightarrow> Server \<Rightarrow> Robot \<Rightarrow> Robot \<Rightarrow> bool" where
  "robot_submitted s t R R' \<longleftrightarrow>
     (\<exists>k req. sv_worker s = RwSubmit k req \<and> sv_worker t = RwAwait k (length (promises_m R)) \<and>
        R' = snd (enqueue_request req R))"

lemma same_robot:
  "sv_worker t = sv_worker s \<Longrightarrow> promises_m R' = promises_m R \<Longrightarrow> pending_items R' = pending_items R \<Longrightarrow>
     robot_kept s t R R'"
  by (simp add: robot_kept_def)

lemma task_worker_robot:
  assumes "robot_s (sv s) = Some R"
  shows "\<exists>R'. robot_s (sv (robot_worker_step now b s)) = Some R' \<and>
    (robot_kept s (robot_worker_step now b s) R R' \<or> robot_submitted s (robot_worker_step now b s) R R')"
proof (cases "sv_worker s")
  case (RwSubmit k req)
  with assms show ?thesis
    by (cases "running_m R")
      (auto simp: robot_worker_step_def queue_request_def robot_kept_def robot_submitted_def)
qed (use assms in \<open>auto simp: robot_worker_step_def robot_kept_def split: wait_result.split
    option.split prod.split\<close>)

lemma other_step_robot:
  assumes "server_step s t" and "robot_s (sv s) = Some R"
    and "serving_point s \<longrightarrow> robot_point t = robot_point s"
  shows "\<exists>R'. robot_s (sv t) = Some R' \<and> (robot_kept s t R R' \<or> robot_submitted s t R R')"
  using assms(1)
proof (cases rule: server_step.cases)
  case (step_request io env msg)
  have "robot_s (sv t) = robot_s (sv s) \<and> sv_worker t = sv_worker s"
    using loop_effect [of "sv s" io env msg] unfolding step_request(1)
    by (auto simp: request_step_def split: prod.split)
  with assms(2) show ?thesis by (auto simp: same_robot)
next
  case (step_worker now b)
  then show ?thesis using task_worker_robot [OF assms(2)] by simp
next
  case (step_sweeper now)
  have "robot_s (sv t) = robot_s (sv s) \<and> sv_worker t = sv_worker s"
    unfolding step_sweeper by (simp add: sweeper_step_def split: prod.split sum.split)
  with assms(2) show ?thesis by (auto simp: same_robot)
next
  case (step_robot io)
  have "\<forall>item hb. worker_thread_m R \<noteq> Serve item hb"
    using assms(2,3) step_robot serve_moves_on by (auto simp: robot_point_def serving_point_def)
  from worker_quiet [OF this, of io] assms(2) step_robot show ?thesis by (auto simp: same_robot)
next
  case (step_stopped R0 R1)
  have "pending_items R1 = pending_items R0 \<and> promises_m R1 = promises_m R0"
    using step_stopped by (auto simp: stop_session_finish_def joinable_done_def pending_items_def
        serving_def split: if_splits)
  with assms(2) step_stopped show ?thesis by (auto simp: same_robot)
qed (use assms(2) in \<open>auto simp: stop_parts same_robot stop_session_signal_def pending_items_def
    serving_def\<close>)

text \<open>A task becomes completed only when the worker that awaits its promise finds an acknowledgement.\<close>

definition acknowledged :: "byte list \<Rightarrow> bool" where
  "acknowledged raw \<longleftrightarrow>
     \<not> starts_with ''ERR:'' (string_of_bytes raw) \<and> \<not> starts_with ''NACK'' (string_of_bytes raw)"

definition just_completed :: "Server \<Rightarrow> task_id_t \<Rightarrow> Task \<Rightarrow> bool" where
  "just_completed s k u \<longleftrightarrow>
     (\<exists>p R raw u0. sv_worker s = RwAwait k p \<and> robot_s (sv s) = Some R \<and>
        promises_m R ! p = Some raw \<and> (k, u0) \<in> set (m_task_map (tasker_s (sv s))) \<and>
        m_request u = m_request u0 \<and> m_response u = string_of_bytes raw \<and> acknowledged raw)"

lemma update_entries:
  assumes "task_ids_ok T" and "(j, u) \<in> set (m_task_map (snd (update_task k f T)))"
  obtains "(j, u) \<in> set (m_task_map T)" | t where "j = k" "getTask k T = Some t" "u = f t"
proof (cases "getTask k T")
  case None
  with assms(2) that(1) show thesis by (simp add: update_task_def getTask_def)
next
  case (Some t)
  have "distinct (map fst (m_task_map T))" using assms(1) by (simp add: task_ids_ok_def)
  with assms(2) Some have "(j, u) \<in> set (m_task_map T) \<or> j = k \<and> u = f t"
    by (auto simp: update_task_def getTask_def split: if_splits dest: eq_key_imp_eq_value)
  with Some that show thesis by blast
qed

lemma finish_entries:
  assumes "task_ids_ok T" and "getTask k T = Some t" and "m_state t = IN_PROGRESS"
    and "(j, u) \<in> set (m_task_map (finish_task now k raw T))" and "m_state u = COMPLETED"
  shows "(j, u) \<in> set (m_task_map T) \<or>
    j = k \<and> m_request u = m_request t \<and> m_response u = string_of_bytes raw \<and> acknowledged raw"
proof (cases "acknowledged raw")
  case True
  then have "finish_task now k raw T = snd (completeTask now k (string_of_bytes raw) T)"
    by (simp add: finish_task_def acknowledged_def)
  note entry = assms(4) [unfolded this completeTask_def]
  from update_entries [OF assms(1) entry] show ?thesis
    by cases (use assms(2,3) True in \<open>auto simp: setResponse_def markCompleted_def\<close>)
next
  case False
  then have "finish_task now k raw T = snd (failTask now k (''Robot error: '' @ string_of_bytes raw) T)"
    by (auto simp: finish_task_def acknowledged_def)
  note entry = assms(4) [unfolded this failTask_def]
  from update_entries [OF assms(1) entry] show ?thesis
    by cases (use assms(2,3,5) in \<open>auto simp: setResponse_def markFailed_def\<close>)
qed

lemma fail_entries:
  assumes "task_ids_ok T" and "getTask k T = Some t" and "m_state t = IN_PROGRESS"
    and "(j, u) \<in> set (m_task_map (snd (failTask now k msg T)))" and "m_state u = COMPLETED"
  shows "(j, u) \<in> set (m_task_map T)"
  using update_entries [OF assms(1) assms(4) [unfolded failTask_def]]
  by cases (use assms(2,3,5) in \<open>auto simp: setResponse_def markFailed_def\<close>)

lemma start_entries:
  assumes "task_ids_ok T" and "(j, u) \<in> set (m_task_map (snd (startTask now k T)))"
    and "m_state u = COMPLETED"
  shows "(j, u) \<in> set (m_task_map T)"
  using update_entries [OF assms(1) assms(2) [unfolded startTask_def]]
  by cases (use assms(3) in \<open>auto simp: markStarted_def getTask_def map_of_SomeD split: if_splits\<close>)

lemma effect_entries:
  assumes "tasker_effect T T'" and "(j, u) \<in> set (m_task_map T')" and "m_state u = COMPLETED"
  shows "(j, u) \<in> set (m_task_map T)"
proof -
  have "(j, u) \<in> set (m_task_map T)" if "T' = snd (addTask now r T)" for now r
    using that assms(2,3)
    by (auto simp: addTask_def fetch_id_def emplace_task_def push_task_def Task_new_def split: if_splits)
  with assms show ?thesis
    by (auto simp: tasker_effect_def removeTask_def split: option.splits)
qed

lemma await_step:
  assumes "sv_worker s = RwAwait k p"
  shows "tasker_s (sv (robot_worker_step now b s)) = tasker_s (sv s) \<or>
    tasker_s (sv (robot_worker_step now b s)) =
      snd (failTask now k ''Robot disconnected'' (tasker_s (sv s))) \<or>
    (\<exists>R raw. robot_s (sv s) = Some R \<and> promises_m R ! p = Some raw \<and>
       tasker_s (sv (robot_worker_step now b s)) = finish_task now k raw (tasker_s (sv s)))"
  using assms by (simp add: robot_worker_step_def split: option.split)

lemma task_worker_completed:
  assumes "server_inv s" and "(j, u) \<in> set (m_task_map (tasker_s (sv (robot_worker_step now b s))))"
    and "m_state u = COMPLETED"
  shows "(j, u) \<in> set (m_task_map (tasker_s (sv s))) \<or> just_completed s j u"
proof -
  let ?T = "tasker_s (sv s)"
  have ids: "task_ids_ok ?T" if "sv_worker s \<noteq> RwCrashed"
    using that assms(1) tasks_ok_ids by (auto simp: server_inv_def)
  have active: "\<exists>t. getTask k ?T = Some t \<and> m_state t = IN_PROGRESS" if "active_task (sv_worker s) = Some k" for k
    using that assms(1) by (cases "sv_worker s") (auto simp: server_inv_def tasks_ok_def worker_ok_def)
  show ?thesis
  proof (cases "sv_worker s")
    case RwWait
    with assms(2) show ?thesis
      by (auto simp: robot_worker_step_def waitForNextTask_def split: if_splits)
  next
    case (RwStart k)
    with assms(2,3) start_entries [OF ids] show ?thesis
      by (auto simp: robot_worker_step_def split: prod.splits dest!: arg_cong [where f = snd])
  next
    case (RwFetch k)
    with active obtain t where "getTask k ?T = Some t" "m_state t = IN_PROGRESS" by auto
    with RwFetch assms(2,3) fail_entries [OF ids this] show ?thesis
      by (auto simp: robot_worker_step_def split: if_splits)
  next
    case (RwSubmit k req)
    with assms(2) show ?thesis
      by (auto simp: robot_worker_step_def split: option.splits sum.splits prod.splits)
  next
    case (RwAwait k p)
    with active obtain t where t: "getTask k ?T = Some t" "m_state t = IN_PROGRESS" by auto
    then have entry: "(k, t) \<in> set (m_task_map ?T)" by (simp add: getTask_def map_of_SomeD)
    have ids: "task_ids_ok ?T" by (rule ids) (simp add: RwAwait)
    let ?T' = "tasker_s (sv (robot_worker_step now b s))"
    from RwAwait consider "?T' = ?T" | "?T' = snd (failTask now k ''Robot disconnected'' ?T)"
      | R raw where "robot_s (sv s) = Some R" "promises_m R ! p = Some raw" "?T' = finish_task now k raw ?T"
      using await_step [OF RwAwait, of now b] by blast
    then show ?thesis
    proof cases
      case 1
      with assms(2) show ?thesis by simp
    next
      case 2
      with fail_entries [OF ids t _ assms(3)] assms(2) show ?thesis by simp
    next
      case 3
      from finish_entries [OF ids t _ assms(3)] assms(2) 3(3)
      consider "(j, u) \<in> set (m_task_map ?T)"
        | "j = k" "m_request u = m_request t" "m_response u = string_of_bytes raw" "acknowledged raw"
        by metis
      then show ?thesis
        by cases (use 3 RwAwait entry in \<open>auto simp: just_completed_def\<close>)
    qed
  qed (use assms(2) in \<open>auto simp: robot_worker_step_def split: if_splits\<close>)
qed

lemma completed_step:
  assumes "server_inv s" and "server_step s t" and "(j, u) \<in> set (m_task_map (tasker_s (sv t)))"
    and "m_state u = COMPLETED"
  shows "(j, u) \<in> set (m_task_map (tasker_s (sv s))) \<or> just_completed s j u"
  using assms(2)
proof (cases rule: server_step.cases)
  case (step_request io env msg)
  have "tasker_effect T T" for T by (simp add: tasker_effect_def)
  then have "tasker_effect (tasker_s (sv s)) (tasker_s (sv t))"
    using loop_effect [of "sv s" io env msg] unfolding step_request(1)
    by (auto simp: request_step_def split: prod.split)
  from effect_entries [OF this assms(3,4)] show ?thesis by blast
next
  case (step_worker now b)
  with task_worker_completed [OF assms(1)] assms(3,4) show ?thesis by blast
next
  case (step_sweeper now)
  with assms(3) show ?thesis
    by (auto simp: sweeper_step_def sweepExpiredTasks_def split: if_splits prod.splits sum.splits)
qed (use assms(3) in \<open>auto simp: stop_parts stop_tasker_def\<close>)

end
