(* ===== verification/Agreement.thy ===== *)
theory Agreement
  imports Link
begin

text \<open>
  What the server reports and what the robot was told agree as long as the two ends are in step. In
  every run, over any network, the n-th exchange made for a task belongs to the n-th request handed to
  the robot, and what \<^verbatim>\<open>recv\<close> took in it resolves that request's promise; when the exchange
  is in step (its request arrives in one piece, nothing is left over from before, and enough of the
  answer arrives to tell a refusal), a motion task is completed only if its motion was instructed in
  that exchange and succeeded. What happens out of step is in the theory Delivery.
\<close>

section \<open>Invariants\<close>

text \<open>The exchanges made for tasks, and the items that the requests handed over become.\<close>

definition work :: "exchange_record list \<Rightarrow> exchange_record list" where
  "work xs = filter (\<lambda>x. \<not> x_heartbeat x) xs"

definition items_of :: "(task_id_t \<times> RapidRequest) list \<Rightarrow> RobotWorkItem list" where
  "items_of D = map (\<lambda>(p, d). \<lparr>wi_command = snd d, wi_promise = Some p\<rparr>) (enumerate 0 D)"

text \<open>What \<^verbatim>\<open>recv\<close> takes in an exchange: the bytes left over come first.\<close>

definition answer_taken :: "exchange_record \<Rightarrow> byte list" where
  "answer_taken x =
     take (min (dl_bytes (x_delivery x)) 255) (x_unread x @ answers_between (x_before x) (x_after x))"

text \<open>What an exchange resolves its promise with: an error text, or the bytes taken.\<close>

definition resolves :: "exchange_record \<Rightarrow> byte list \<Rightarrow> bool" where
  "resolves x v \<longleftrightarrow>
     starts_with ''ERR:'' (string_of_bytes v) \<or> v = answer_taken x \<and> v \<noteq> []"

definition queue_inv :: "Server \<Rightarrow> history \<Rightarrow> exchange_record list \<Rightarrow> bool" where
  "queue_inv s h xs \<longleftrightarrow>
     (\<exists>R vs. robot_s (sv s) = Some R \<and>
        map x_item (work xs) @ pending_items R = items_of (handed_over h) \<and>
        promises_m R = map Some vs @ replicate (length (pending_items R)) None \<and>
        list_all2 resolves (work xs) vs)"

definition exchange_ok :: "exchange_record \<Rightarrow> bool" where
  "exchange_ok x \<longleftrightarrow>
     x_after x = controller_reads (dl_pieces (x_delivery x)) (x_before x) \<and> runs_on (x_before x)"

text \<open>Each exchange adds its instructions after those of the exchanges before it.\<close>

definition given_in_order :: "exchange_record list \<Rightarrow> client_round \<Rightarrow> bool" where
  "given_in_order xs r \<longleftrightarrow>
     sorted_wrt (\<lambda>x y. prefix (given (x_after x)) (given (x_before y))) xs \<and>
     (\<forall>x \<in> set xs. prefix (given (x_after x)) (given r))"

definition await_inv :: "Server \<Rightarrow> history \<Rightarrow> bool" where
  "await_inv s h \<longleftrightarrow>
     (\<forall>k p. sv_worker s = RwAwait k p \<longrightarrow> p < length (handed_over h) \<and> fst (handed_over h ! p) = k)"

definition completed_inv :: "Server \<Rightarrow> history \<Rightarrow> bool" where
  "completed_inv s h \<longleftrightarrow>
     (\<forall>k u. (k, u) \<in> set (m_task_map (tasker_s (sv s))) \<and> m_state u = COMPLETED \<longrightarrow>
        (\<exists>R p raw. robot_s (sv s) = Some R \<and> p < length (handed_over h) \<and>
           handed_over h ! p = (k, m_request u) \<and> promises_m R ! p = Some raw \<and>
           m_response u = string_of_bytes raw \<and> acknowledged raw))"

definition link_inv :: "link \<Rightarrow> history \<Rightarrow> exchange_record list \<Rightarrow> bool" where
  "link_inv L h xs \<longleftrightarrow>
     queue_inv (lk_server L) h xs \<and> (\<forall>x \<in> set xs. exchange_ok x) \<and>
     given_in_order xs (lk_peer L) \<and> await_inv (lk_server L) h \<and> completed_inv (lk_server L) h"

section \<open>Items and promises\<close>

lemma items_of_simps [simp]:
  "items_of [] = []"
  "items_of (D @ [d]) = items_of D @ [\<lparr>wi_command = snd d, wi_promise = Some (length D)\<rparr>]"
  "length (items_of D) = length D"
  by (simp_all add: items_of_def enumerate_append_eq)

lemma items_of_nth: "p < length D \<Longrightarrow>
  items_of D ! p = \<lparr>wi_command = snd (D ! p), wi_promise = Some p\<rparr>"
  by (simp add: items_of_def nth_enumerate_eq)

lemma work_simps [simp]:
  "work [] = []" "work (xs @ [x]) = work xs @ (if x_heartbeat x then [] else [x])"
  "set (work xs) \<subseteq> set xs"
  by (auto simp: work_def)

lemma enqueue_items:
  "promises_m (snd (enqueue_request r R)) = promises_m R @ [None]"
  "pending_items (snd (enqueue_request r R)) =
     pending_items R @ [\<lparr>wi_command = r, wi_promise = Some (length (promises_m R))\<rparr>]"
  by (simp_all add: enqueue_request_def pending_items_def serving_def Let_def)

lemma queue_lengths:
  assumes "map x_item ws @ pending_items R = items_of D" and "list_all2 resolves ws vs"
    and "promises_m R = map Some vs @ replicate (length (pending_items R)) None"
  shows "length (promises_m R) = length D" and "length ws = length vs"
proof -
  have "length ws + length (pending_items R) = length D" using arg_cong [OF assms(1), of length] by simp
  with assms(2,3) show "length (promises_m R) = length D" "length ws = length vs"
    by (simp_all add: list_all2_lengthD)
qed

lemma kept_queue:
  assumes "queue_inv s h xs" and "robot_s (sv s) = Some R" and "robot_s (sv t) = Some R'"
    and "robot_kept s t R R'"
  shows "queue_inv t (add_events h s t) xs"
  using assms by (auto simp: queue_inv_def robot_kept_def add_events_def)

lemma submitted_queue:
  assumes "queue_inv s h xs" and "robot_s (sv s) = Some R" and "robot_s (sv t) = Some R'"
    and "robot_submitted s t R R'"
  shows "queue_inv t (add_events h s t) xs"
proof -
  from assms(1,2) obtain vs where q: "map x_item (work xs) @ pending_items R = items_of (handed_over h)"
    "promises_m R = map Some vs @ replicate (length (pending_items R)) None"
    "list_all2 resolves (work xs) vs" by (auto simp: queue_inv_def)
  from assms(4) obtain k req where w: "sv_worker s = RwSubmit k req"
    "sv_worker t = RwAwait k (length (promises_m R))" "R' = snd (enqueue_request req R)"
    by (auto simp: robot_submitted_def)
  have "map x_item (work xs) @ pending_items R' = items_of (handed_over h @ [(k, req)])"
    using q(1) queue_lengths(1) [OF q(1,3,2)] by (simp add: w(3) enqueue_items flip: append_assoc)
  moreover have "promises_m R' = map Some vs @ replicate (length (pending_items R')) None"
    using q(2) by (simp add: w(3) enqueue_items replicate_append_same)
  ultimately show ?thesis
    using q(3) assms(3) w(1,2) by (auto simp: queue_inv_def add_events_def)
qed

lemma replace_first_none:
  "(map Some vs @ replicate (Suc n) None)[length vs := Some v] = map Some (vs @ [v]) @ replicate n None"
  by (simp add: list_update_append)

lemma exchange_queue:
  assumes "queue_inv s h xs" and "server_inv s" and "robot_point s = Serve item hb"
    and "io_documented io" and "io_recv io = recv_from stream d"
    and "x_item x = item" and "x_heartbeat x = hb" and "dl_bytes (x_delivery x) = d"
    and "take (min d 255) stream = answer_taken x"
    and "t = with_robot (worker_loop_step io) s"
  shows "queue_inv t (add_events h s t) (xs @ [x])"
proof -
  from assms(1) obtain R vs where R: "robot_s (sv s) = Some R"
    and q: "map x_item (work xs) @ pending_items R = items_of (handed_over h)"
    "promises_m R = map Some vs @ replicate (length (pending_items R)) None"
    "list_all2 resolves (work xs) vs" by (auto simp: queue_inv_def)
  let ?R = "worker_loop_step io R"
  have inv: "robot_inv R" using assms(2) R by (simp add: server_inv_def)
  have serve: "worker_thread_m R = Serve item hb" using assms(3) R by (simp add: robot_point_def)
  have D: "handed_over (add_events h s t) = handed_over h" and t: "robot_s (sv t) = Some ?R"
    using R by (simp_all add: add_events_def assms(10))
  show ?thesis
  proof (cases hb)
    case True
    from exchange_heartbeat [OF inv _ assms(4)] serve True
    have "promises_m ?R = promises_m R" "pending_items ?R = pending_items R" by simp_all
    with q t D True assms(7) show ?thesis by (simp add: queue_inv_def)
  next
    case False
    with serve have "worker_thread_m R = Serve item False" by simp
    from exchange_item [OF inv this assms(4,5)] obtain p v where
      p: "wi_promise item = Some p" "promises_m ?R = (promises_m R)[p := Some v]"
        "pending_items R = item # pending_items ?R"
      and v: "starts_with ''ERR:'' (string_of_bytes v) \<or> v = take (min d 255) stream \<and> v \<noteq> [] \<and> d \<noteq> 0"
      by blast
    have n: "length (work xs) = length vs" using q(3) by (rule list_all2_lengthD)
    have lt: "length vs < length (handed_over h)"
      using arg_cong [OF q(1), of length] p(3) n by simp
    have "items_of (handed_over h) ! length vs = item"
      using n unfolding q(1) [symmetric] p(3) by (simp add: nth_append)
    with items_of_nth [OF lt] p(1) have "p = length vs" by auto
    with q(2) p(2,3) have "promises_m ?R = map Some (vs @ [v]) @ replicate (length (pending_items ?R)) None"
      using replace_first_none [of vs "length (pending_items ?R)" v] by simp
    moreover have "map x_item (work (xs @ [x])) @ pending_items ?R = items_of (handed_over h)"
      using q(1) p(3) False assms(6,7) by simp
    moreover have "list_all2 resolves (work (xs @ [x])) (vs @ [v])"
      using q(3) v False assms(7-9) by (auto simp: resolves_def intro: list_all2_appendI)
    ultimately show ?thesis unfolding queue_inv_def D using t by blast
  qed
qed

section \<open>Tasks and their requests\<close>

lemma ids_distinct: "sorted_wrt id_less ks \<Longrightarrow> distinct ks"
  by (induction ks) auto

lemma handed_request:
  assumes "order_inv w T A D" and "p < length D" and "D ! p = (k, r)" and "(k, u) \<in> set (m_task_map T)"
  shows "m_request u = r"
proof -
  have "(k, m_request u) \<in> set A" using orderD(3) [OF assms(1,4)] by simp
  moreover have "(k, r) \<in> set A" using orderD(5) [OF assms(1)] nth_mem [OF assms(2)] assms(3) by auto
  moreover have "distinct (map fst A)"
    using orderD(1) [OF assms(1)] by (rule ids_distinct)
  ultimately show ?thesis by (metis eq_key_imp_eq_value)
qed

lemma kept_await:
  assumes "await_inv s h" and "robot_kept s t R R'"
  shows "await_inv t (add_events h s t)"
  using assms by (auto simp: await_inv_def robot_kept_def add_events_def)

lemma submitted_await:
  assumes "queue_inv s h xs" and "robot_s (sv s) = Some R" and "robot_submitted s t R R'"
  shows "await_inv t (add_events h s t)"
proof -
  from assms(1,2) have "length (promises_m R) = length (handed_over h)"
    using queue_lengths(1) by (auto simp: queue_inv_def)
  with assms(3) show ?thesis by (auto simp: await_inv_def robot_submitted_def add_events_def)
qed

text \<open>Promises that are resolved stay so, and handed-over requests keep their places.\<close>

lemma completed_kept:
  assumes "completed_inv s h" and "order_ok s h" and "await_inv s h"
    and "robot_s (sv s) = Some R" and "robot_s (sv t) = Some R'"
    and keep: "\<And>p raw. p < length (handed_over h) \<Longrightarrow> promises_m R ! p = Some raw \<Longrightarrow>
      promises_m R' ! p = Some raw"
    and step: "\<And>k u. (k, u) \<in> set (m_task_map (tasker_s (sv t))) \<Longrightarrow> m_state u = COMPLETED \<Longrightarrow>
      (k, u) \<in> set (m_task_map (tasker_s (sv s))) \<or> just_completed s k u"
  shows "completed_inv t (add_events h s t)"
  unfolding completed_inv_def
proof (intro allI impI, elim conjE)
  fix k u assume u: "(k, u) \<in> set (m_task_map (tasker_s (sv t)))" "m_state u = COMPLETED"
  have "\<exists>p raw. p < length (handed_over h) \<and> handed_over h ! p = (k, m_request u) \<and>
      promises_m R ! p = Some raw \<and> m_response u = string_of_bytes raw \<and> acknowledged raw"
    using step [OF u]
  proof
    assume "(k, u) \<in> set (m_task_map (tasker_s (sv s)))"
    with assms(1,4) u(2) show ?thesis by (auto simp: completed_inv_def)
  next
    assume "just_completed s k u"
    with assms(4) obtain p raw u0 where j: "sv_worker s = RwAwait k p" "promises_m R ! p = Some raw"
      "(k, u0) \<in> set (m_task_map (tasker_s (sv s)))" "m_request u = m_request u0"
      "m_response u = string_of_bytes raw" "acknowledged raw"
      by (auto simp: just_completed_def)
    with assms(3) have p: "p < length (handed_over h)" "fst (handed_over h ! p) = k"
      by (auto simp: await_inv_def)
    from assms(2) have ord: "order_inv (sv_worker s) (tasker_s (sv s)) (accepted h) (handed_over h)"
      by (simp add: order_ok_def)
    have "handed_over h ! p = (k, m_request u0)"
      using handed_request [OF ord p(1) _ j(3)] p(2) by (metis prod.collapse)
    with j p(1) show ?thesis by auto
  qed
  then obtain p raw where p: "p < length (handed_over h)" "handed_over h ! p = (k, m_request u)"
    "promises_m R ! p = Some raw" "m_response u = string_of_bytes raw" "acknowledged raw" by blast
  moreover have "handed_over (add_events h s t) ! p = handed_over h ! p"
    "p < length (handed_over (add_events h s t))"
    using p(1) by (simp_all add: add_events_def nth_append)
  ultimately show "\<exists>R p raw. robot_s (sv t) = Some R \<and> p < length (handed_over (add_events h s t)) \<and>
      handed_over (add_events h s t) ! p = (k, m_request u) \<and> promises_m R ! p = Some raw \<and>
      m_response u = string_of_bytes raw \<and> acknowledged raw"
    using keep assms(5) by metis
qed

section \<open>The invariants hold in every run\<close>

lemma start_link_inv:
  assumes "server_started s"
  shows "link_inv (settle s r []) no_history []"
proof -
  from assms obtain LoadFile path k s0 where s0: "Server_new LoadFile path k = Inr s0" and s: "s = start s0"
    by (auto simp: server_started_def)
  then obtain host port ms where "robot_s (sv s0) = Some (Robot_new host port ms k)"
    "tasker_s (sv s0) = Tasker_default" "sv_worker s0 = RwNotStarted"
    by (auto simp: Server_new_def sum_bind_Inr_iff)
  then have "queue_inv s no_history []" "await_inv s no_history" "completed_inv s no_history"
    unfolding s
    by (auto simp: queue_inv_def await_inv_def completed_inv_def no_history_def start_def
        Robot_new_def start_session_def pending_items_def serving_def Tasker_default_def)
  then show ?thesis by (simp add: link_inv_def given_in_order_def)
qed

lemma other_link_inv:
  assumes "link_inv L h xs" and "server_inv (lk_server L)" and "order_ok (lk_server L) h"
    and "server_step (lk_server L) t"
    and "serving_point (lk_server L) \<longrightarrow> robot_point t = robot_point (lk_server L)"
  shows "link_inv (settle t (lk_peer L) (lk_unread L)) (add_events h (lk_server L) t) xs"
proof -
  let ?s = "lk_server L" and ?h = "add_events h (lk_server L) t"
  from assms(1) have inv: "queue_inv ?s h xs" "\<forall>x \<in> set xs. exchange_ok x"
    "given_in_order xs (lk_peer L)" "await_inv ?s h" "completed_inv ?s h"
    by (simp_all add: link_inv_def)
  from inv(1) obtain R vs where R: "robot_s (sv ?s) = Some R"
    and q: "map x_item (work xs) @ pending_items R = items_of (handed_over h)"
      "list_all2 resolves (work xs) vs"
      "promises_m R = map Some vs @ replicate (length (pending_items R)) None"
    by (auto simp: queue_inv_def)
  from other_step_robot [OF assms(4) R assms(5)] obtain R' where R': "robot_s (sv t) = Some R'"
    and w: "robot_kept ?s t R R' \<or> robot_submitted ?s t R R'" by blast
  have keep: "promises_m R' ! p = Some raw"
    if "p < length (handed_over h)" "promises_m R ! p = Some raw" for p raw
    using w that queue_lengths(1) [OF q]
    by (auto simp: robot_kept_def robot_submitted_def enqueue_items nth_append)
  have "completed_inv t ?h"
    by (rule completed_kept [OF inv(5) assms(3) inv(4) R R' keep
        completed_step [OF assms(2,4)]])
  moreover have "queue_inv t ?h xs"
    using w kept_queue [OF inv(1) R R'] submitted_queue [OF inv(1) R R'] by blast
  moreover have "await_inv t ?h"
    using w kept_await [OF inv(4)] submitted_await [OF inv(1) R] by blast
  ultimately show ?thesis
    using inv by (simp add: link_inv_def given_in_order_def)
qed

lemma exchange_link_inv:
  assumes "link_inv L h xs" and "server_inv (lk_server L)" and "order_ok (lk_server L) h"
    and "runs_on (lk_peer L)" and "robot_point (lk_server L) = Serve item hb" and "io_documented io"
    and "x = \<lparr>x_item = item, x_heartbeat = hb, x_delivery = dl, x_unread = lk_unread L,
              x_before = lk_peer L, x_after = controller_reads (dl_pieces dl) (lk_peer L)\<rparr>"
  shows "link_inv (exchange io dl L) (add_events h (lk_server L) (lk_server (exchange io dl L))) (xs @ [x])"
proof -
  let ?s = "lk_server L" and ?L = "exchange io dl L"
  let ?t = "lk_server ?L" and ?io = "exchange_io io dl L"
  from assms(1) have inv: "queue_inv ?s h xs" "\<forall>x \<in> set xs. exchange_ok x"
    "given_in_order xs (lk_peer L)" "await_inv ?s h" "completed_inv ?s h"
    by (simp_all add: link_inv_def)
  have t: "?t = with_robot (worker_loop_step ?io) ?s" by (simp add: exchange_def)
  have io: "io_documented ?io" "io_recv ?io = recv_from (stream_after dl L) (dl_bytes dl)"
    using exchange_io_documented [OF assms(6)] by (simp_all add: exchange_io_def)
  have x: "x_item x = item" "x_heartbeat x = hb" "dl_bytes (x_delivery x) = dl_bytes dl"
    by (simp_all add: assms(7))
  have "take (min (dl_bytes dl) 255) (stream_after dl L) = answer_taken x"
    by (simp add: answer_taken_def stream_after_def assms(7))
  from exchange_queue [OF inv(1) assms(2,5) io x this t]
  have queue: "queue_inv ?t (add_events h ?s ?t) (xs @ [x])" .
  have "exchange_ok x" using assms(4) by (simp add: exchange_ok_def assms(7))
  moreover have "given_in_order (xs @ [x]) (lk_peer ?L)"
    using inv(3) reads_grow [of "lk_peer L" "dl_pieces dl"]
    by (auto simp: given_in_order_def sorted_wrt_append assms(7) exchange_def
        intro: prefix_order.trans)
  moreover have "await_inv ?t (add_events h ?s ?t)"
    using inv(4) by (auto simp: await_inv_def t add_events_def)
  moreover have "completed_inv ?t (add_events h ?s ?t)"
  proof -
    from inv(1) obtain R where R: "robot_s (sv ?s) = Some R" by (auto simp: queue_inv_def)
    then have R': "robot_s (sv ?t) = Some (worker_loop_step ?io R)" by (simp add: t)
    have rinv: "robot_inv R" using assms(2) R by (simp add: server_inv_def)
    have serve: "worker_thread_m R = Serve item hb" using assms(5) R by (simp add: robot_point_def)
    have keep: "promises_m (worker_loop_step ?io R) ! p = Some raw" if "promises_m R ! p = Some raw" for p raw
      using that serve exchange_heartbeat [OF rinv _ io(1)] exchange_item [OF rinv _ io]
      by (cases hb) (fastforce simp: nth_list_update)+
    show ?thesis
      by (rule completed_kept [OF inv(5) assms(3) inv(4) R R' keep]) (simp_all add: t)
  qed
  ultimately show ?thesis using queue inv(2) by (simp add: link_inv_def)
qed

lemma link_run_facts:
  assumes "link_run net L h xs"
  shows "server_inv (lk_server L)" and "order_ok (lk_server L) h"
  using link_run_server [OF assms] srv.reach_inv [OF run_reach] run_order by blast+

lemma link_run_inv: "link_run net L h xs \<Longrightarrow> link_inv L h xs"
proof (induction rule: link_run.induct)
  case (link_start s env)
  show ?case by (rule start_link_inv [OF link_start])
next
  case (link_other L h xs t)
  then show ?case using link_run_facts [OF link_other.hyps(1)] by (intro other_link_inv) simp_all
next
  case (link_exchange L h xs item hb io dl)
  show ?case
    by (rule exchange_link_inv [OF link_exchange.IH link_run_facts [OF link_exchange.hyps(1)]
        link_runs_on [OF link_exchange.hyps(1)] link_exchange.hyps(2,3) refl])
qed

section \<open>What an acknowledged exchange did\<close>

definition is_motion :: "DecodedRequest \<Rightarrow> bool" where
  "is_motion d \<longleftrightarrow>
     cmd_type d \<in> {MOVE_L, MOVE_J, MOVE_C, MOVE_ABS_J, MOVE_L_OFFS, MOVE_J_OFFS, ZERO}"

lemma is_motion_requested: "is_motion d \<Longrightarrow> \<exists>m. requested_motion env d = Some m"
  by (auto simp: is_motion_def requested_motion_def)

lemma starts_with_extend:
  assumes "starts_with pre s" and "length pre \<le> n"
  shows "starts_with pre (take n (s @ t))"
proof -
  have "length pre \<le> length s" using arg_cong [OF assms(1) [unfolded starts_with_def], of length] by simp
  with assms show ?thesis by (simp add: starts_with_def min_absorb1)
qed

text \<open>
  The request of an exchange arrives in one piece; both ends are in step when besides nothing was left
  over from before, and as many bytes arrive as tell a refusal from an acknowledgement.
\<close>

definition arrived_whole :: "exchange_record \<Rightarrow> controller_env \<Rightarrow> bool" where
  "arrived_whole x env \<longleftrightarrow>
     dl_pieces (x_delivery x) = [(env, bytes_RapidRequest (wi_command (x_item x)))]"

definition in_step :: "exchange_record \<Rightarrow> controller_env \<Rightarrow> bool" where
  "in_step x env \<longleftrightarrow> arrived_whole x env \<and> x_unread x = [] \<and> 4 \<le> dl_bytes (x_delivery x)"

text \<open>
  The instruction a request asks for in these surroundings, with the controller's speed and zone. (Its
  configuration numbers are those of the request; see \<open>exact_conf\<close> in the theory Rapid.)
\<close>

definition asked_instruction :: "controller_env \<Rightarrow> DecodedRequest \<Rightarrow> client_round \<Rightarrow> instruction option" where
  "asked_instruction env d r =
     map_option (\<lambda>m. \<lparr>in_motion = m, in_speed = move_speed (controller_of r),
       in_zone = move_zone (controller_of r)\<rparr>) (requested_motion env d)"

lemma motion_acknowledged:
  assumes "complete_request d" and "is_motion d" and "c' = ExecuteAction env (expected_action d) c"
    and "v = take n (concat (drop (length (sent_msgs c)) (sent_msgs c')))" and "4 \<le> n" and "v \<noteq> []"
    and "acknowledged v"
  shows "\<exists>i. asked_instruction env d (Serving c) = Some i \<and> ce_Move env i = None \<and>
    instructions c' = instructions c @ [i]"
proof -
  obtain m where m: "requested_motion env d = Some m" using is_motion_requested [OF assms(2)] by blast
  obtain safe ack where b: "starts_with ''ACK|'' ack"
    "action_body env (expected_action d) c = move_if_safe env safe m ack c"
    using body_motion [OF m] by blast
  let ?raw = "sent_msgs c' ! length (sent_msgs c)"
  have new: "length (sent_msgs c) < length (sent_msgs c')"
    using assms(4,6) by (metis concat.simps(1) drop_eq_Nil not_less take_Nil)
  then have "v = take n (?raw @ concat (drop (Suc (length (sent_msgs c))) (sent_msgs c')))"
    using assms(4) by (simp flip: Cons_nth_drop_Suc)
  moreover have "string_of_bytes (take n (a @ b)) = take n (string_of_bytes a @ string_of_bytes b)" for a b
    by (simp add: string_of_bytes_def take_map)
  ultimately obtain rest where v: "string_of_bytes v = take n (string_of_bytes ?raw @ rest)" by blast
  have "\<not> starts_with ''NACK|'' (string_of_bytes ?raw)"
  proof
    assume "starts_with ''NACK|'' (string_of_bytes ?raw)"
    then have "starts_with ''NACK'' (string_of_bytes v)"
      unfolding v using assms(5) by (intro starts_with_extend prefix_verdicts(2)) simp_all
    with assms(7) show False by (simp add: acknowledged_def)
  qed
  with motion_outcome [OF new b assms(3) refl refl] m show ?thesis
    by (auto simp: asked_instruction_def split: if_splits)
qed

lemma silent_before:
  assumes "exchange_ok x" and "answers_between (x_before x) (x_after x) \<noteq> []"
  shows "\<exists>c. x_before x = Serving c"
proof (rule ccontr)
  assume "\<nexists>c. x_before x = Serving c"
  then have "x_after x = x_before x"
    using assms(1) by (cases "x_before x") (simp_all add: exchange_ok_def controller_reads_def)
  with assms(2) show False by (simp add: reads_nothing)
qed

lemma handled_after:
  assumes "exchange_ok x" and "arrived_whole x env" and "x_before x = Serving c"
    and "complete_request d" and "wi_command (x_item x) = request_spec d"
  shows "controller_of (x_after x) = ExecuteAction env (expected_action d) c"
  using assms by (simp add: exchange_ok_def arrived_whole_def controller_reads_def handle_request Let_def)

lemma acknowledged_exchange:
  assumes "exchange_ok x" and "resolves x v" and "acknowledged v" and "in_step x env"
    and "complete_request d" and "is_motion d" and "wi_command (x_item x) = request_spec d"
  shows "\<exists>i. asked_instruction env d (x_before x) = Some i \<and> ce_Move env i = None \<and>
    given (x_after x) = given (x_before x) @ [i]"
proof -
  let ?n = "min (dl_bytes (x_delivery x)) 255"
  have v: "v = take ?n (answers_between (x_before x) (x_after x))" "v \<noteq> []"
    using assms(2-4) by (auto simp: resolves_def acknowledged_def answer_taken_def in_step_def)
  obtain c where c: "x_before x = Serving c" using silent_before [OF assms(1)] v by force
  have "4 \<le> ?n" "arrived_whole x env" using assms(4) by (simp_all add: in_step_def)
  from handled_after [OF assms(1) this(2) c assms(5,7)]
  have after: "controller_of (x_after x) = ExecuteAction env (expected_action d) c" .
  from motion_acknowledged [OF assms(5,6) this _ \<open>4 \<le> ?n\<close> v(2) assms(3)] v(1) c show ?thesis
    by (simp add: answers_between_def)
qed

section \<open>Properties\<close>

text \<open>The task is a motion task that is reported completed.\<close>

definition completed_motion :: "Server \<Rightarrow> task_id_t \<Rightarrow> Task \<Rightarrow> DecodedRequest \<Rightarrow> bool" where
  "completed_motion s k t d \<longleftrightarrow>
     getTask k (tasker_s (sv s)) = Some t \<and> m_state t = COMPLETED \<and>
     complete_request d \<and> is_motion d \<and> m_request t = request_spec d"

text \<open>What an exchange did for such a task.\<close>

definition reported_by :: "exchange_record \<Rightarrow> Task \<Rightarrow> bool" where
  "reported_by x t \<longleftrightarrow>
     wi_command (x_item x) = m_request t \<and> m_response t = string_of_bytes (answer_taken x) \<and>
     acknowledged (answer_taken x)"

lemma completed_exchange:
  assumes "link_inv L h xs" and "getTask k (tasker_s (sv (lk_server L))) = Some t" and "m_state t = COMPLETED"
  shows "\<exists>p. p < length (work xs) \<and> p < length (handed_over h) \<and> fst (handed_over h ! p) = k \<and>
    exchange_ok (work xs ! p) \<and> resolves (work xs ! p) (answer_taken (work xs ! p)) \<and>
    reported_by (work xs ! p) t"
proof -
  let ?s = "lk_server L"
  have "(k, t) \<in> set (m_task_map (tasker_s (sv ?s)))" using assms(2) by (simp add: getTask_def map_of_SomeD)
  moreover have "completed_inv ?s h" using assms(1) by (simp add: link_inv_def)
  ultimately obtain R p raw where p: "robot_s (sv ?s) = Some R" "p < length (handed_over h)"
    "handed_over h ! p = (k, m_request t)" "promises_m R ! p = Some raw"
    "m_response t = string_of_bytes raw" "acknowledged raw"
    using assms(3) unfolding completed_inv_def by blast
  from assms(1) p(1) obtain vs where q: "map x_item (work xs) @ pending_items R = items_of (handed_over h)"
      "list_all2 resolves (work xs) vs"
      "promises_m R = map Some vs @ replicate (length (pending_items R)) None"
    by (auto simp: link_inv_def queue_inv_def)
  have n: "length (work xs) = length vs" using q(2) by (rule list_all2_lengthD)
  have lt: "p < length vs"
  proof (rule ccontr)
    assume "\<not> p < length vs"
    with p(2,4) q(3) queue_lengths(1) [OF q] show False by (simp add: nth_append)
  qed
  let ?x = "work xs ! p"
  have "resolves ?x raw" using q(2,3) p(4) lt n by (auto simp: list_all2_conv_all_nth nth_append)
  moreover from this p(6) have "raw = answer_taken ?x" by (simp add: resolves_def acknowledged_def)
  moreover have "?x \<in> set xs" using lt n work_simps(3) [of xs] nth_mem [of p "work xs"] by (metis subsetD)
  then have "exchange_ok ?x" using assms(1) by (simp add: link_inv_def)
  moreover have "x_item ?x = items_of (handed_over h) ! p"
    using lt n unfolding q(1) [symmetric] by (simp add: nth_append)
  then have "wi_command (x_item ?x) = m_request t" using items_of_nth [OF p(2)] p(3) by simp
  ultimately show ?thesis using p lt n by (intro exI [of _ p]) (simp add: reported_by_def)
qed

text \<open>
  C1. What is reported is what happened, while the two ends are in step. In every run of the server
  and the controller program, over any network, with any time-outs, disconnections and interleaving
  of the threads, each motion task reported \<^verbatim>\<open>COMPLETED\<close> has an exchange of its own, in which
  its request was sent and whose received bytes are its response; the exchanges follow the task
  numbers. If that exchange was in step (its request arrived in one piece, nothing was left over from
  before, and at least four bytes of the answer arrived), the controller gave in it exactly the
  instruction the request asks for in the surroundings the request met, with the speed and zone it had
  then, this very instruction raised no error in those surroundings, and it stands in the
  controller's list after those of all exchanges before.
\<close>

theorem completed_motions_carried_out:
  assumes "link_run net L h xs"
  shows "\<exists>own. (\<forall>k t d. completed_motion (lk_server L) k t d \<longrightarrow>
      own k < length (work xs) \<and> reported_by (work xs ! own k) t \<and>
      (\<forall>env. in_step (work xs ! own k) env \<longrightarrow>
        (\<exists>i. asked_instruction env d (x_before (work xs ! own k)) = Some i \<and> ce_Move env i = None \<and>
          given (x_after (work xs ! own k)) = given (x_before (work xs ! own k)) @ [i] \<and>
          prefix (given (x_after (work xs ! own k))) (given (lk_peer L))))) \<and>
    (\<forall>j t d k u e. completed_motion (lk_server L) j t d \<and> completed_motion (lk_server L) k u e \<and>
      unat j < unat k \<longrightarrow> own j < own k) \<and>
    sorted_wrt (\<lambda>x y. prefix (given (x_after x)) (given (x_before y))) (work xs)"
proof -
  let ?D = "handed_over h" and ?K = "{k. \<exists>t d. completed_motion (lk_server L) k t d}"
  have inv: "link_inv L h xs" by (rule link_run_inv [OF assms])
  have "\<forall>k \<in> ?K. \<exists>p. p < length (work xs) \<and> p < length ?D \<and> fst (?D ! p) = k \<and>
      exchange_ok (work xs ! p) \<and> resolves (work xs ! p) (answer_taken (work xs ! p)) \<and>
      (\<forall>t. getTask k (tasker_s (sv (lk_server L))) = Some t \<longrightarrow> reported_by (work xs ! p) t)"
  proof
    fix k assume "k \<in> ?K"
    then obtain t where "getTask k (tasker_s (sv (lk_server L))) = Some t" "m_state t = COMPLETED"
      by (auto simp: completed_motion_def)
    from completed_exchange [OF inv this] this(1) show "\<exists>p. p < length (work xs) \<and> p < length ?D \<and>
      fst (?D ! p) = k \<and> exchange_ok (work xs ! p) \<and> resolves (work xs ! p) (answer_taken (work xs ! p)) \<and>
      (\<forall>t. getTask k (tasker_s (sv (lk_server L))) = Some t \<longrightarrow> reported_by (work xs ! p) t)" by auto
  qed
  then obtain own where own: "\<And>k. k \<in> ?K \<Longrightarrow> own k < length (work xs) \<and> own k < length ?D \<and>
      fst (?D ! own k) = k \<and> exchange_ok (work xs ! own k) \<and>
      resolves (work xs ! own k) (answer_taken (work xs ! own k)) \<and>
      (\<forall>t. getTask k (tasker_s (sv (lk_server L))) = Some t \<longrightarrow> reported_by (work xs ! own k) t)"
    by metis
  have order: "given_in_order xs (lk_peer L)" using inv by (simp add: link_inv_def)
  have "own k < length (work xs) \<and> reported_by (work xs ! own k) t \<and>
      (\<forall>env. in_step (work xs ! own k) env \<longrightarrow>
        (\<exists>i. asked_instruction env d (x_before (work xs ! own k)) = Some i \<and> ce_Move env i = None \<and>
          given (x_after (work xs ! own k)) = given (x_before (work xs ! own k)) @ [i] \<and>
          prefix (given (x_after (work xs ! own k))) (given (lk_peer L))))"
    if "completed_motion (lk_server L) k t d" for k t d
  proof -
    have k: "k \<in> ?K" using that by blast
    then have rep: "reported_by (work xs ! own k) t" using own that by (simp add: completed_motion_def)
    have "work xs ! own k \<in> set xs" using own [OF k] work_simps(3) [of xs] nth_mem by blast
    with order have "prefix (given (x_after (work xs ! own k))) (given (lk_peer L))"
      by (simp add: given_in_order_def)
    with own [OF k] rep that acknowledged_exchange [of "work xs ! own k" "answer_taken (work xs ! own k)"]
    show ?thesis by (simp add: completed_motion_def reported_by_def)
  qed
  moreover have "own j < own k" if jk: "j \<in> ?K" "k \<in> ?K" "unat j < unat k" for j k
  proof -
    have "sorted_wrt id_less (map fst ?D)"
      using link_run_facts(2) [OF assms] by (auto simp: order_ok_def dest: orderD(4))
    then show ?thesis
      using own [OF jk(1)] own [OF jk(2)] jk(3) sorted_wrt_nth_less [of id_less "map fst ?D" "own k" "own j"]
      by (metis length_map linorder_neqE_nat nth_map order.asym)
  qed
  moreover have "sorted_wrt (\<lambda>x y. prefix (given (x_after x)) (given (x_before y))) (work xs)"
    using order by (simp add: given_in_order_def work_def sorted_wrt_filter)
  ultimately show ?thesis by (intro exI [of _ own] conjI) blast+
qed

section \<open>A joint run\<close>

lemma sent_all:
  assumes "io_documented io" and "\<And>data. data \<noteq> [] \<Longrightarrow> 0 < io_send io data"
  shows "sent_bytes io r = bytes_RapidRequest r"
proof -
  let ?loop = "send_loop (io_send io) (bytes_RapidRequest r) 0 []"
  have "fst ?loop" by (rule send_loop_completes) (rule assms(2))
  then have "?loop = (True, snd ?loop)" by (metis prod.collapse)
  from send_loop_prefix [OF _ _ this] assms(1) show ?thesis
    by (auto simp: sent_bytes_def io_documented_def)
qed

text \<open>The state of the controller after it has started, with or without a connection.\<close>

lemma unserved_run_link:
  assumes "unserved_run s h" and "controller_main env [] = Closed c"
  shows "\<exists>L. link_run net L h [] \<and> lk_server L = s \<and> lk_unread L = [] \<and>
    lk_peer L = (if linked s then Serving c else Closed c)"
  using assms(1)
proof (induction rule: unserved_run.induct)
  case (unserved_start s)
  from link_run.link_start [OF this, of net env] show ?case
    by (intro exI [of _ "settle s (controller_main env []) []"]) (simp add: settle_def assms(2))
next
  case (unserved_step s h t)
  then obtain L where L: "link_run net L h []" "lk_server L = s" "lk_unread L = []"
    "lk_peer L = (if linked s then Serving c else Closed c)" by blast
  with unserved_step.hyps have "link_run net (settle t (lk_peer L) []) (add_events h s t) []"
    using link_run.link_other [OF L(1), of t] by simp
  with L(4) show ?case
    by (intro exI [of _ "settle t (lk_peer L) []"]) (simp add: settle_def)
qed

definition demo_zeroed :: controller where
  "demo_zeroed = controller_init\<lparr>instructions :=
     [\<lparr>in_motion = AbsJoint zero_pose, in_speed = 100, in_zone = RZ_fine\<rparr>]\<rparr>"

lemma demo_zeroed_start: "controller_main demo_calm [] = Closed demo_zeroed"
  by (simp add: controller_main_def demo_calm_def demo_zeroed_def Let_def)

definition demo_delivery :: delivery where
  "demo_delivery = \<lparr>dl_pieces = [(demo_calm, bytes_RapidRequest demo_command)], dl_bytes = 255\<rparr>"

lemma demo_io_tcp: "tcp_network demo_ack_io demo_command demo_delivery"
proof -
  have "sent_bytes demo_ack_io demo_command = bytes_RapidRequest demo_command"
    by (rule sent_all [OF demo_io_documented]) (simp add: demo_ack_io_def demo_io_def)
  then show ?thesis by (simp add: tcp_network_def demo_delivery_def bytes_RapidRequest_def le8_def)
qed

lemma demo_calm_documented: "env_documented demo_calm"
  by (simp add: env_documented_def demo_calm_def demo_ctl_def)

lemma demo_calm_sends: "ce_SocketSend demo_calm m = None"
  by (simp add: demo_calm_def demo_ctl_def)

text \<open>An exchange that goes through: the request is sent, and what arrives of the answers is the response.\<close>

lemma exchange_succeeds:
  assumes "robot_inv R" and "worker_thread_m R = Serve item False" and "wi_promise item = Some p"
    and "promises_m R ! p = None" and "io_documented io" and "\<And>data. data \<noteq> [] \<Longrightarrow> 0 < io_send io data"
    and "io_recv io = recv_from stream d" and "stream \<noteq> []" and "d \<noteq> 0"
  shows "\<exists>w. worker_loop_step io R = R\<lparr>wire_m := w,
    promises_m := (promises_m R)[p := Some (take (min d 255) stream)], worker_thread_m := LoopHead\<rparr>"
proof -
  have fd: "socket_fd_m R \<noteq> INVALID_SOCKET_FD" and framed: "framed R"
    using assms(1,2) by (auto simp: robot_inv_def connection_ok_def)
  have "fst (send_request io (wi_command item) R)"
    using send_loop_completes [of "io_send io" "bytes_RapidRequest (wi_command item)" 0 "[]"] assms(6)
    by (auto simp: send_request_def split: prod.split)
  then have "fst (send_and_receive io (wi_command item) R) = receive_buffer io"
    using fd by (auto simp: send_and_receive_def split: prod.split)
  also have "receive_buffer io = Inr (take (min d 255) stream)"
    using assms(7-9) by (simp add: receive_buffer_def recv_from_def)
  finally have ok: "fst (send_and_receive io (wi_command item) R) = Inr (take (min d 255) stream)" .
  with serve_item [OF assms(5) framed assms(3,4)] obtain w where "serve io item False R =
      (Inr (), R\<lparr>wire_m := w, promises_m := (promises_m R)[p := Some (take (min d 255) stream)]\<rparr>)"
    by auto
  with assms(2) show ?thesis by (auto simp: worker_loop_step_def)
qed

lemma demo_command_d: "complete_request (demo_sent 9)" "is_motion (demo_sent 9)"
  by (simp_all add: complete_request_def is_motion_def demo_sent_fields uses_target_def)

text \<open>The controller after the motion to the zero pose.\<close>

definition demo_zeroed_twice :: controller where
  "demo_zeroed_twice = ExecuteAction demo_calm (expected_action (demo_sent 9)) demo_zeroed"

lemma demo_zeroed_twice_fields:
  "instructions demo_zeroed_twice = [\<lparr>in_motion = AbsJoint zero_pose, in_speed = 100, in_zone = RZ_fine\<rparr>,
     \<lparr>in_motion = AbsJoint zero_pose, in_speed = 100, in_zone = RZ_fine\<rparr>]"
  "sent_msgs demo_zeroed_twice = [bytes_of_string ''ACK|ZERO'']"
  by (simp_all add: demo_zeroed_twice_def expected_action_def demo_sent_fields plain_action_def
      ExecuteAction_def action_body_def do_move_def SendResponse_def SocketSend_def demo_calm_def
      demo_ctl_def demo_zeroed_def controller_init_def Let_def)

lemma demo_reads:
  "controller_reads (dl_pieces demo_delivery) (Serving demo_zeroed) = Serving demo_zeroed_twice"
proof -
  have "\<not> stopped demo_zeroed" by (simp add: demo_zeroed_def controller_init_def)
  from handle_serves [OF demo_command_d(1) this demo_calm_sends] show ?thesis
    by (simp add: controller_reads_def demo_delivery_def demo_command_def demo_zeroed_twice_def)
qed

lemma demo_answer:
  "answers_between (Serving demo_zeroed) (Serving demo_zeroed_twice) = bytes_of_string ''ACK|ZERO''"
  by (simp add: answers_between_def demo_zeroed_twice_fields demo_zeroed_def controller_init_def)

text \<open>The joint state at the end of the server's run of the theory History.\<close>

definition demo_sending_server :: Server where
  "demo_sending_server =
     demo_state (demo_sessions 7 (Some demo_token)) demo_started demo_sending (RwAwait 1 0)"

definition demo_sending_item :: RobotWorkItem where
  "demo_sending_item = \<lparr>wi_command = demo_command, wi_promise = Some 0\<rparr>"

lemma demo_link:
  "\<exists>L h. link_run tcp_network L h [] \<and> lk_server L = demo_sending_server \<and> lk_unread L = [] \<and>
     lk_peer L = Serving demo_zeroed \<and> robot_point (lk_server L) = Serve demo_sending_item False"
proof -
  let ?s = demo_sending_server
  obtain h where "unserved_run ?s h"
    using demo_run by (auto simp: demo_reached_def demo_sending_server_def)
  from unserved_run_link [OF this demo_zeroed_start] obtain L where
    "link_run tcp_network L h []" "lk_server L = ?s" "lk_unread L = []"
    "lk_peer L = (if linked ?s then Serving demo_zeroed else Closed demo_zeroed)" by blast
  moreover have "linked ?s" "robot_point ?s = Serve demo_sending_item False"
    by (simp_all add: demo_sending_server_def linked_def robot_point_def demo_state_def
        demo_sending_def demo_handed_def demo_connected_def demo_sending_item_def
        enqueue_request_def INVALID_SOCKET_FD_def Let_def)
  ultimately show ?thesis by auto
qed

definition demo_exchange :: exchange_record where
  "demo_exchange = \<lparr>x_item = demo_sending_item, x_heartbeat = False, x_delivery = demo_delivery,
     x_unread = [], x_before = Serving demo_zeroed, x_after = Serving demo_zeroed_twice\<rparr>"

lemma demo_in_step: "arrived_whole demo_exchange demo_calm" "in_step demo_exchange demo_calm"
  by (simp_all add: in_step_def arrived_whole_def demo_exchange_def demo_delivery_def demo_sending_item_def)

lemma demo_exchanged:
  "\<exists>L h. link_run tcp_network (exchange demo_ack_io demo_delivery L) h [demo_exchange] \<and>
     lk_peer (exchange demo_ack_io demo_delivery L) = Serving demo_zeroed_twice \<and>
     (\<exists>R. lk_server (exchange demo_ack_io demo_delivery L) =
        demo_state (demo_sessions 7 (Some demo_token)) demo_started R (RwAwait 1 0) \<and>
        promises_m R = [Some (bytes_of_string ''ACK|ZERO'')] \<and> worker_thread_m R = LoopHead)"
proof -
  let ?item = demo_sending_item
  obtain L h where L: "link_run tcp_network L h []" "lk_server L = demo_sending_server"
    "lk_unread L = []" and peer: "lk_peer L = Serving demo_zeroed"
    and point: "robot_point (lk_server L) = Serve ?item False" using demo_link by blast
  let ?L = "exchange demo_ack_io demo_delivery L" and ?io = "exchange_io demo_ack_io demo_delivery L"
  have "tcp_network demo_ack_io (wi_command ?item) demo_delivery"
    using demo_io_tcp by (simp add: demo_sending_item_def)
  from link_run.link_exchange [OF L(1) point demo_io_documented this]
  have run: "\<exists>h. link_run tcp_network ?L h [demo_exchange]"
    by (auto simp: demo_exchange_def peer L(3) demo_reads)
  have stream: "stream_after demo_delivery L = bytes_of_string ''ACK|ZERO''"
    by (simp add: stream_after_def L(3) peer demo_reads demo_answer)
  have io: "io_documented ?io" "io_recv ?io = recv_from (stream_after demo_delivery L) 255"
    "\<And>data. data \<noteq> [] \<Longrightarrow> 0 < io_send ?io data"
  proof -
    show "io_documented ?io" by (rule exchange_io_documented [OF demo_io_documented])
  qed (simp_all add: exchange_io_def demo_delivery_def demo_ack_io_def demo_io_def)
  have sending: "worker_thread_m demo_sending = Serve ?item False" "promises_m demo_sending = [None]"
    "wi_promise ?item = Some 0"
    by (simp_all add: demo_sending_item_def demo_sending_def demo_handed_def demo_connected_def start_session_def
        Robot_new_def enqueue_request_def Let_def)
  have "robot_inv demo_sending"
    using link_run_facts(1) [OF L(1)]
    by (simp add: L(2) server_inv_def demo_sending_server_def demo_state_def)
  from exchange_succeeds [OF this sending(1,3) _ io(1,3,2)] stream sending(2) obtain w where
    step: "worker_loop_step ?io demo_sending = demo_sending\<lparr>wire_m := w,
      promises_m := [Some (bytes_of_string ''ACK|ZERO'')], worker_thread_m := LoopHead\<rparr>"
    by (auto simp: bytes_of_string_def)
  have "socket_fd_m (worker_loop_step ?io demo_sending) \<noteq> INVALID_SOCKET_FD"
    unfolding step by (simp add: demo_sending_def demo_handed_def demo_connected_def
        enqueue_request_def INVALID_SOCKET_FD_def Let_def)
  then have "linked (with_robot (worker_loop_step ?io) demo_sending_server)"
    by (simp add: demo_sending_server_def demo_state_def with_robot_def linked_def)
  then have "lk_peer ?L = Serving demo_zeroed_twice"
    by (simp add: exchange_def settle_def L(2) peer demo_reads)
  moreover have "lk_server ?L = demo_state (demo_sessions 7 (Some demo_token)) demo_started
      (demo_sending\<lparr>wire_m := w, promises_m := [Some (bytes_of_string ''ACK|ZERO'')], worker_thread_m := LoopHead\<rparr>)
      (RwAwait 1 0)"
    by (simp add: exchange_def L(2) demo_sending_server_def demo_state_def with_robot_def step)
  ultimately show ?thesis using run by force
qed

theorem completed_motions_carried_out_witness:
  "\<exists>L h x t i. link_run tcp_network L h [x] \<and> completed_motion (lk_server L) 1 t (demo_sent 9) \<and>
     in_step x demo_calm \<and> reported_by x t \<and> asked_instruction demo_calm (demo_sent 9) (x_before x) = Some i \<and>
     ce_Move demo_calm i = None \<and> given (x_after x) = given (x_before x) @ [i]"
proof -
  obtain L0 h R where run0: "link_run tcp_network (exchange demo_ack_io demo_delivery L0) h [demo_exchange]"
    and server: "lk_server (exchange demo_ack_io demo_delivery L0) =
      demo_state (demo_sessions 7 (Some demo_token)) demo_started R (RwAwait 1 0)"
    and R: "promises_m R = [Some (bytes_of_string ''ACK|ZERO'')]" "worker_thread_m R = LoopHead"
    using demo_exchanged by blast
  let ?L = "exchange demo_ack_io demo_delivery L0"
  let ?t = "robot_worker_step 10 False (lk_server ?L)"
  have "\<not> serving_point (lk_server ?L)"
    by (simp add: server serving_point_def robot_point_def demo_state_def R(2))
  with run0 link_run.link_other [OF _ step_worker] obtain h' where
    run: "link_run tcp_network (settle ?t (lk_peer ?L) (lk_unread ?L)) h' [demo_exchange]" by blast
  have "getTask 1 demo_waits = Some (Task_new 8 1 demo_command)"
    by (simp add: getTask_def demo_waits_def demo_queued_def addTask_def fetch_id_def
        emplace_task_def push_task_def Tasker_default_def)
  then have "getTask 1 demo_started = Some ((Task_new 8 1 demo_command)
      \<lparr>m_state := IN_PROGRESS, m_start_time := 9\<rparr>)"
    by (simp add: demo_started_def startTask_get markStarted_def Task_new_def)
  with demo_command_d R(1) have "\<exists>t. completed_motion ?t 1 t (demo_sent 9)"
    by (auto simp: completed_motion_def server robot_worker_step_def demo_state_def
        finish_task_def starts_with_def completeTask_get Task_new_def markCompleted_def demo_command_def)
  then obtain t where t: "completed_motion ?t 1 t (demo_sent 9)" by blast
  have one: "work [demo_exchange] = [demo_exchange]" by (simp add: work_def demo_exchange_def)
  from completed_motions_carried_out [OF run] obtain own where
    "\<forall>k t d. completed_motion ?t k t d \<longrightarrow> own k < length [demo_exchange] \<and>
      reported_by ([demo_exchange] ! own k) t \<and> (\<forall>env. in_step ([demo_exchange] ! own k) env \<longrightarrow>
        (\<exists>i. asked_instruction env d (x_before ([demo_exchange] ! own k)) = Some i \<and> ce_Move env i = None \<and>
          given (x_after ([demo_exchange] ! own k)) = given (x_before ([demo_exchange] ! own k)) @ [i] \<and>
          prefix (given (x_after ([demo_exchange] ! own k))) (given (lk_peer (settle ?t (lk_peer ?L) (lk_unread ?L))))))"
    unfolding one settle_fields by blast
  with t demo_in_step(2) run show ?thesis by (fastforce simp: settle_fields)
qed

section \<open>Heartbeats\<close>

text \<open>Whatever the rest of an uninitialised heartbeat holds, it is a heartbeat.\<close>

definition heartbeat_item :: "RobotWorkItem \<Rightarrow> bool" where
  "heartbeat_item item \<longleftrightarrow> command_id (wi_command item) = cmd_code PINGR"

lemma parse_heartbeat:
  "heartbeat_item item \<Longrightarrow>
     parse_message (bytes_RapidRequest (wi_command item)) = Execute (plain_action ''PINGR'')"
  by (simp add: heartbeat_item_def parse_message_def request_fields [unfolded One_nat_def] or_error_def
      command_to_string_def is_move_command_def Let_def)

lemma worker_heartbeat:
  "worker_thread_m (worker_loop_step io R) = Serve item True \<Longrightarrow>
     worker_thread_m R = Serve item True \<or> heartbeat_item item"
proof (cases "worker_thread_m R")
  case LoopHead
  assume "worker_thread_m (worker_loop_step io R) = Serve item True"
  with LoopHead show ?thesis
    by (auto simp: worker_loop_step_def split: if_splits prod.splits bool.splits dest: attempt_queue)
next
  case TakeWork
  assume "worker_thread_m (worker_loop_step io R) = Serve item True"
  with TakeWork show ?thesis
    by (cases "request_queue_m R")
      (auto simp: worker_loop_step_def pop_request_def heartbeat_item_def split: if_splits)
qed (auto simp: worker_loop_step_def split: prod.splits sum.splits)

lemma step_heartbeat:
  assumes "server_step s t" and "robot_point t = Serve item True"
  shows "robot_point s = Serve item True \<or> heartbeat_item item"
  using assms(1)
proof (cases rule: server_step.cases)
  case (step_request io env msg)
  have "robot_s (sv t) = robot_s (sv s)"
    using loop_effect [of "sv s" io env msg] unfolding step_request(1)
    by (auto simp: request_step_def split: prod.split)
  with assms(2) show ?thesis by (simp add: robot_point_def)
next
  case (step_worker now b)
  have "robot_point t = robot_point s"
    unfolding step_worker
    by (auto simp: robot_worker_step_def robot_point_def queue_request_def enqueue_request_def Let_def
        split: task_worker.split option.split prod.split wait_result.split sum.split)
  with assms(2) show ?thesis by simp
next
  case (step_sweeper now)
  have "robot_s (sv t) = robot_s (sv s)"
    unfolding step_sweeper by (simp add: sweeper_step_def split: prod.split sum.split)
  with assms(2) show ?thesis by (simp add: robot_point_def)
next
  case (step_robot io)
  with assms(2) worker_heartbeat show ?thesis by (auto simp: robot_point_def split: option.splits)
next
  case (step_stopped R R')
  with assms(2) show ?thesis
    by (auto simp: robot_point_def stop_session_finish_def split: if_splits)
qed (use assms(2) in \<open>auto simp: robot_point_def stop_parts stop_session_signal_def split: option.splits\<close>)

lemma start_point:
  assumes "server_started s"
  shows "robot_point s \<in> {NotStarted, LoopHead}"
proof -
  from assms obtain s0 host port ms k where "s = start s0" "robot_s (sv s0) = Some (Robot_new host port ms k)"
    by (auto simp: server_started_def Server_new_def sum_bind_Inr_iff)
  then show ?thesis by (simp add: robot_point_def start_def start_session_def Robot_new_def)
qed

lemma run_heartbeat: "server_run s h \<Longrightarrow> robot_point s = Serve item True \<Longrightarrow> heartbeat_item item"
proof (induction rule: server_run.induct)
  case (run_start s)
  then show ?case using start_point by fastforce
qed (use step_heartbeat in blast)

lemma link_heartbeats:
  "link_run net L h xs \<Longrightarrow> x \<in> set xs \<Longrightarrow> x_heartbeat x \<Longrightarrow> heartbeat_item (x_item x)"
proof (induction rule: link_run.induct)
  case (link_exchange L h xs item hb io dl)
  then show ?case using run_heartbeat [OF link_run_server] by auto
qed auto

section \<open>The controller program survives\<close>

lemma work_command:
  assumes "link_run net L h xs" and "x \<in> set xs" and "\<not> x_heartbeat x"
  shows "valid_request (wi_command (x_item x))"
proof -
  have "queue_inv (lk_server L) h xs" using link_run_inv [OF assms(1)] by (simp add: link_inv_def)
  then obtain R where q: "map x_item (work xs) @ pending_items R = items_of (handed_over h)"
    by (auto simp: queue_inv_def)
  have "x_item x \<in> set (items_of (handed_over h))"
    using assms(2,3) by (simp add: work_def flip: q)
  then obtain p where p: "p < length (handed_over h)" "items_of (handed_over h) ! p = x_item x"
    by (metis in_set_conv_nth items_of_simps(3))
  from items_of_nth [OF p(1)] have cmd: "wi_command (x_item x) = snd (handed_over h ! p)"
    unfolding p(2) by simp
  have ok: "order_ok (lk_server L) h" by (rule link_run_facts(2) [OF assms(1)])
  then have "handed_over h ! p \<in> set (accepted h)"
    using orderD(5) nth_mem [OF p(1)] by (fastforce simp: order_ok_def)
  with ok cmd show ?thesis by (simp add: order_ok_def)
qed

lemma arrived_parses:
  assumes "link_run net L h xs" and "x \<in> set xs"
  shows "\<exists>a. parse_message (bytes_RapidRequest (wi_command (x_item x))) = Execute a \<and>
    (x_heartbeat x \<longrightarrow> a = plain_action ''PINGR'')"
proof (cases "x_heartbeat x")
  case True
  with parse_heartbeat [OF link_heartbeats [OF assms]] show ?thesis by simp
next
  case False
  from work_command [OF assms this] obtain d where "complete_request d" "wi_command (x_item x) = request_spec d"
    by (auto simp: valid_request_def)
  with False show ?thesis by (simp add: parse_request)
qed

text \<open>
  C9. Of the messages that arrive whole, none stops the controller program unless sending its answer
  fails. Take any run over any network, and an
  exchange of it whose message, a command or a heartbeat (whose bytes beyond the first are whatever
  the memory held), reaches the serving controller in one piece, while times, dates and error numbers
  have their documented forms: the message is parsed and executed without an unhandled error and
  answered by one message or two, of which at most 255 bytes are sent, what the worker's
  \<^verbatim>\<open>recv\<close> asks for. The controller serves on after it, unless \<^verbatim>\<open>SocketSend\<close> fails on
  an answer, which stops it there; without a connection it sends nothing and serves on.
\<close>

theorem controller_keeps_serving:
  assumes "link_run net L h xs" and "x \<in> set xs" and "x_before x = Serving c"
    and "arrived_whole x env" and "env_documented env"
  shows "\<exists>a c' ms. parse_message (bytes_RapidRequest (wi_command (x_item x))) = Execute a \<and>
    (x_heartbeat x \<longrightarrow> a = plain_action ''PINGR'') \<and> c' = ExecuteAction env a c \<and>
    length ms \<in> {1, 2} \<and> length (answers_between (x_before x) (x_after x)) \<le> 255 \<and>
    (let out = takeWhile (\<lambda>m. ce_SocketSend env m = None) ms in
      if ce_connected env
      then sent_msgs c' = sent_msgs c @ out \<and> x_after x = (if out = ms then Serving c' else Raised c')
      else sent_msgs c' = sent_msgs c \<and> x_after x = Serving c')"
proof -
  have ok: "exchange_ok x" using link_run_inv [OF assms(1)] assms(2) by (simp add: link_inv_def)
  with assms(3) have runs: "\<not> stopped c" by (simp add: exchange_ok_def)
  obtain a where a: "parse_message (bytes_RapidRequest (wi_command (x_item x))) = Execute a"
    "x_heartbeat x \<longrightarrow> a = plain_action ''PINGR''" using arrived_parses [OF assms(1,2)] by blast
  let ?c = "ExecuteAction env a c"
  have "bytes_RapidRequest (wi_command (x_item x)) \<noteq> []" by (simp add: bytes_RapidRequest_def le8_def)
  with a(1) ok assms(3,4) have after: "x_after x = (if stopped ?c then Raised ?c else Serving ?c)"
    by (simp add: exchange_ok_def arrived_whole_def controller_reads_def HandleClient_def Let_def)
  obtain e c1 where "action_body env a c = (e, c1)" by fastforce
  from execute_answers [OF runs this] obtain ms where ms: "sends env c ms ?c" "length ms \<in> {1, 2}"
    by (auto split: if_splits)
  have "length (answers_between (x_before x) (x_after x)) \<le> 255"
    using execute_sized [OF assms(5), of c a] by (auto simp: adds_def answers_between_def after assms(3))
  with a ms after show ?thesis
    by (intro exI [of _ a] exI [of _ ?c] exI [of _ ms]) (auto simp: sends_def Let_def)
qed

section \<open>Where the motions come from\<close>

definition added :: "exchange_record \<Rightarrow> instruction list" where
  "added x = drop (length (given (x_before x))) (given (x_after x))"

definition start_instruction :: instruction where
  "start_instruction = \<lparr>in_motion = AbsJoint zero_pose, in_speed = 100, in_zone = RZ_fine\<rparr>"

lemma given_added:
  "link_run net L h xs \<Longrightarrow> given (lk_peer L) = start_instruction # concat (map added xs)"
proof (induction rule: link_run.induct)
  case (link_start s env)
  then show ?case by (simp add: controller_main_def start_instruction_def Let_def split: option.split)
next
  case (link_exchange L h xs item hb io dl)
  from reads_grow [of "lk_peer L" "dl_pieces dl"] link_exchange.IH show ?case
    by (auto simp: added_def exchange_def prefix_def)
qed auto

lemma execute_instructions:
  assumes "complete_request d"
  shows "\<exists>is. instructions (ExecuteAction env (expected_action d) c) = instructions c @ is \<and>
    (is = [] \<or> (\<exists>i. is = [i] \<and> asked_instruction env d (Serving c) = Some i))"
proof (cases "requested_motion env d")
  case None
  then have "instructions (snd (action_body env (expected_action d) c)) = instructions c"
    by (cases "cmd_type d")
      (auto simp: requested_motion_def action_body_def expected_action_def plain_action_def grows Let_def
        split: option.split)
  then show ?thesis
    by (auto simp: ExecuteAction_def grows Let_def split: prod.split option.split)
next
  case (Some m)
  obtain safe ack where b: "action_body env (expected_action d) c = move_if_safe env safe m ack c"
    using body_motion [OF Some] by blast
  have "instructions (snd (move_if_safe env safe m ack c)) = instructions c @
      (if safe then [\<lparr>in_motion = m, in_speed = move_speed c, in_zone = move_zone c\<rparr>] else [])"
    by (simp add: move_if_safe_def do_move_def grows Let_def split: option.split)
  with b have "instructions (ExecuteAction env (expected_action d) c) = instructions c @
      (if safe then [\<lparr>in_motion = m, in_speed = move_speed c, in_zone = move_zone c\<rparr>] else [])"
    by (auto simp: ExecuteAction_def grows Let_def split: prod.split option.split)
  with Some show ?thesis by (simp add: asked_instruction_def)
qed

lemma ping_instructions: "instructions (ExecuteAction env (plain_action ''PINGR'') c) = instructions c"
  by (simp add: ExecuteAction_def action_body_def plain_action_def grows Let_def)

lemma added_pieces:
  "exchange_ok x \<Longrightarrow> length (added x) \<le> length (dl_pieces (x_delivery x))"
  using reads_single [of "dl_pieces (x_delivery x)" "x_before x"] by (simp add: added_def exchange_ok_def)

lemma arrived_added:
  assumes "exchange_ok x" and "arrived_whole x env"
  shows "heartbeat_item (x_item x) \<Longrightarrow> added x = []"
    and "complete_request d \<Longrightarrow> wi_command (x_item x) = request_spec d \<Longrightarrow>
      added x = [] \<or> (\<exists>i. asked_instruction env d (x_before x) = Some i \<and> added x = [i])"
proof -
  have quiet: "added x = []" if "\<nexists>c. x_before x = Serving c"
  proof -
    from that have "x_after x = x_before x"
      using assms(1) by (cases "x_before x") (simp_all add: exchange_ok_def controller_reads_def)
    then show ?thesis by (simp add: added_def)
  qed
  show "added x = []" if "heartbeat_item (x_item x)"
  proof (cases "\<exists>c. x_before x = Serving c")
    case True
    with assms parse_heartbeat [OF that] show ?thesis
      by (auto simp: added_def exchange_ok_def arrived_whole_def controller_reads_def HandleClient_def
          ping_instructions Let_def)
  qed (use quiet in simp)
  show "added x = [] \<or> (\<exists>i. asked_instruction env d (x_before x) = Some i \<and> added x = [i])"
    if "complete_request d" "wi_command (x_item x) = request_spec d"
  proof (cases "\<exists>c. x_before x = Serving c")
    case True
    then obtain c where c: "x_before x = Serving c" by blast
    from handled_after [OF assms c that] execute_instructions [OF that(1), of env c] c show ?thesis
      by (auto simp: added_def)
  qed (use quiet in simp)
qed

lemma work_handed_over:
  assumes "queue_inv s h xs"
  shows "prefix (map (wi_command \<circ> x_item) (work xs)) (map snd (handed_over h))"
proof -
  from assms obtain R where q: "map x_item (work xs) @ pending_items R = items_of (handed_over h)"
    by (auto simp: queue_inv_def)
  have "map wi_command (items_of (handed_over h)) = map snd (handed_over h)"
    by (simp add: items_of_def list_eq_iff_nth_eq nth_enumerate_eq)
  then have "map snd (handed_over h) = map (wi_command \<circ> x_item) (work xs) @ map wi_command (pending_items R)"
    by (simp flip: q)
  then show ?thesis by simp
qed

lemma work_accepted:
  assumes "link_run net L h xs"
  shows "subseq (map (wi_command \<circ> x_item) (work xs)) (map snd (accepted h))"
proof -
  have "queue_inv (lk_server L) h xs" using link_run_inv [OF assms] by (simp add: link_inv_def)
  then have "prefix (map (wi_command \<circ> x_item) (work xs)) (map snd (handed_over h))"
    by (rule work_handed_over)
  moreover have "order_inv (sv_worker (lk_server L)) (tasker_s (sv (lk_server L))) (accepted h) (handed_over h)"
    using link_run_facts(2) [OF assms] by (simp add: order_ok_def)
  then have "subseq (handed_over h) (accepted h)"
    by (intro ordered_subset_subseq) (simp_all add: order_inv_def)
  then have "subseq (map snd (handed_over h)) (map snd (accepted h))" by (rule subseq_map)
  ultimately show ?thesis by (meson prefix_imp_subseq subseq_order.trans)
qed

text \<open>
  C2. The robot moves only on requests that arrive. In every joint run, over any network, the controller program's
  instructions are the one of its start and those given in the exchanges, in their order, and the
  requests of the exchanges that are not heartbeats are a subsequence of the commands accepted from
  clients. An exchange gives at most one instruction for each piece that reaches the controller. When
  its message arrives in one piece, it gives none if it is a heartbeat, and otherwise at most one:
  exactly the one its command asks for in the surroundings it met, with the speed and zone the
  controller had then. (The controller takes each piece of a divided message for a message of its own;
  which motion such a piece asks for is not claimed.)
\<close>

theorem moves_only_on_request:
  assumes "link_run net L h xs"
  shows "given (lk_peer L) = start_instruction # concat (map added xs) \<and>
    subseq (map (wi_command \<circ> x_item) (work xs)) (map snd (accepted h)) \<and>
    (\<forall>x \<in> set xs. length (added x) \<le> length (dl_pieces (x_delivery x)) \<and>
      (\<forall>env. arrived_whole x env \<longrightarrow>
        (if x_heartbeat x then added x = []
         else valid_request (wi_command (x_item x)) \<and>
           (\<forall>d. complete_request d \<and> wi_command (x_item x) = request_spec d \<longrightarrow>
             added x = [] \<or> (\<exists>i. asked_instruction env d (x_before x) = Some i \<and> added x = [i])))))"
proof -
  have ok: "exchange_ok x" if "x \<in> set xs" for x
    using link_run_inv [OF assms] that by (simp add: link_inv_def)
  show ?thesis
    using given_added [OF assms] work_accepted [OF assms] ok added_pieces arrived_added
      link_heartbeats [OF assms] work_command [OF assms]
    by (auto simp del: length_0_conv)
qed

section \<open>Concrete instances\<close>

theorem controller_keeps_serving_witness:
  "\<exists>L h c' ms. link_run tcp_network L h [demo_exchange] \<and> x_before demo_exchange = Serving demo_zeroed \<and>
     x_after demo_exchange = Serving c' \<and> sent_msgs c' = sent_msgs demo_zeroed @ ms \<and> length ms \<in> {1, 2}"
proof -
  obtain L h where run: "link_run tcp_network L h [demo_exchange]" using demo_exchanged by blast
  have x: "x_before demo_exchange = Serving demo_zeroed" "demo_exchange \<in> set [demo_exchange]"
    by (simp_all add: demo_exchange_def)
  have "ce_connected demo_calm" by (simp add: demo_calm_def demo_ctl_def)
  with controller_keeps_serving [OF run x(2,1) demo_in_step(1) demo_calm_documented]
  obtain c' ms where "x_after demo_exchange = Serving c'" "sent_msgs c' = sent_msgs demo_zeroed @ ms"
    "length ms \<in> {1, 2}"
    by (auto simp: demo_calm_sends Let_def)
  with run x(1) show ?thesis by blast
qed

theorem moves_only_on_request_witness:
  "\<exists>L h. link_run tcp_network L h [demo_exchange] \<and>
     (\<exists>i. given (lk_peer L) = [start_instruction, i] \<and>
        asked_instruction demo_calm (demo_sent 9) (Serving demo_zeroed) = Some i) \<and>
     demo_command \<in> set (map snd (accepted h))"
proof -
  obtain L h where run: "link_run tcp_network L h [demo_exchange]"
    and peer: "lk_peer L = Serving demo_zeroed_twice" using demo_exchanged by blast
  note facts = moves_only_on_request [OF run]
  have x: "wi_command (x_item demo_exchange) = request_spec (demo_sent 9)" "\<not> x_heartbeat demo_exchange"
    "x_before demo_exchange = Serving demo_zeroed" "work [demo_exchange] = [demo_exchange]"
    by (simp_all add: demo_exchange_def demo_sending_item_def demo_command_def work_def)
  from facts demo_in_step(1) demo_command_d(1) x obtain i where
    "added demo_exchange = [] \<or> asked_instruction demo_calm (demo_sent 9) (Serving demo_zeroed) = Some i \<and>
       added demo_exchange = [i]" by fastforce
  moreover have "added demo_exchange \<noteq> []"
    by (simp add: added_def demo_exchange_def demo_zeroed_twice_fields demo_zeroed_def controller_init_def)
  moreover have "demo_command \<in> set (map snd (accepted h))"
    using facts x by (simp add: subseq_singleton_left demo_command_def)
  ultimately show ?thesis using run facts by auto
qed

end
