(* ===== verification/Delivery.thy ===== *)
theory Delivery
  imports Agreement
begin

text \<open>
  What goes wrong when the two ends are not in step: both take whatever one
  \<^verbatim>\<open>recv\<close> or \<^verbatim>\<open>SocketReceive\<close> returns for one whole message, and
  requests and answers carry no number.
\<close>

section \<open>Requests in pieces, answers left over\<close>

lemma unpack_words_short:
  "length buf < i - 1 + 4 * n \<Longrightarrow> 0 < i \<Longrightarrow> 0 < n \<Longrightarrow> UnpackRawBytes_words buf i n = None"
proof (induction n arbitrary: i)
  case (Suc n)
  show ?case
  proof (cases "read32 buf (i - 1)")
    case (Some w)
    then have "\<not> length buf < i - 1 + 4" using c32.dec_None [of buf "i - 1"] by simp
    with Suc.prems have "0 < n" "length buf < (i + 4) - 1 + 4 * n" by (auto intro: gr0I)
    with Suc.IH [of "i + 4"] Some show ?thesis by simp
  qed simp
qed simp

lemma parse_cut_motion:
  assumes "complete_request d" and "cmd_type d \<in> {MOVE_L, MOVE_J, MOVE_C, MOVE_ABS_J, MOVE_L_OFFS, MOVE_J_OFFS}"
    and "4 \<le> n" and "n < 72"
  shows "parse_message (take n (bytes_RapidRequest (request_spec d))) = RapidError"
proof -
  let ?b = "bytes_RapidRequest (request_spec d)"
  have "UnpackRawBytes_USINT (take n ?b) 1 = UnpackRawBytes_USINT ?b 1"
    using assms(3) by (simp add: UnpackRawBytes_USINT_def read8_def read_bytes_def min_def)
  then have id: "UnpackRawBytes_USINT (take n ?b) 1 = Some (unat (cmd_code (cmd_type d)))"
    by (simp add: request_fields request_spec_def del: One_nat_def)
  have "unpack_robtarget (take n ?b) 5 = None"
    using assms(4) by (simp add: unpack_robtarget_def unpack_words_short)
  moreover have "is_move_command (command_to_string (unat (cmd_code (cmd_type d))))"
    "command_to_string (unat (cmd_code (cmd_type d))) \<notin> {''GETSTATUS'', ''SetZone'', ''SetSpeed''}"
    using assms(2) by (auto simp: command_to_string_def is_move_command_def)
  moreover have "\<not> length (take n ?b) < 4" using assms(3) by simp
  ultimately show ?thesis
    by (simp add: parse_message_def id or_error_def Let_def del: One_nat_def)
qed

text \<open>
  C22. The controller program does not survive a request in two pieces: TCP may deliver the first 4 to 71
  bytes of a motion request ahead of the others, and the controller, which takes whatever one
  \<^verbatim>\<open>SocketReceive\<close> returns for a message, then stops with an error in the middle of
  parsing; it has executed and answered nothing, and answers no later request either.
\<close>

theorem split_request_stops_controller:
  assumes "complete_request d"
    and "cmd_type d \<in> {MOVE_L, MOVE_J, MOVE_C, MOVE_ABS_J, MOVE_L_OFFS, MOVE_J_OFFS}"
    and "4 \<le> n" and "n < 72" and "sent_bytes io (request_spec d) = bytes_RapidRequest (request_spec d)"
    and "dl = \<lparr>dl_pieces = [(env, take n (bytes_RapidRequest (request_spec d))),
                           (env', drop n (bytes_RapidRequest (request_spec d)))], dl_bytes = b\<rparr>"
    and "lk_peer L = Serving c"
  shows "tcp_network io (request_spec d) dl \<and> lk_peer (exchange io dl L) = Raised c \<and>
    stream_after dl L = lk_unread L \<and>
    (\<forall>io' dl'. lk_peer (exchange io' dl' (exchange io dl L)) = Raised c \<and>
       stream_after dl' (exchange io dl L) = lk_unread (exchange io dl L))"
proof -
  let ?b = "bytes_RapidRequest (request_spec d)"
  have "take n ?b \<noteq> []" "drop n ?b \<noteq> []" using assms(3,4) by (simp_all flip: length_0_conv)
  then have "tcp_network io (request_spec d) dl" using assms(5,6) by (simp add: tcp_network_def)
  moreover have reads: "controller_reads (dl_pieces dl) (Serving c) = Raised c"
    using parse_cut_motion [OF assms(1-4)] \<open>take n ?b \<noteq> []\<close>
    by (simp add: assms(6) controller_reads_def HandleClient_def)
  then have "lk_peer (exchange io dl L) = Raised c" "stream_after dl L = lk_unread L"
    using assms(7) by (simp_all add: exchange_def settle_def stream_after_def answers_between_def)
  moreover have "controller_reads ps (Raised c) = Raised c" for ps by (simp add: controller_reads_def)
  then have "lk_peer (exchange io' dl' M) = Raised c \<and> stream_after dl' M = lk_unread M"
    if "lk_peer M = Raised c" for io' dl' M
    using that by (simp add: exchange_def settle_def stream_after_def answers_between_def)
  ultimately show ?thesis by blast
qed

text \<open>While the robot's worker serves a request its promise is open and its connection is up.\<close>

lemma serving_facts:
  assumes "server_inv s" and "robot_point s = Serve item False" and "wi_promise item = Some p"
  shows "\<exists>R. robot_s (sv s) = Some R \<and> worker_thread_m R = Serve item False \<and> robot_inv R \<and>
    p < length (promises_m R) \<and> promises_m R ! p = None \<and> socket_fd_m R \<noteq> INVALID_SOCKET_FD"
proof -
  obtain R where R: "robot_s (sv s) = Some R" "worker_thread_m R = Serve item False"
    using assms(2) by (auto simp: robot_point_def split: option.splits)
  then have inv: "robot_inv R" using assms(1) by (simp add: server_inv_def)
  have "item \<in> set (pending_items R)" using R(2) by (simp add: pending_items_def serving_def)
  then have "p < length (promises_m R) \<and> promises_m R ! p = None"
    using inv assms(3) pending_promise [of R item] by (auto simp: robot_inv_def)
  moreover have "socket_fd_m R \<noteq> INVALID_SOCKET_FD"
    using inv R(2) by (auto simp: robot_inv_def connection_ok_def)
  ultimately show ?thesis using R inv by blast
qed

text \<open>
  C21. One answer late is late for ever: when a message is left over on the connection (after a
  kinematic error the controller sends two) and \<^verbatim>\<open>recv\<close> returns one message at a time,
  the next task is reported by the message left over, whatever the controller does with its own
  request, and the answer to that request is left over in its place.
\<close>

theorem left_over_answer_decides:
  assumes "server_inv (lk_server L)" and "sv_worker (lk_server L) = RwAwait k p"
    and "robot_point (lk_server L) = Serve item False" and "wi_promise item = Some p"
    and "lk_unread L = m" and "m \<noteq> []" and "length m \<le> 255"
    and "io_documented io" and "\<And>data. data \<noteq> [] \<Longrightarrow> 0 < io_send io data"
    and "dl = \<lparr>dl_pieces = [(env, bytes_RapidRequest (wi_command item))], dl_bytes = length m\<rparr>"
    and "L' = exchange io dl L" and "s' = robot_worker_step now b (lk_server L')"
  shows "tcp_network io (wi_command item) dl \<and>
    map_option m_state (getTask k (tasker_s (sv s'))) =
      Some (if acknowledged m then COMPLETED else FAILED) \<and>
    lk_unread L' = answers_between (lk_peer L) (lk_peer L')"
proof -
  let ?s = "lk_server L" and ?io = "exchange_io io dl L"
  obtain R where R: "robot_s (sv ?s) = Some R" "worker_thread_m R = Serve item False" "robot_inv R"
    and p: "p < length (promises_m R)" "promises_m R ! p = None" and fd: "socket_fd_m R \<noteq> INVALID_SOCKET_FD"
    using serving_facts [OF assms(1,3,4)] by blast
  have stream: "stream_after dl L = m @ answers_between (lk_peer L) (controller_reads (dl_pieces dl) (lk_peer L))"
    by (simp add: stream_after_def assms(5))
  have io: "io_documented ?io" "io_recv ?io = recv_from (stream_after dl L) (length m)"
    by (rule exchange_io_documented [OF assms(8)]) (simp add: exchange_io_def assms(10))
  have send: "\<And>data. data \<noteq> [] \<Longrightarrow> 0 < io_send ?io data" using assms(9) by (simp add: exchange_io_def)
  from exchange_succeeds [OF R(3,2) assms(4) p(2) io(1) send io(2)] assms(6,7) obtain w where
    step: "worker_loop_step ?io R = R\<lparr>wire_m := w, promises_m := (promises_m R)[p := Some m],
      worker_thread_m := LoopHead\<rparr>"
    by (auto simp: stream min_absorb1)
  have server: "lk_server L' = with_robot (worker_loop_step ?io) ?s" by (simp add: assms(11) exchange_def)
  have "linked (with_robot (worker_loop_step ?io) ?s)" using R(1) fd by (simp add: linked_def step)
  then have "lk_unread L' = drop (min (dl_bytes dl) 255) (stream_after dl L)"
    unfolding assms(11) by (simp add: exchange_def settle_def)
  moreover have "dl_bytes dl = length m" by (simp add: assms(10))
  ultimately have "lk_unread L' = answers_between (lk_peer L) (controller_reads (dl_pieces dl) (lk_peer L))"
    using assms(7) by (simp add: stream min_absorb1)
  then have unread: "lk_unread L' = answers_between (lk_peer L) (lk_peer L')"
    by (simp add: answers_between_def assms(11) exchange_def)
  have "tasks_ok (RwAwait k p) (tasker_s (sv ?s))" using assms(1,2) by (simp add: server_inv_def)
  then obtain t where t: "getTask k (tasker_s (sv ?s)) = Some t" "m_state t = IN_PROGRESS"
    by (auto simp: tasks_ok_def worker_ok_def)
  have "tasker_s (sv s') = finish_task now k m (tasker_s (sv ?s))"
    using R(1) assms(2) p(1)
    by (simp add: assms(12) robot_worker_step_def server step)
  with t have "map_option m_state (getTask k (tasker_s (sv s'))) =
      Some (if acknowledged m then COMPLETED else FAILED)"
    by (auto simp: finish_task_def acknowledged_def failTask_get completeTask_get markFailed_def
        markCompleted_def Let_def)
  moreover have "tcp_network io (wi_command item) dl"
    using sent_all [OF assms(8,9)] by (simp add: tcp_network_def assms(10) bytes_RapidRequest_def le8_def)
  ultimately show ?thesis using unread by blast
qed

section \<open>Concrete instances\<close>

theorem split_request_stops_controller_witness:
  "lk_peer (exchange demo_ack_io
       \<lparr>dl_pieces = [(demo_calm, take 60 (bytes_RapidRequest (request_spec demo_linear))),
                     (demo_calm, drop 60 (bytes_RapidRequest (request_spec demo_linear)))],
        dl_bytes = 0\<rparr>
       \<lparr>lk_server = demo_awaiting, lk_peer = Serving demo_zeroed, lk_unread = []\<rparr>) = Raised demo_zeroed"
proof -
  have "complete_request demo_linear" "cmd_type demo_linear = MOVE_L"
    by (simp_all add: demo_linear_def complete_request_def uses_target_def)
  moreover have "sent_bytes demo_ack_io (request_spec demo_linear) = bytes_RapidRequest (request_spec demo_linear)"
    by (rule sent_all [OF demo_io_documented]) (simp add: demo_ack_io_def demo_io_def)
  ultimately show ?thesis
    using split_request_stops_controller [of demo_linear 60 demo_ack_io _ demo_calm demo_calm 0
        "\<lparr>lk_server = demo_awaiting, lk_peer = Serving demo_zeroed, lk_unread = []\<rparr>" demo_zeroed]
    by simp
qed

text \<open>The answer to an earlier heartbeat completes a task.\<close>

theorem left_over_answer_decides_witness:
  "map_option m_state (getTask 1 (tasker_s (sv (robot_worker_step 9 False (lk_server
     (exchange demo_ack_io
        \<lparr>dl_pieces = [(demo_ctl, bytes_RapidRequest (wi_command demo_item))],
         dl_bytes = length (bytes_of_string ''ACK|PONGRUWU'')\<rparr>
        \<lparr>lk_server = demo_awaiting, lk_peer = Serving demo_zeroed,
         lk_unread = bytes_of_string ''ACK|PONGRUWU''\<rparr>)))))) = Some COMPLETED"
proof -
  let ?L = "\<lparr>lk_server = demo_awaiting, lk_peer = Serving demo_zeroed,
    lk_unread = bytes_of_string ''ACK|PONGRUWU''\<rparr>"
  have a: "sv_worker demo_awaiting = RwAwait 1 0" "robot_point demo_awaiting = Serve demo_item False"
    "wi_promise demo_item = Some 0"
    by (simp_all add: demo_awaiting_def demo_server_def robot_point_def demo_serving_def demo_item_def)
  have send: "\<And>data. data \<noteq> [] \<Longrightarrow> 0 < io_send demo_ack_io data"
    by (simp add: demo_ack_io_def demo_io_def)
  have m: "bytes_of_string ''ACK|PONGRUWU'' \<noteq> []" "length (bytes_of_string ''ACK|PONGRUWU'') \<le> 255"
    "acknowledged (bytes_of_string ''ACK|PONGRUWU'')"
    by (simp_all add: bytes_of_string_def acknowledged_def starts_with_def string_of_bytes_def)
  from left_over_answer_decides [of ?L 1 0 demo_item "bytes_of_string ''ACK|PONGRUWU''",
      OF _ _ _ a(3) _ m(1,2) demo_io_documented send refl refl refl] a(1,2) m(3) demo_awaiting_inv
  show ?thesis by simp
qed

end
