(* ===== verification/Atomicity.thy ===== *)
theory Atomicity
  imports Server "HOL-Library.Sublist"
begin

text \<open>
  Why a client's command may be handled in one step. The code of
  \<^verbatim>\<open>handle_robot_command\<close> checks the session, the lock and the connection first and calls
  \<^verbatim>\<open>addTask\<close> last; in between, the robot worker, the robot's own thread and the sweeper may
  run. Whatever they do there can as well be done after the whole request.
\<close>

section \<open>The steps of the other threads\<close>

datatype window_step = WWorker int bool | WRobot robot_io | WSweeper int

fun window :: "window_step \<Rightarrow> Server \<Rightarrow> Server" where
  "window (WWorker now timed_out) s = robot_worker_step now timed_out s"
| "window (WRobot io) s = with_robot (worker_loop_step io) s"
| "window (WSweeper now) s = sweeper_step now s"

definition register :: "int \<Rightarrow> RapidRequest \<Rightarrow> Server \<Rightarrow> Server" where
  "register now r s = on_tasker (\<lambda>T. snd (addTask now r T)) s"

text \<open>The next task number is not in use, and the registry is not shut down.\<close>

definition fresh_number :: "task_id_t \<Rightarrow> Server \<Rightarrow> bool" where
  "fresh_number k s \<longleftrightarrow>
     (let T = tasker_s (sv s) in
      m_next_task_counter T = k \<and> getTask k T = None \<and> k \<notin> set (m_task_queue T) \<and>
      \<not> m_shutdown T \<and> current_task (sv_worker s) \<noteq> Some k)"

definition with_task :: "int \<Rightarrow> RapidRequest \<Rightarrow> task_id_t \<Rightarrow> Tasker \<Rightarrow> Tasker" where
  "with_task now r k T =
     T\<lparr>m_next_task_counter := k + 1, m_task_map := (k, Task_new now k r) # m_task_map T,
       m_task_queue := m_task_queue T @ [k]\<rparr>"

lemma add_with_task:
  "m_next_task_counter T = k \<Longrightarrow> getTask k T = None \<Longrightarrow> snd (addTask now r T) = with_task now r k T"
  by (simp add: addTask_def fetch_id_def emplace_task_def push_task_def getTask_def with_task_def)

lemma register_fresh: "fresh_number k s \<Longrightarrow> register now r s = on_tasker (with_task now r k) s"
  by (simp add: register_def fresh_number_def Let_def add_with_task on_tasker_def)

section \<open>Registering commutes with them\<close>

named_theorems passes \<open>operations that pass a new task by\<close>

lemma update_passes [passes]:
  assumes "j \<noteq> k"
  shows "update_task j f (with_task now r k T) =
    (fst (update_task j f T), with_task now r k (snd (update_task j f T)))"
  using assms by (auto simp: update_task_def with_task_def split: option.split)

lemma calls_pass [passes]:
  assumes "j \<noteq> k"
  shows "startTask t j (with_task now r k T) =
      (fst (startTask t j T), with_task now r k (snd (startTask t j T)))"
    and "snd (failTask t j msg (with_task now r k T)) = with_task now r k (snd (failTask t j msg T))"
    and "finish_task t j raw (with_task now r k T) = with_task now r k (finish_task t j raw T)"
  using assms
  by (simp_all add: startTask_def failTask_def completeTask_def finish_task_def passes Let_def)

lemma get_passes [passes]: "j \<noteq> k \<Longrightarrow> getTask j (with_task now r k T) = getTask j T"
  by (simp add: getTask_def with_task_def)

lemma sweep_passes [passes]:
  "sweepExpiredTasks t x (with_task now r k T) = with_task now r k (sweepExpiredTasks t x T)"
  by (simp add: sweepExpiredTasks_def with_task_def isExpired_def Task_new_def)

lemma wait_passes:
  assumes "m_task_queue T \<noteq> []"
  shows "waitForNextTask (with_task now r k T) =
      (fst (waitForNextTask T), with_task now r k (snd (waitForNextTask T)))"
    and "fst (waitForNextTask T) = Next (Some (hd (m_task_queue T)))"
  using assms by (simp_all add: waitForNextTask_def with_task_def)

lemma worker_passes:
  assumes "fresh_number k s" and "\<not> (sv_worker s = RwWait \<and> m_task_queue (tasker_s (sv s)) = [])"
  shows "robot_worker_step t b (on_tasker (with_task now r k) s) =
    on_tasker (with_task now r k) (robot_worker_step t b s)"
proof -
  have cur: "current_task (sv_worker s) \<noteq> Some k" using assms(1) by (simp add: fresh_number_def Let_def)
  show ?thesis
  proof (cases "sv_worker s")
    case RwWait
    with assms(2) have q: "m_task_queue (tasker_s (sv s)) \<noteq> []" by simp
    from RwWait show ?thesis
      using wait_passes [OF q]
      by (cases "waitForNextTask (tasker_s (sv s))") (simp add: robot_worker_step_def on_tasker_def)
  next
    case (RwStart j)
    with cur have "j \<noteq> k" by auto
    with RwStart show ?thesis
      by (cases "startTask t j (tasker_s (sv s))") (simp add: robot_worker_step_def passes on_tasker_def)
  next
    case (RwFetch j)
    with cur have "j \<noteq> k" by auto
    with RwFetch show ?thesis
      by (simp add: robot_worker_step_def passes on_tasker_def split: option.split)
  next
    case (RwSubmit j req)
    then show ?thesis
      by (simp add: robot_worker_step_def on_tasker_def with_robot_def split: option.split prod.split sum.split)
  next
    case (RwAwait j p)
    with cur have "j \<noteq> k" by auto
    with RwAwait show ?thesis
      by (simp add: robot_worker_step_def passes on_tasker_def split: option.split)
  qed (simp_all add: robot_worker_step_def on_tasker_def)
qed

lemma window_passes:
  assumes "fresh_number k s"
  shows "window w (on_tasker (with_task now r k) s) = on_tasker (with_task now r k) (window w s) \<or>
    window w s = s"
proof (cases w)
  case (WWorker t b)
  show ?thesis
  proof (cases "sv_worker s = RwWait \<and> m_task_queue (tasker_s (sv s)) = []")
    case True
    with assms have "window w s = s"
      by (simp add: WWorker robot_worker_step_def waitForNextTask_def fresh_number_def Let_def)
    then show ?thesis ..
  next
    case False
    with worker_passes [OF assms] WWorker show ?thesis by simp
  qed
next
  case (WRobot io)
  then show ?thesis by (simp add: with_robot_def on_tasker_def)
next
  case (WSweeper t)
  then show ?thesis
    by (simp add: sweeper_step_def on_tasker_def passes split: prod.split sum.split)
qed

section \<open>The number stays fresh\<close>

lemma wait_next:
  "waitForNextTask T = (w, T') \<Longrightarrow> m_next_task_counter T' = m_next_task_counter T \<and>
     getTask k T' = getTask k T \<and> m_shutdown T' = m_shutdown T \<and>
     set (m_task_queue T') \<subseteq> set (m_task_queue T) \<and>
     (\<forall>j. w = Next (Some j) \<longrightarrow> j \<in> set (m_task_queue T))"
  by (cases "m_task_queue T") (auto simp: waitForNextTask_def getTask_def split: if_splits)

lemma update_shutdown: "m_shutdown (snd (update_task j f T)) = m_shutdown T"
  by (simp add: update_task_def split: option.split)

lemma calls_shutdown:
  "m_shutdown (snd (startTask t j T)) = m_shutdown T" "m_shutdown (snd (failTask t j msg T)) = m_shutdown T"
  "m_shutdown (finish_task t j raw T) = m_shutdown T"
  by (simp_all add: startTask_def failTask_def completeTask_def finish_task_def update_shutdown Let_def)

lemma finish_fields:
  "m_next_task_counter (finish_task t j raw T) = m_next_task_counter T"
  "m_task_queue (finish_task t j raw T) = m_task_queue T"
  "(getTask k (finish_task t j raw T) = None) = (getTask k T = None)"
  by (simp_all add: finish_task_def update_call_rest update_calls failTask_get completeTask_get Let_def)

lemma worker_fresh:
  assumes "fresh_number k s"
  shows "fresh_number k (robot_worker_step t b s)"
proof (cases "sv_worker s")
  case RwWait
  obtain w T where wt: "waitForNextTask (tasker_s (sv s)) = (w, T)" by fastforce
  with wait_next [OF wt, of k] assms RwWait show ?thesis
    by (cases w) (auto simp: robot_worker_step_def fresh_number_def Let_def split: option.split)
next
  case (RwStart j)
  with assms show ?thesis
    by (cases "startTask t j (tasker_s (sv s))")
      (auto simp: robot_worker_step_def fresh_number_def Let_def startTask_get update_call_rest update_calls
        calls_shutdown dest!: arg_cong [where f = snd])
next
  case (RwFetch j)
  with assms show ?thesis
    by (auto simp: robot_worker_step_def fresh_number_def Let_def failTask_get update_call_rest update_calls
        calls_shutdown split: option.split)
next
  case (RwSubmit j req)
  with assms show ?thesis
    by (auto simp: robot_worker_step_def fresh_number_def Let_def split: option.split sum.split prod.split)
next
  case (RwAwait j p)
  with assms show ?thesis
    by (auto simp: robot_worker_step_def fresh_number_def Let_def failTask_get update_call_rest update_calls
        calls_shutdown finish_fields split: option.split)
qed (use assms in \<open>simp_all add: robot_worker_step_def fresh_number_def Let_def\<close>)

lemma window_fresh: "fresh_number k s \<Longrightarrow> fresh_number k (window w s)"
proof (cases w)
  case (WSweeper t)
  assume "fresh_number k s"
  with WSweeper show ?thesis
    by (auto simp: sweeper_step_def fresh_number_def Let_def sweep_absent sweep_rest
        sweepExpiredTasks_def getTask_def map_of_eq_None_iff image_iff split: prod.split sum.split)
qed (simp_all add: worker_fresh, simp add: fresh_number_def)

lemma windows_pass:
  assumes "fresh_number k s"
  shows "\<exists>ws'. subseq ws' ws \<and> fold window ws' (register now r s) = register now r (fold window ws s)"
  using assms
proof (induction ws arbitrary: s)
  case (Cons w ws)
  have fresh: "fresh_number k (window w s)" using window_fresh [OF Cons.prems] .
  from Cons.IH [OF this] obtain ws' where ws': "subseq ws' ws"
    "fold window ws' (register now r (window w s)) = register now r (fold window ws (window w s))" by blast
  from window_passes [OF Cons.prems, of w now r] show ?case
  proof
    assume "window w (on_tasker (with_task now r k) s) = on_tasker (with_task now r k) (window w s)"
    then have "window w (register now r s) = register now r (window w s)"
      using register_fresh [OF Cons.prems] register_fresh [OF fresh] by simp
    with ws' show ?thesis by (intro exI [of _ "w # ws'"]) simp
  next
    assume "window w s = s"
    with ws' show ?thesis by (intro exI [of _ ws']) (simp add: list_emb_Cons)
  qed
next
  case Nil
  show ?case by (intro exI [of _ "[]"]) simp
qed

section \<open>Property\<close>

text \<open>
  C29. A client's command takes effect in one step. When a granted robot command has passed its checks
  (and its session is refreshed) and the robot worker, the robot's thread and the sweeper then run for
  as long as they like before the handler calls \<^verbatim>\<open>addTask\<close>, the state reached is also reached by
  handling the whole request at once and letting the same threads run afterwards, without some of
  their idle steps. (While the server is being stopped this does not hold: the worker may have left.)
\<close>

theorem command_handled_at_once:
  assumes "server_inv s" and "sv_worker s \<noteq> RwCrashed" and "\<not> m_shutdown (tasker_s (sv s))"
    and "mutex_free (sv s)" and "serves_robot (cmd_type req)" and "granted req (sv s)"
    and "robot_s (sv s) = Some R" and "is_connected R" and "complete_request req"
    and "checked = s\<lparr>sv := refreshed env req (sv s)\<rparr>"
    and "reached = register (task_time env) (request_spec req) (fold window ws checked)"
  shows "\<exists>ws'. subseq ws' ws \<and> fold window ws' (s\<lparr>sv := snd (handle env req (sv s))\<rparr>) = reached"
proof -
  let ?k = "m_next_task_counter (tasker_s (sv s))"
  have same: "tasker_s (refreshed env req (sv s)) = tasker_s (sv s)"
    using assms(4) by (simp add: refreshed_def)
  have ok: "tasks_ok (sv_worker s) (tasker_s (sv s))" using assms(1,2) by (simp add: server_inv_def)
  then have ids: "task_ids_ok (tasker_s (sv s))" by (rule tasks_ok_ids)
  have "getTask ?k (tasker_s (sv s)) = None" "?k \<notin> set (m_task_queue (tasker_s (sv s)))"
    using ids unfolding task_ids_ok_def by (metis less_irrefl not_None_eq, blast)
  moreover have "current_task (sv_worker s) \<noteq> Some ?k"
    using ok unfolding tasks_ok_def worker_ok_def by blast
  ultimately have "fresh_number ?k checked"
    using assms(3) by (simp add: fresh_number_def Let_def assms(10) same)
  moreover have "s\<lparr>sv := snd (handle env req (sv s))\<rparr> = register (task_time env) (request_spec req) checked"
    using assms(4-9) same
    by (simp add: handle_robot robot_command_free create_rapid_request_complete register_def on_tasker_def
        assms(10))
  ultimately show ?thesis using windows_pass assms(11) by metis
qed

theorem command_handled_at_once_witness:
  "\<exists>ws'. subseq ws' [WWorker 9 True, WSweeper 10, WWorker 11 False] \<and>
     fold window ws' (demo_awaiting\<lparr>sv := snd (handle demo_env (demo_request ZERO) (sv demo_awaiting))\<rparr>) =
     register 8 (request_spec (demo_request ZERO))
       (fold window [WWorker 9 True, WSweeper 10, WWorker 11 False]
         (demo_awaiting\<lparr>sv := refreshed demo_env (demo_request ZERO) (sv demo_awaiting)\<rparr>))"
proof -
  have w: "sv_worker demo_awaiting \<noteq> RwCrashed" "\<not> m_shutdown (tasker_s (sv demo_awaiting))"
    "robot_s (sv demo_awaiting) = Some demo_serving" "is_connected demo_serving"
    by (simp_all add: demo_awaiting_def demo_server_def demo_tasker_def Tasker_default_def
        is_connected_def demo_serving_def)
  have r: "serves_robot (cmd_type (demo_request ZERO))" "complete_request (demo_request ZERO)"
    by (simp_all add: serves_robot_def demo_request_def complete_request_def uses_target_def)
  have g: "mutex_free (sv demo_awaiting)" "granted (demo_request ZERO) (sv demo_awaiting)"
    using demo_granted demo_server_inv
    by (simp_all add: demo_awaiting_def granted_def handler_inv_def live_token_def lock_held_def)
  from command_handled_at_once [OF demo_awaiting_inv w(1,2) g(1) r(1) g(2) w(3,4) r(2) refl refl,
      of "[WWorker 9 True, WSweeper 10, WWorker 11 False]" demo_env]
  show ?thesis by (simp add: demo_env_def)
qed

end
