(* ===== verification/Spec2Isabelle.thy ===== *)
theory Spec2Isabelle
  imports Program Delivery Atomicity
begin

text \<open>
  Verification of the Robert middleware: a server that lets authenticated clients drive an ABB robot
  through a controller program written in RAPID.

  \<^bold>\<open>The program.\<close> A client sends a protobuf request over a ZeroMQ REP socket. The request loop
  (\<^verbatim>\<open>src/server/server.cpp\<close>, \<^verbatim>\<open>loop_\<close>) decodes it
  (\<^verbatim>\<open>src/commands/decoder.cpp\<close>) and gives it to the request handler
  (\<^verbatim>\<open>src/server/request_handler.cpp\<close>), which checks the session and the hardware lock
  (\<^verbatim>\<open>src/server/session.cpp\<close>), translates a robot command to the packed request of the
  controller (\<^verbatim>\<open>src/commands/commands.cpp\<close>, on the structs of
  \<^verbatim>\<open>src/core/data.hpp\<close>) and registers it as a task
  (\<^verbatim>\<open>src/server/tasker.cpp\<close>). A second thread of the server
  (\<^verbatim>\<open>robot_worker_loop_\<close>) takes the tasks in order and submits their requests to the robot
  object (\<^verbatim>\<open>src/robot/robot.cpp\<close>), whose own thread keeps the TCP connection
  (\<^verbatim>\<open>src/network/sock_comm.cpp\<close>), sends the bytes, receives the answer and resolves the
  promise the second thread waits for. The client polls for the result by task number. A third
  thread sweeps expired sessions and tasks. On the other end the controller program
  (\<^verbatim>\<open>robert-rapid\<close>) parses the bytes, executes the command and answers.
  \<^verbatim>\<open>main.cpp\<close> starts the server, waits for a signal and stops it.

  \<^bold>\<open>Theories.\<close>
  \<^item> Prelude: bytes and words, little-endian encoding and its reading back (locale
    \<^verbatim>\<open>field_codec\<close>), the bits of a single-precision number as far as conversions to
    integers need them, the outcome monad (a value or an exception, undefined behaviour, a
    self-deadlock; the state in both cases), the lock guard on a non-recursive mutex (locale
    \<^verbatim>\<open>mutex_object\<close>), reachability and invariants (locale
    \<^verbatim>\<open>invariant_of\<close>), queues (locale \<^verbatim>\<open>fifo\<close>), decimal and
    hexadecimal printing.
  \<^item> Format: how numbers are printed, \<^verbatim>\<open>format_double\<close> of \<^verbatim>\<open>utils\<close> and the
    output of a \<^verbatim>\<open>float\<close> to a stream with its default settings, on exact fractions.
  \<^item> Data: \<^verbatim>\<open>core/data\<close>, the packed structs, their object representation, the bridge
    classes with their constructors, setters, conversions and printers.
  \<^item> Commands: \<^verbatim>\<open>commands/commands\<close>, the enumerations, the packed request and its 188
    bytes, the decoded request, the translation between them.
  \<^item> Decoder: \<^verbatim>\<open>commands/decoder\<close>, client requests and the controller's status packet.
  \<^item> Session: \<^verbatim>\<open>server/session\<close>, users, sessions, the hardware lock and the mutex that
    guards them.
  \<^item> Tasker: \<^verbatim>\<open>server/tasker\<close>, tasks, registry, queue, shutdown.
  \<^item> Network: \<^verbatim>\<open>network/sock_comm\<close>, on a kernel that counts open descriptors and
    address lists.
  \<^item> Robot: \<^verbatim>\<open>robot/robot\<close>, queue, promises, connection and worker thread.
  \<^item> Handler: \<^verbatim>\<open>server/request_handler\<close>, validation, every handler, the dispatch.
  \<^item> Conf: \<^verbatim>\<open>core/conf_parser\<close> and \<^verbatim>\<open>utils\<close>.
  \<^item> Server: \<^verbatim>\<open>server/server\<close>, construction, start, stop, and the steps of its three
    threads, with the robot's thread as the fourth.
  \<^item> Program: \<^verbatim>\<open>main.cpp\<close>, the main thread's control points, the signal handler, and their
    steps between those of the server.
  \<^item> History: runs of the server with the events read off them: commands accepted, handed over, and
    taken to be sent.
  \<^item> Rapid: the parser, the tables and the telemetry of \<^verbatim>\<open>robert-rapid\<close>.
  \<^item> Controller: the rest of \<^verbatim>\<open>robert-rapid\<close>, workspace test, actions, error handler,
    message and accept loops; the controller's own kinematics, motion and clock are parameters.
  \<^item> Link: the server and the controller program joined by their TCP connection, with the runs of
    the joint system. An exchange is a step of the robot's worker whose \<^verbatim>\<open>recv\<close> returns what
    the controller model answered to the bytes sent; how the network cuts a request into pieces, and
    how much of the answers has arrived, is chosen anew in every exchange, and each exchange is
    recorded with its surroundings. Every joint run is a run of
    the server (\<^verbatim>\<open>link_run_server\<close>).
  \<^item> Atomicity: the steps of the other threads in the middle of a robot command.
  \<^item> Agreement: the invariant of the joint runs, over any network, and what follows from it for
    the tasks reported complete, for the motions made, and for the life of the controller program.
    What is said of one exchange is said under conditions on that exchange alone: its message arrives
    in one piece (\<^verbatim>\<open>arrived_whole\<close>), or that and nothing is left over from before and at
    least 4 bytes of the answer arrive (\<^verbatim>\<open>in_step\<close>).
  \<^item> Delivery: what goes wrong in an exchange that is not in step.

  \<^bold>\<open>How the code is represented.\<close> A class is a record with the names of its members; a method is a
  function on that record. A method that can throw, hit undefined behaviour or block for ever on its
  own mutex returns an outcome beside the state. Integers have their width: task numbers are 64-bit
  words that wrap, the fields of the packed structs 8, 16 and 32 bits; a \<^verbatim>\<open>float\<close> is its
  bit pattern, never a real number. Unordered maps are association lists without duplicate keys.
  Clock values, random draws, system calls, the YAML loader and the protobuf parser and serialiser
  are arguments. A thread is a control point, and the relations of the steps allow every
  interleaving of the threads' steps. The robot worker, the robot's own thread and the main thread
  take a step for each call that others can see; \<^verbatim>\<open>Server::stop\<close> is three steps and the
  joins. A client's message is handled in one step, although the code lets the other threads run
  between the calls the handler makes. For robot commands the theory Atomicity shows that this is no
  loss while the server is not being stopped: what the other threads do between the checks and
  \<^verbatim>\<open>addTask\<close> can as well be done after the whole request; and for
  \<^verbatim>\<open>addTask\<close>, which takes three locks in turn, the theory Tasker shows that what others do
  in between makes no difference. Between the calls on the session manager only a sweep could
  intervene. The controller's processing of a request is
  placed at the exchange that sent it, also when its answer comes too late.

  \<^bold>\<open>What is shown.\<close> Of each component: its invariant and that every operation keeps it, its
  functional behaviour on every branch, its order and exclusion guarantees. The session manager
  refines an abstract specification on sets and functions. Of the whole program: at most one task is
  in progress; every message is answered while the session mutex is free; a command travels from the
  client's bytes through the registry and the robot to the controller's parser, and its answer back
  to the registry (below); in every run the commands sent are, in order, some of those accepted, and
  all of them are commands the controller executes; a task is reported complete if and only if the
  motion was made; in every joint run with the controller each completed motion task has an exchange
  of its own, in order, which made exactly its motion if it was in step, and conversely each exchange
  whose message arrives whole moves the robot only as its accepted command asks, and stops the
  controller program only if sending the answer fails; no Cartesian motion
  leaves the workspace box; the process returns only after all its threads have ended and the
  robot's connection is closed. Where the code falls short of what it intends, the theorem says what
  the code does: the sweep of an expired session locks a mutex it holds and ends the service, a
  fresh session counts as expired, a message of 11 bytes ends the program, the zone tables of the
  two ends differ, a command whose task has failed can still be executed, stopping abandons
  requests and can crash the worker, a kinematic error is answered twice, an answer left over on the
  connection decides the next task, a request that arrives in two pieces stops the controller
  program, a signal can be lost.

  \<^bold>\<open>Bounds.\<close> No fuel is used: every loop of the code is structural or has a measure. Statements
  about fresh task numbers assume that fewer than \<open>2 ^ 64 - 1\<close> tasks were ever added. Nothing is
  assumed of the network in general: the code does not frame its messages, and TCP may cut them. That
  the 255 bytes of one \<^verbatim>\<open>recv\<close> are enough for the answers to one request is proved, for
  times and dates of their documented length and error numbers of at most seven digits. Configuration
  numbers are read as they are sent, which holds of RAPID's \<^verbatim>\<open>num\<close> for those it
  represents exactly, up to 8388608.

  \<^bold>\<open>Not modelled.\<close> The \<^verbatim>\<open>SIGPIPE\<close> that sending on a reset connection
  raises, which ends the process unless it is ignored; what follows undefined behaviour; log output and its locks (\<^verbatim>\<open>debug.hpp\<close>, the operator's
  display), the Windows branches, the set-up of the ZeroMQ and of the controller's sockets, the real
  time of waits (a step may happen at any time), the controller's own world zone
  (\<^verbatim>\<open>InitializeWorkspaceLimit\<close> only configures it), its system files
  (\<^verbatim>\<open>BASE.sys\<close>, \<^verbatim>\<open>default.mod\<close>), and the build files.
\<close>

section \<open>One command through the whole program\<close>

lemma command_accepted:
  assumes "mutex_free s" and "task_ids_ok (tasker_s s)" and "robot_s s = Some R"
    and "serves_robot (cmd_type req)" and "granted req s" and "is_connected R" and "complete_request req"
    and "k = m_next_task_counter (tasker_s s)" and "handle env req s = (r, s')"
  shows "(\<exists>res. r = Inr res \<and> res_status res = Some SUCCESS \<and> res_task_id res = Some k) \<and>
    getTask k (tasker_s s') = Some (Task_new (task_time env) k (request_spec req)) \<and>
    m_task_queue (tasker_s s') = m_task_queue (tasker_s s) @ [k] \<and> robot_s s' = Some R"
proof -
  have new: "getTask k (tasker_s s) = None"
    using assms(2) unfolding assms(8) task_ids_ok_def by (metis less_irrefl not_None_eq)
  have "tasker_s (refreshed env req s) = tasker_s s" "robot_s (refreshed env req s) = robot_s s"
    using assms(1) by (simp_all add: refreshed_def)
  with assms new show ?thesis
    by (auto simp: handle_robot robot_command_free create_rapid_request_complete addTask_get addTask_fields)
qed

text \<open>The robot worker takes the only task of the queue and submits its request.\<close>

lemma worker_submits:
  assumes "sv_worker s = RwWait" and "m_task_queue (tasker_s (sv s)) = [k]"
    and "getTask k (tasker_s (sv s)) = Some t" and "m_state t = PENDING"
    and "robot_s (sv s) = Some R" and "running_m R" and "is_connected R"
    and "s' = (robot_worker_step now False ^^ 4) s"
  shows "sv_worker s' = RwAwait k (length (promises_m R)) \<and>
    robot_s (sv s') = Some (snd (enqueue_request (m_request t) R)) \<and>
    getTask k (tasker_s (sv s')) = Some (snd (markStarted now t)) \<and>
    m_state (snd (markStarted now t)) = IN_PROGRESS"
proof -
  let ?step = "robot_worker_step now False"
  let ?T1 = "(tasker_s (sv s))\<lparr>m_task_queue := []\<rparr>"
  let ?T2 = "snd (startTask now k ?T1)"
  have g1: "getTask k ?T1 = Some t" using assms(3) by (simp add: getTask_def)
  then have g2: "getTask k ?T2 = Some (snd (markStarted now t))" and f: "fst (startTask now k ?T1)"
    by (simp_all add: startTask_get update_calls)
  have req: "m_request (snd (markStarted now t)) = m_request t" by (simp add: markStarted_def)
  have 1: "?step s = (on_tasker (\<lambda>_. ?T1) s)\<lparr>sv_worker := RwStart k\<rparr>"
    using assms(1,2) by (simp add: robot_worker_step_def waitForNextTask_def)
  have 2: "?step (?step s) = (on_tasker (\<lambda>_. ?T2) s)\<lparr>sv_worker := RwFetch k\<rparr>"
    using f unfolding 1
    by (cases "startTask now k ?T1") (simp add: robot_worker_step_def on_tasker_def)
  have 3: "?step (?step (?step s)) = (on_tasker (\<lambda>_. ?T2) s)\<lparr>sv_worker := RwSubmit k (m_request t)\<rparr>"
    using g2 req assms(5,7) unfolding 2 by (simp add: robot_worker_step_def)
  have "(robot_worker_step now False ^^ 4) s = ?step (?step (?step (?step s)))"
    by (simp add: eval_nat_numeral)
  moreover have "?step ((on_tasker (\<lambda>_. ?T2) s)\<lparr>sv_worker := RwSubmit k (m_request t)\<rparr>) =
      with_robot (\<lambda>_. snd (enqueue_request (m_request t) R))
        ((on_tasker (\<lambda>_. ?T2) s)\<lparr>sv_worker := RwAwait k (length (promises_m R))\<rparr>)"
    using assms(5,6) by (simp add: robot_worker_step_def queue_request_def with_robot_def on_tasker_def)
  ultimately have s': "s' = with_robot (\<lambda>_. snd (enqueue_request (m_request t) R))
      ((on_tasker (\<lambda>_. ?T2) s)\<lparr>sv_worker := RwAwait k (length (promises_m R))\<rparr>)"
    unfolding assms(8) 3 by simp
  with g2 assms(4,5) show ?thesis by (simp add: markStarted_def)
qed

text \<open>The worker of the robot sends the only queued request and resolves its promise.\<close>

lemma robot_answers:
  assumes "robot_inv R" and "running_m R" and "is_connected R" and "worker_thread_m R = LoopHead"
    and "request_queue_m R = []" and "io_documented io" and "\<And>d. d \<noteq> [] \<Longrightarrow> 0 < io_send io d"
    and "io_recv io 255 = Some answer" and "answer \<noteq> []"
    and "R' = (worker_loop_step io ^^ 3) (snd (enqueue_request req R))"
  shows "wire_m R' = wire_m R @ bytes_RapidRequest req \<and>
    promises_m R' ! length (promises_m R) = Some answer"
proof -
  let ?p = "length (promises_m R)"
  let ?item = "\<lparr>wi_command = req, wi_promise = Some ?p\<rparr>"
  let ?E = "snd (enqueue_request req R)" and ?step = "worker_loop_step io"
  have c: "connected_m R" "socket_fd_m R \<noteq> INVALID_SOCKET_FD"
    using assms(1,3) by (simp_all add: is_connected_def robot_inv_def connection_ok_def)
  let ?S = "?E\<lparr>request_queue_m := [], worker_thread_m := Serve ?item False\<rparr>"
  have 1: "?step ?E = ?E\<lparr>worker_thread_m := TakeWork\<rparr>"
    using assms(2,4) c by (simp add: worker_loop_step_def enqueue_request_def Let_def)
  have 2: "?step (?step ?E) = ?S"
    using assms(2,5) unfolding 1 by (simp add: worker_loop_step_def enqueue_request_def pop_request_def Let_def)
  obtain ok T where T: "send_request io req ?S = (ok, T)" by fastforce
  have "ok"
    using T send_loop_completes [of "io_send io" "bytes_RapidRequest req" 0 "[]"] assms(7)
    by (auto simp: send_request_def split: prod.splits)
  with send_request_wire [OF assms(6) T]
  have T': "T = ?S\<lparr>wire_m := wire_m R @ bytes_RapidRequest req\<rparr>"
    by (auto simp: enqueue_request_def Let_def)
  have "send_and_receive io req ?S = (Inr answer, T)"
    using T \<open>ok\<close> c assms(8,9) by (simp add: send_and_receive_def receive_buffer_def enqueue_request_def Let_def)
  then have "serve io ?item False ?S = (Inr (), T\<lparr>promises_m := (promises_m T)[?p := Some answer]\<rparr>)"
    using assms(9) by (simp add: serve_def serve_try_def cxx_defs set_value_def T' enqueue_request_def Let_def)
  then have "?step (?step (?step ?E)) =
      T\<lparr>promises_m := (promises_m T)[?p := Some answer], worker_thread_m := LoopHead\<rparr>"
    unfolding 2 by (simp add: worker_loop_step_def)
  then have "R' = T\<lparr>promises_m := (promises_m T)[?p := Some answer], worker_thread_m := LoopHead\<rparr>"
    by (simp add: assms(10) eval_nat_numeral)
  then show ?thesis by (simp add: T' enqueue_request_def Let_def)
qed

lemma worker_finishes:
  assumes "sv_worker s = RwAwait k p" and "robot_s (sv s) = Some R" and "promises_m R ! p = Some answer"
  shows "robot_worker_step now False s = (on_tasker (finish_task now k answer) s)\<lparr>sv_worker := RwHead\<rparr>"
  using assms by (simp add: robot_worker_step_def)

lemma finish_completes:
  assumes "\<not> starts_with ''ERR:'' (string_of_bytes answer)"
    and "\<not> starts_with ''NACK'' (string_of_bytes answer)"
    and "getTask k T = Some t" and "m_state t = IN_PROGRESS"
  shows "getTask k (finish_task now k answer T) =
    Some (t\<lparr>m_state := COMPLETED, m_end_time := now, m_response := string_of_bytes answer\<rparr>)"
  using assms by (simp add: finish_task_def completeTask_get markCompleted_def Let_def)

lemma with_robot_pow:
  "robot_s (sv s) = Some R \<Longrightarrow> (with_robot f ^^ n) s = with_robot (\<lambda>_. (f ^^ n) R) s"
  by (induction n) (simp_all add: with_robot_def)

text \<open>
  An idle server with a connected robot receives a complete robot command from the holder of the
  hardware lock: after a step of the request loop, four of the robot worker and three of the robot's
  thread, the answer the controller gave to the command's bytes waits for the robot worker.
\<close>

lemma command_travels:
  assumes "server_inv s" and "mutex_free (sv s)" and "sv_running s" and "sv_loop s = ThRunning"
    and "sv_worker s = RwWait" and "m_task_queue (tasker_s (sv s)) = []"
    and "robot_s (sv s) = Some R" and "running_m R" and "is_connected R"
    and "worker_thread_m R = LoopHead" and "request_queue_m R = []"
    and "length data \<noteq> 11"
    and "req = decode_buffer (mio_commands io) (mio_zones io) (mio_parse io) data"
    and "serves_robot (cmd_type req)" and "granted req (sv s)" and "complete_request req"
    and "io_documented rio" and "\<And>d. d \<noteq> [] \<Longrightarrow> 0 < io_send rio d"
    and "io_recv rio 255 = Some answer" and "answer \<noteq> []"
    and "s1 = request_step io env (Some (length data, data)) s"
    and "s2 = (robot_worker_step now False ^^ 4) s1"
    and "s3 = (with_robot (worker_loop_step rio) ^^ 3) s2"
    and "k = m_next_task_counter (tasker_s (sv s))"
  shows "\<exists>p res R' t.
    fst (handle env req (sv s)) = Inr res \<and> res_status res = Some SUCCESS \<and> res_task_id res = Some k \<and>
    robot_s (sv s3) = Some R' \<and> wire_m R' = wire_m R @ bytes_RapidRequest (request_spec req) \<and>
    sv_worker s3 = RwAwait k p \<and> promises_m R' ! p = Some answer \<and>
    getTask k (tasker_s (sv s3)) = Some t \<and> m_state t = IN_PROGRESS"
proof -
  have ids: "task_ids_ok (tasker_s (sv s))" and rinv: "robot_inv R"
    using assms(1,5,7) by (auto simp: server_inv_def tasks_ok_def)
  obtain r u where h: "handle env req (sv s) = (r, u)" by fastforce
  let ?t = "Task_new (task_time env) k (request_spec req)"
  from command_accepted [OF assms(2) ids assms(7,14,15,9,16,24) h]
  obtain res where res: "r = Inr res" "res_status res = Some SUCCESS" "res_task_id res = Some k"
    and u: "getTask k (tasker_s u) = Some ?t" "m_task_queue (tasker_s u) = [k]" "robot_s u = Some R"
    by (auto simp: assms(6))
  have s1: "s1 = s\<lparr>sv := u, sv_loop := ThRunning\<rparr>"
    using h res(1) assms(3,4,12)
    by (simp add: assms(21) request_step_def loop_iteration_def EAGAIN_def send_reply_def
        split: option.split flip: assms(13))
  have t: "m_state ?t = PENDING" "m_request ?t = request_spec req" by (simp_all add: Task_new_def)
  have s2: "sv_worker s2 = RwAwait k (length (promises_m R))"
    "robot_s (sv s2) = Some (snd (enqueue_request (request_spec req) R))"
    "getTask k (tasker_s (sv s2)) = Some (snd (markStarted now ?t))"
    "m_state (snd (markStarted now ?t)) = IN_PROGRESS"
    using worker_submits [of s1 k ?t R, OF _ _ _ t(1) _ assms(8,9,22)] u assms(5) t(2)
    by (simp_all add: s1)
  define R' where "R' = (worker_loop_step rio ^^ 3) (snd (enqueue_request (request_spec req) R))"
  have R': "wire_m R' = wire_m R @ bytes_RapidRequest (request_spec req)"
    "promises_m R' ! length (promises_m R) = Some answer"
    using robot_answers [OF rinv assms(8-11,17-20) R'_def] by simp_all
  have s3: "s3 = with_robot (\<lambda>_. R') s2"
    using with_robot_pow [OF s2(2)] by (simp add: assms(23) R'_def)
  have "sv_worker s3 = RwAwait k (length (promises_m R))" "robot_s (sv s3) = Some R'"
    "getTask k (tasker_s (sv s3)) = Some (snd (markStarted now ?t))"
    using s2 by (simp_all add: s3)
  moreover have "fst (handle env req (sv s)) = Inr res" using h res(1) by simp
  ultimately show ?thesis using s2(4) R' res(2,3) by blast
qed

text \<open>
  C3. One command from the client's bytes to the controller and back. On an idle server with a
  connected robot, a complete robot command from the holder of the hardware lock gets a task
  number; when the three threads involved have run, exactly the bytes the controller program parses
  as that command have been added to the wire, and the task of that number is completed with the
  controller's answer (an answer that starts with neither \<open>ERR:\<close> nor \<open>NACK\<close>).
\<close>

theorem command_end_to_end:
  assumes "server_inv s" and "mutex_free (sv s)" and "sv_running s" and "sv_loop s = ThRunning"
    and "sv_worker s = RwWait" and "m_task_queue (tasker_s (sv s)) = []"
    and "robot_s (sv s) = Some R" and "running_m R" and "is_connected R"
    and "worker_thread_m R = LoopHead" and "request_queue_m R = []"
    and "length data \<noteq> 11"
    and "req = decode_buffer (mio_commands io) (mio_zones io) (mio_parse io) data"
    and "serves_robot (cmd_type req)" and "granted req (sv s)" and "complete_request req"
    and "io_documented rio" and "\<And>d. d \<noteq> [] \<Longrightarrow> 0 < io_send rio d"
    and "io_recv rio 255 = Some answer" and "answer \<noteq> []"
    and "\<not> starts_with ''ERR:'' (string_of_bytes answer)"
    and "\<not> starts_with ''NACK'' (string_of_bytes answer)"
    and "s1 = request_step io env (Some (length data, data)) s"
    and "s2 = (robot_worker_step now False ^^ 4) s1"
    and "s3 = (with_robot (worker_loop_step rio) ^^ 3) s2"
    and "s4 = robot_worker_step later False s3"
  shows "\<exists>k res R' sent t.
    fst (handle env req (sv s)) = Inr res \<and> res_status res = Some SUCCESS \<and> res_task_id res = Some k \<and>
    robot_s (sv s4) = Some R' \<and> wire_m R' = wire_m R @ sent \<and>
    parse_message sent = Execute (expected_action req) \<and>
    getTask k (tasker_s (sv s4)) = Some t \<and> m_state t = COMPLETED \<and>
    m_response t = string_of_bytes answer \<and> sv_worker s4 = RwHead"
proof -
  define k where "k = m_next_task_counter (tasker_s (sv s))"
  from command_travels [OF assms(1-20,23-25) k_def] obtain p res R' t where
    res: "fst (handle env req (sv s)) = Inr res" "res_status res = Some SUCCESS" "res_task_id res = Some k"
    and R': "robot_s (sv s3) = Some R'" "wire_m R' = wire_m R @ bytes_RapidRequest (request_spec req)"
    and p: "sv_worker s3 = RwAwait k p" "promises_m R' ! p = Some answer"
    and t: "getTask k (tasker_s (sv s3)) = Some t" "m_state t = IN_PROGRESS"
    by blast
  have "s4 = (on_tasker (finish_task later k answer) s3)\<lparr>sv_worker := RwHead\<rparr>"
    unfolding assms(26) by (rule worker_finishes [OF p(1) R'(1) p(2)])
  with res R' parse_request [OF assms(16)] finish_completes [OF assms(21,22) t, of later]
  show ?thesis by simp
qed

text \<open>
  C4. What the client is told is what the robot did. On an idle server with a connected robot, the
  holder of the hardware lock sends a complete motion command, and the middleware is given the
  controller's answer to the very bytes it sent: the task of the number in the reply is then
  completed if and only if the controller gave exactly the instruction the client asked for, with
  its current speed and zone, and the motion raised no error; it is failed if and only if the
  instruction was not given, or was given and raised an error.
\<close>

theorem motion_end_to_end:
  assumes "server_inv s" and "mutex_free (sv s)" and "sv_running s" and "sv_loop s = ThRunning"
    and "sv_worker s = RwWait" and "m_task_queue (tasker_s (sv s)) = []"
    and "robot_s (sv s) = Some R" and "running_m R" and "is_connected R"
    and "worker_thread_m R = LoopHead" and "request_queue_m R = []"
    and "length data \<noteq> 11"
    and "req = decode_buffer (mio_commands io) (mio_zones io) (mio_parse io) data"
    and "requested_motion cenv req = Some m" and "granted req (sv s)" and "complete_request req"
    and "io_documented rio" and "\<And>d. d \<noteq> [] \<Longrightarrow> 0 < io_send rio d"
    and "ce_connected cenv" and "HandleClient cenv (Some (bytes_RapidRequest (request_spec req))) c = Serving c'"
    and "io_recv rio 255 = Some (sent_msgs c' ! length (sent_msgs c))"
    and "k = m_next_task_counter (tasker_s (sv s))"
    and "i = \<lparr>in_motion = m, in_speed = move_speed c, in_zone = move_zone c\<rparr>"
    and "s1 = request_step io env (Some (length data, data)) s"
    and "s2 = (robot_worker_step now False ^^ 4) s1"
    and "s3 = (with_robot (worker_loop_step rio) ^^ 3) s2"
    and "s4 = robot_worker_step later False s3"
  shows "\<exists>res R' sent t.
    fst (handle env req (sv s)) = Inr res \<and> res_task_id res = Some k \<and>
    robot_s (sv s4) = Some R' \<and> wire_m R' = wire_m R @ sent \<and>
    HandleClient cenv (Some sent) c = Serving c' \<and>
    getTask k (tasker_s (sv s4)) = Some t \<and>
    (m_state t = COMPLETED \<longleftrightarrow> instructions c' = instructions c @ [i] \<and> ce_Move cenv i = None) \<and>
    (m_state t = FAILED \<longleftrightarrow> instructions c' = instructions c \<or> ce_Move cenv i \<noteq> None)"
proof -
  have serves: "serves_robot (cmd_type req)"
    using assms(14) by (cases "cmd_type req") (simp_all add: requested_motion_def serves_robot_def)
  have "sent_msgs c' ! length (sent_msgs c) \<noteq> []"
    by (rule motion_answer_nonempty [OF assms(16,14,19,20)])
  from command_travels [OF assms(1-13) serves assms(15-18,21) this assms(24-26,22)]
  obtain p res R' t where res: "fst (handle env req (sv s)) = Inr res" "res_task_id res = Some k"
    and R': "robot_s (sv s3) = Some R'" "wire_m R' = wire_m R @ bytes_RapidRequest (request_spec req)"
    and p: "sv_worker s3 = RwAwait k p" "promises_m R' ! p = Some (sent_msgs c' ! length (sent_msgs c))"
    and t: "getTask k (tasker_s (sv s3)) = Some t" "m_state t = IN_PROGRESS"
    by blast
  have "s4 = (on_tasker (finish_task later k (sent_msgs c' ! length (sent_msgs c))) s3)
      \<lparr>sv_worker := RwHead\<rparr>"
    unfolding assms(27) by (rule worker_finishes [OF p(1) R'(1) p(2)])
  with res R' assms(20) completed_means_moved [OF assms(16,14,19,20) refl assms(23) t, of later]
  show ?thesis by auto
qed

definition demo_idle :: Robot where
  "demo_idle =
     (Robot_new ''10.0.0.2'' 5000 5000 \<lparr>open_fds = [3], live_addrinfos = 0\<rparr>)
       \<lparr>socket_fd_m := 3, connected_m := True, running_m := True, worker_thread_m := LoopHead\<rparr>"

lemma demo_idle_inv: "robot_inv demo_idle"
proof -
  have "\<exists>rs. [] = concat (map bytes_RapidRequest rs)" by (rule exI [of _ "[]"]) simp
  moreover have "unanswered demo_idle = {}"
    by (auto simp: unanswered_def demo_idle_def Robot_new_def)
  ultimately show ?thesis
    by (simp add: robot_inv_def promises_ok_def framed_def connection_ok_def pending_items_def
        serving_def demo_idle_def Robot_new_def INVALID_SOCKET_FD_def)
qed

definition demo_idle_server :: Server where
  "demo_idle_server =
     \<lparr>sv = demo_server\<lparr>robot_s := Some demo_idle\<rparr>, sv_running = True, sv_loop = ThRunning,
      sv_worker = RwWait, sv_sweeper = ThRunning\<rparr>"

definition demo_zero_io :: message_io where
  "demo_zero_io = demo_mio\<lparr>mio_parse := (\<lambda>_. Some (demo_move\<lparr>cr_command := 9\<rparr>))\<rparr>"

definition demo_zero_request :: DecodedRequest where
  "demo_zero_request = decode_buffer (mio_commands demo_zero_io) (mio_zones demo_zero_io)
     (mio_parse demo_zero_io) [0]"

lemma demo_zero_fields: "cmd_type demo_zero_request = ZERO" "session_token demo_zero_request = Some ''t1''"
  by (simp_all add: demo_zero_request_def decode_buffer_def demo_zero_io_def demo_mio_def demo_labels_def
      demo_move_def Let_def nonempty_def proto_cmd_enum2rapid_cmd_enum_def DecodedRequest_default_def)

lemma demo_idle_ready:
  "server_inv demo_idle_server" "mutex_free (sv demo_idle_server)"
  "sv_running demo_idle_server" "sv_loop demo_idle_server = ThRunning"
  "sv_worker demo_idle_server = RwWait" "m_task_queue (tasker_s (sv demo_idle_server)) = []"
  "robot_s (sv demo_idle_server) = Some demo_idle"
  using demo_idle_inv demo_manager_wf empty_tasks_ok [of RwWait]
  by (simp_all add: server_inv_def demo_idle_server_def demo_server_def)
    (simp_all add: Tasker_default_def)

lemma demo_idle_robot:
  "running_m demo_idle" "is_connected demo_idle" "worker_thread_m demo_idle = LoopHead"
  "request_queue_m demo_idle = []" "wire_m demo_idle = []"
  by (simp_all add: demo_idle_def Robot_new_def is_connected_def)

lemma demo_zero_granted:
  "length [0 :: byte] \<noteq> 11" "serves_robot (cmd_type demo_zero_request)"
  "granted demo_zero_request (sv demo_idle_server)" "complete_request demo_zero_request"
  using demo_zero_fields
  by (simp_all add: serves_robot_def complete_request_def uses_target_def granted_def
      live_token_def lock_held_def token_of_def value_or_empty_def demo_idle_server_def
      demo_server_def demo_manager_def tokens_def)

theorem command_end_to_end_witness:
  "\<exists>R. robot_s (sv (robot_worker_step 20 False ((with_robot (worker_loop_step demo_ack_io) ^^ 3)
      ((robot_worker_step 10 False ^^ 4) (request_step demo_zero_io demo_env (Some (1, [0])) demo_idle_server)))))
    = Some R \<and> parse_message (wire_m R) = Execute (plain_action ''ZERO'')"
proof -
  have io: "io_documented demo_ack_io" "\<And>d. d \<noteq> [] \<Longrightarrow> 0 < io_send demo_ack_io d"
    "io_recv demo_ack_io 255 = Some (bytes_of_string ''ACK'')" "bytes_of_string ''ACK'' \<noteq> []"
    "\<not> starts_with ''ERR:'' (string_of_bytes (bytes_of_string ''ACK''))"
    "\<not> starts_with ''NACK'' (string_of_bytes (bytes_of_string ''ACK''))"
    by (simp_all only: string_of_bytes_of_string)
      (simp_all add: io_documented_def demo_ack_io_def demo_io_def starts_with_def bytes_of_string_def)
  have action: "expected_action demo_zero_request = plain_action ''ZERO''"
    by (simp add: expected_action_def demo_zero_fields)
  from command_end_to_end [OF demo_idle_ready demo_idle_robot(1-4) demo_zero_granted(1)
      demo_zero_request_def demo_zero_granted(2-4) io refl refl refl refl, of demo_env 20 10]
  show ?thesis using demo_idle_robot(5) action by auto
qed

definition demo_moved :: controller where
  "demo_moved = ExecuteAction demo_calm (expected_action demo_zero_request) controller_init"

definition demo_moving_io :: robot_io where
  "demo_moving_io = demo_io\<lparr>io_recv := (\<lambda>n. Some (take n (sent_msgs demo_moved ! 0)))\<rparr>"

lemma demo_moved_fields:
  "instructions demo_moved = [\<lparr>in_motion = AbsJoint zero_pose, in_speed = 100, in_zone = RZ_fine\<rparr>]"
  "sent_msgs demo_moved = [bytes_of_string ''ACK|ZERO'']"
  by (simp_all add: demo_moved_def expected_action_def demo_zero_fields plain_action_def ExecuteAction_def
      action_body_def do_move_def demo_calm_def demo_ctl_def SendResponse_def SocketSend_def
      controller_init_def Let_def)

theorem motion_end_to_end_witness:
  "\<exists>t. getTask 1 (tasker_s (sv (robot_worker_step 20 False
      ((with_robot (worker_loop_step demo_moving_io) ^^ 3) ((robot_worker_step 10 False ^^ 4)
        (request_step demo_zero_io demo_env (Some (1, [0])) demo_idle_server)))))) = Some t \<and>
    m_state t = COMPLETED"
proof -
  have motion: "requested_motion demo_calm demo_zero_request = Some (AbsJoint zero_pose)"
    by (simp add: requested_motion_def demo_zero_fields)
  have io: "io_documented demo_moving_io" "\<And>d. d \<noteq> [] \<Longrightarrow> 0 < io_send demo_moving_io d"
    "ce_connected demo_calm"
    by (simp_all add: io_documented_def demo_moving_io_def demo_io_def demo_calm_def demo_ctl_def)
  have c': "HandleClient demo_calm (Some (bytes_RapidRequest (request_spec demo_zero_request)))
      controller_init = Serving demo_moved"
    unfolding demo_moved_def
    by (rule handle_serves [OF demo_zero_granted(4) demo_ctl_fields(6) demo_calm_sends])
  have answer: "io_recv demo_moving_io 255 = Some (sent_msgs demo_moved ! length (sent_msgs controller_init))"
    by (simp add: demo_moving_io_def demo_moved_fields controller_init_def bytes_of_string_def)
  have calm: "ce_Move demo_calm i = None" for i by (simp add: demo_calm_def)
  have start: "instructions controller_init = []" "move_speed controller_init = 100"
    "move_zone controller_init = RZ_fine"
    by (simp_all add: controller_init_def)
  have k: "1 = m_next_task_counter (tasker_s (sv demo_idle_server))"
    by (simp add: demo_idle_server_def demo_server_def Tasker_default_def)
  from motion_end_to_end [OF demo_idle_ready demo_idle_robot(1-4) demo_zero_granted(1)
      demo_zero_request_def motion demo_zero_granted(3,4) io c' answer k refl refl refl refl refl,
      of demo_env 20 10]
  show ?thesis by (auto simp: demo_moved_fields start calm)
qed

end
